(* ===== verification/Prelude.thy ===== *)
theory Prelude
  imports Main "HOL-Library.Word"
begin

text \<open>
  Shared vocabulary of the development: the machine types of the Rust code, the result type of its
  fallible functions, the big-endian conversions of the standard library, and the generic lemmas on
  lists and words that the component theories use. Nothing here is specific to one component.
\<close>

unbundle bit_operations_syntax

section \<open>Machine types and results\<close>

type_synonym u8 = "8 word"
type_synonym u16 = "16 word"
type_synonym u32 = "32 word"
type_synonym u64 = "64 word"
type_synonym bytes = "u8 list"

text \<open>\<open>Result<T, E>\<close> is the sum \<open>'e + 'a\<close>; the two abbreviations are the names Rust gives its
  injections. The operator \<open>?\<close> is written out as the case expression it abbreviates.\<close>

type_synonym ('e, 'a) result = "'e + 'a"

abbreviation Err :: "'e \<Rightarrow> ('e, 'a) result" where
  "Err \<equiv> Inl"

abbreviation Ok :: "'a \<Rightarrow> ('e, 'a) result" where
  "Ok \<equiv> Inr"

definition map_err :: "('e \<Rightarrow> 'f) \<Rightarrow> ('e, 'a) result \<Rightarrow> ('f, 'a) result" where
  "map_err f r = (case r of Err e \<Rightarrow> Err (f e) | Ok a \<Rightarrow> Ok a)"

definition map_ok :: "('a \<Rightarrow> 'b) \<Rightarrow> ('e, 'a) result \<Rightarrow> ('e, 'b) result" where
  "map_ok f r = (case r of Err e \<Rightarrow> Err e | Ok a \<Rightarrow> Ok (f a))"

definition is_ok :: "('e, 'a) result \<Rightarrow> bool" where
  "is_ok r = (case r of Err _ \<Rightarrow> False | Ok _ \<Rightarrow> True)"

named_theorems result_simps "equations of the result combinators"

lemma map_err_simps [simp, result_simps]:
  "map_err f (Err e) = Err (f e)" "map_err f (Ok a) = Ok a"
  by (simp_all add: map_err_def)

lemma map_ok_simps [simp, result_simps]:
  "map_ok f (Err e) = Err e" "map_ok f (Ok a) = Ok (f a)"
  by (simp_all add: map_ok_def)

lemma is_ok_simps [simp, result_simps]:
  "\<not> is_ok (Err e)" "is_ok (Ok a)"
  by (simp_all add: is_ok_def)

lemma map_err_eq_Ok [simp]: "map_err f r = Ok a \<longleftrightarrow> r = Ok a"
  by (cases r) simp_all

lemma map_err_eq_Err: "map_err f r = Err e \<longleftrightarrow> (\<exists>e'. r = Err e' \<and> e = f e')"
  by (cases r) auto

lemma map_ok_eq_Ok: "map_ok f r = Ok b \<longleftrightarrow> (\<exists>a. r = Ok a \<and> b = f a)"
  by (cases r) auto

lemma map_ok_eq_Err [simp]: "map_ok f r = Err e \<longleftrightarrow> r = Err e"
  by (cases r) simp_all

section \<open>Checked arithmetic\<close>

text \<open>\<open>u64::checked_add\<close>: \<open>None\<close> when the mathematical sum does not fit.\<close>

definition checked_add :: "'a::len word \<Rightarrow> 'a word \<Rightarrow> 'a word option" where
  "checked_add a b = (if unat a + unat b < 2 ^ LENGTH('a) then Some (a + b) else None)"

definition checked_mul :: "'a::len word \<Rightarrow> 'a word \<Rightarrow> 'a word option" where
  "checked_mul a b = (if unat a * unat b < 2 ^ LENGTH('a) then Some (a * b) else None)"

lemma unat_add_no_wrap:
  fixes a b :: "'a::len word"
  assumes "unat a + unat b < 2 ^ LENGTH('a)"
  shows "unat (a + b) = unat a + unat b"
  using assms by (simp add: unat_word_ariths)

lemma checked_add_Some:
  "checked_add a b = Some c \<longleftrightarrow>
     unat (a :: 'a::len word) + unat b < 2 ^ LENGTH('a) \<and> c = a + b"
  by (auto simp: checked_add_def)

lemma checked_add_None:
  "checked_add a b = None \<longleftrightarrow> 2 ^ LENGTH('a) \<le> unat (a :: 'a::len word) + unat b"
  by (auto simp: checked_add_def)

lemma checked_add_unat:
  "checked_add a b = Some c \<Longrightarrow> unat c = unat a + unat (b :: 'a::len word)"
  by (auto simp: checked_add_Some unat_add_no_wrap)

lemma unat_diff_no_borrow:
  fixes a b :: "'a::len word"
  assumes "unat b \<le> unat a"
  shows "unat (a - b) = unat a - unat b"
  using assms by (simp add: unat_sub word_le_nat_alt)

lemma unat_of_nat_small [simp]:
  "n < 2 ^ LENGTH('a) \<Longrightarrow> unat (of_nat n :: 'a::len word) = n"
  by (simp add: unat_of_nat)

section \<open>Big-endian conversions\<close>

text \<open>\<open>to_be_bytes\<close> and \<open>from_be_bytes\<close> of the unsigned types; the width in bytes is an argument.\<close>

definition to_be_bytes :: "nat \<Rightarrow> 'a::len word \<Rightarrow> bytes" where
  "to_be_bytes n w = map (\<lambda>i. ucast (drop_bit (8 * i) w)) (rev [0..<n])"

fun from_be_bytes :: "bytes \<Rightarrow> 'a::len word" where
  "from_be_bytes [] = 0"
| "from_be_bytes (b # bs) = push_bit (8 * length bs) (ucast b) OR from_be_bytes bs"

lemma length_to_be_bytes [simp]: "length (to_be_bytes n w) = n"
  by (simp add: to_be_bytes_def)

lemma to_be_bytes_0 [simp]: "to_be_bytes 0 w = []"
  by (simp add: to_be_bytes_def)

lemma to_be_bytes_Suc:
  "to_be_bytes (Suc n) w = ucast (drop_bit (8 * n) w) # to_be_bytes n w"
  by (simp add: to_be_bytes_def)

lemma bit_from_be_bytes:
  "bit (from_be_bytes bs :: 'a::len word) i \<longleftrightarrow>
     i < LENGTH('a) \<and> i div 8 < length bs \<and> bit (rev bs ! (i div 8)) (i mod 8)"
proof (induction bs)
  case Nil
  show ?case by simp
next
  case (Cons b bs)
  have m: "i mod 8 < 8" by simp
  consider "i div 8 < length bs" | "i div 8 = length bs" | "length bs < i div 8" by linarith
  then show ?case
  proof cases
    case 1
    then have "i < 8 * length bs" by linarith
    with 1 show ?thesis
      by (auto simp: Cons bit_or_iff bit_push_bit_iff bit_ucast_iff nth_append)
  next
    case 2
    then have i: "i = 8 * length bs + i mod 8" using mult_div_mod_eq [of 8 i] by simp
    then have "8 * length bs \<le> i" "i - 8 * length bs = i mod 8" by linarith+
    with 2 show ?thesis
      by (auto simp: Cons bit_or_iff bit_push_bit_iff bit_ucast_iff nth_append)
  next
    case 3
    then have "8 * Suc (length bs) \<le> 8 * (i div 8)" by simp
    also have "\<dots> \<le> i" by simp
    finally have "8 \<le> i - 8 * length bs" by simp
    then have "\<not> bit b (i - 8 * length bs)"
      using bit_imp_le_length [of b "i - 8 * length bs"] by auto
    with 3 show ?thesis
      by (auto simp: Cons bit_or_iff bit_push_bit_iff bit_ucast_iff nth_append)
  qed
qed

lemma rev_to_be_bytes_nth:
  "j < n \<Longrightarrow> rev (to_be_bytes n w) ! j = ucast (drop_bit (8 * j) w)"
  by (simp add: to_be_bytes_def rev_map)

lemma from_be_to_be:
  assumes "LENGTH('a) \<le> 8 * n"
  shows "from_be_bytes (to_be_bytes n (w :: 'a::len word)) = w"
proof (rule bit_eqI)
  fix i assume "possible_bit TYPE('a word) i"
  then have i: "i < LENGTH('a)" by simp
  with assms have j: "i div 8 < n" by linarith
  have "8 * (i div 8) + i mod 8 = i" by simp
  with i j show "bit (from_be_bytes (to_be_bytes n w) :: 'a word) i = bit w i"
    by (simp add: bit_from_be_bytes rev_to_be_bytes_nth bit_ucast_iff bit_drop_bit_eq)
qed

lemma to_be_from_be:
  assumes "8 * length bs \<le> LENGTH('a)"
  shows "to_be_bytes (length bs) (from_be_bytes bs :: 'a::len word) = bs"
proof -
  have "rev (to_be_bytes (length bs) (from_be_bytes bs :: 'a word)) = rev bs"
  proof (rule nth_equalityI)
    fix j assume "j < length (rev (to_be_bytes (length bs) (from_be_bytes bs :: 'a word)))"
    then have j: "j < length bs" by simp
    show "rev (to_be_bytes (length bs) (from_be_bytes bs :: 'a word)) ! j = rev bs ! j"
    proof (rule bit_eqI)
      fix i assume "possible_bit TYPE(8 word) i"
      then have i: "i < 8" by simp
      then have "(8 * j + i) div 8 = j" "(8 * j + i) mod 8 = i" by simp_all
      moreover have "8 * j + i < LENGTH('a)" using i j assms by linarith
      ultimately show "bit (rev (to_be_bytes (length bs) (from_be_bytes bs :: 'a word)) ! j) i
          = bit (rev bs ! j) i"
        using i j by (simp add: rev_to_be_bytes_nth bit_ucast_iff bit_drop_bit_eq bit_from_be_bytes)
    qed
  qed simp
  then show ?thesis by (simp only: rev_is_rev_conv)
qed

text \<open>The three widths the envelope uses.\<close>

abbreviation be16 :: "u16 \<Rightarrow> bytes" where "be16 \<equiv> to_be_bytes 2"
abbreviation be32 :: "u32 \<Rightarrow> bytes" where "be32 \<equiv> to_be_bytes 4"
abbreviation be64 :: "u64 \<Rightarrow> bytes" where "be64 \<equiv> to_be_bytes 8"

lemma from_be_be16 [simp]: "from_be_bytes (be16 w) = w"
  by (rule from_be_to_be) simp

lemma from_be_be32 [simp]: "from_be_bytes (be32 w) = w"
  by (rule from_be_to_be) simp

lemma from_be_be64 [simp]: "from_be_bytes (be64 w) = w"
  by (rule from_be_to_be) simp

lemma be16_from_be: "length bs = 2 \<Longrightarrow> be16 (from_be_bytes bs) = bs"
  using to_be_from_be [of bs, where ?'a = 16] by simp

lemma be32_from_be: "length bs = 4 \<Longrightarrow> be32 (from_be_bytes bs) = bs"
  using to_be_from_be [of bs, where ?'a = 32] by simp

lemma be64_from_be: "length bs = 8 \<Longrightarrow> be64 (from_be_bytes bs) = bs"
  using to_be_from_be [of bs, where ?'a = 64] by simp

section \<open>Lists\<close>

lemma take_append_eq_length: "take (length xs) (xs @ ys) = xs"
  by simp

lemma split_take_drop_add: "drop m xs = take n (drop m xs) @ drop (m + n) xs"
  by (metis add.commute append_take_drop_id drop_drop)

end
