(* ===== verification/Crc32c.thy ===== *)
theory Crc32c
  imports Prelude
begin

text \<open>
  The interface of the \<open>crc32c\<close> crate, which is not part of the repository: two functions, given to the
  model as a record, with the documented law that \<open>crc32c_append\<close> continues the checksum of the bytes
  before it. The interface with detection adds what the polynomial promises for a changed byte. The
  bitwise Castagnoli algorithm at the end satisfies both and evaluates the golden fixtures.
\<close>

record crc32c_lib =
  crc32c_of :: "bytes \<Rightarrow> u32"
  crc32c_append :: "u32 \<Rightarrow> bytes \<Rightarrow> u32"

locale crc32c_api =
  fixes C :: crc32c_lib
  assumes crc32c_of_eq: "crc32c_of C bs = crc32c_append C 0 bs"
    and append_Nil: "crc32c_append C c [] = c"
    and append_append: "crc32c_append C (crc32c_append C c xs) ys = crc32c_append C c (xs @ ys)"
begin

lemma append_of: "crc32c_append C (crc32c_of C xs) ys = crc32c_of C (xs @ ys)"
  by (simp add: crc32c_of_eq append_append)

lemma fold_append: "fold (\<lambda>ch c. crc32c_append C c ch) chunks c = crc32c_append C c (concat chunks)"
  by (induction chunks arbitrary: c) (simp_all add: append_Nil append_append)

end

locale crc32c_detects = crc32c_api +
  assumes append_inj: "crc32c_append C c xs = crc32c_append C d xs \<Longrightarrow> c = d"
    and append_byte_inj: "crc32c_append C c [a] = crc32c_append C c [b] \<Longrightarrow> a = b"
begin

text \<open>Two texts that differ in exactly one byte have different checksums.\<close>

lemma single_byte_change:
  assumes "crc32c_of C (xs @ a # ys) = crc32c_of C (xs @ b # ys)"
  shows "a = b"
proof -
  have split: "crc32c_of C (xs @ z # ys) =
      crc32c_append C (crc32c_append C (crc32c_append C 0 xs) [z]) ys" for z
    by (simp add: crc32c_of_eq append_append)
  show ?thesis using assms unfolding split by (blast dest: append_inj append_byte_inj)
qed

end

section \<open>The Castagnoli checksum\<close>

definition castagnoli_bit :: "u32 \<Rightarrow> u32" where
  "castagnoli_bit x = (if bit x 0 then drop_bit 1 x XOR 0x82F63B78 else drop_bit 1 x)"

definition castagnoli_byte :: "u8 \<Rightarrow> u32 \<Rightarrow> u32" where
  "castagnoli_byte b x = (castagnoli_bit ^^ 8) (x XOR ucast b)"

definition castagnoli :: crc32c_lib where
  "castagnoli =
     \<lparr>crc32c_of = (\<lambda>bs. NOT (fold castagnoli_byte bs (NOT 0))),
      crc32c_append = (\<lambda>c bs. NOT (fold castagnoli_byte bs (NOT c)))\<rparr>"

lemma xor_cancel_left: "(x :: 'a::len word) XOR a = x XOR b \<Longrightarrow> a = b"
  by (metis xor.assoc xor_self_eq xor.left_neutral)

lemma xor_cancel_right: "(x :: 'a::len word) XOR a = y XOR a \<Longrightarrow> x = y"
  by (metis xor.assoc xor_self_eq xor.right_neutral)

lemma castagnoli_bit_inj: "castagnoli_bit x = castagnoli_bit y \<Longrightarrow> x = y"
proof -
  assume eq: "castagnoli_bit x = castagnoli_bit y"
  have top: "bit (castagnoli_bit z) 31 = bit z 0" for z
    by (simp add: castagnoli_bit_def bit_xor_iff bit_drop_bit_eq bit_imp_le_length)
       (auto dest: bit_imp_le_length)
  have low: "bit x 0 = bit y 0" using eq top [of x] top [of y] by simp
  have sh: "drop_bit 1 x = drop_bit 1 y"
    using eq low by (auto simp: castagnoli_bit_def split: if_splits dest: xor_cancel_right)
  show "x = y"
  proof (rule bit_eqI)
    fix n
    show "bit x n = bit y n"
    proof (cases n)
      case 0
      with low show ?thesis by simp
    next
      case (Suc m)
      have "bit (drop_bit 1 x) m = bit (drop_bit 1 y) m" using sh by simp
      with Suc show ?thesis by (simp add: bit_drop_bit_eq)
    qed
  qed
qed

lemma castagnoli_iter_inj: "(castagnoli_bit ^^ n) x = (castagnoli_bit ^^ n) y \<Longrightarrow> x = y"
  by (induction n) (auto dest: castagnoli_bit_inj)

lemma castagnoli_byte_inj_state: "castagnoli_byte b x = castagnoli_byte b y \<Longrightarrow> x = y"
  unfolding castagnoli_byte_def by (blast dest: castagnoli_iter_inj xor_cancel_right)

lemma castagnoli_byte_inj_byte: "castagnoli_byte a x = castagnoli_byte b x \<Longrightarrow> a = b"
proof -
  assume "castagnoli_byte a x = castagnoli_byte b x"
  then have "(ucast a :: u32) = ucast b"
    unfolding castagnoli_byte_def by (blast dest: castagnoli_iter_inj xor_cancel_left)
  then show "a = b" by (auto simp: bit_eq_iff bit_ucast_iff)
qed

lemma castagnoli_fold_inj:
  "fold castagnoli_byte bs x = fold castagnoli_byte bs y \<Longrightarrow> x = y"
  by (induction bs arbitrary: x y) (auto dest: castagnoli_byte_inj_state)

interpretation castagnoli: crc32c_detects castagnoli
proof unfold_locales
  fix c d xs
  assume "crc32c_append castagnoli c xs = crc32c_append castagnoli d xs"
  then have "NOT c = NOT d" by (auto simp: castagnoli_def dest: castagnoli_fold_inj)
  then show "c = d" by simp
qed (auto simp: castagnoli_def dest: castagnoli_byte_inj_byte)

text \<open>The check value of CRC-32C in the literature: the checksum of the nine digits.\<close>

lemma castagnoli_byte_eval:
  "castagnoli_byte b x =
     castagnoli_bit (castagnoli_bit (castagnoli_bit (castagnoli_bit (castagnoli_bit
       (castagnoli_bit (castagnoli_bit (castagnoli_bit (x XOR ucast b))))))))"
  by (simp add: castagnoli_byte_def numeral_eq_Suc)

lemmas castagnoli_eval = castagnoli_def castagnoli_byte_eval castagnoli_bit_def

lemma castagnoli_check_value:
  "crc32c_of castagnoli [0x31,0x32,0x33,0x34,0x35,0x36,0x37,0x38,0x39] = 0xE3069283"
  by (simp add: castagnoli_eval)

end
