(* ===== verification/Config.thy ===== *)
theory Config
  imports Prelude
begin

text \<open>
  \<open>src/config.rs\<close>: the size constants, the format identity of an application, the options of a store
  and the validation that makes a format identity. A \<open>usize\<close> is the 64-bit one. A Rust \<open>String\<close> is a
  list of its bytes, so \<open>length\<close> counts what \<open>str::len\<close> counts.
\<close>

section \<open>Constants\<close>

definition DOMAIN_TAG_LEN :: nat where "DOMAIN_TAG_LEN = 8"
definition ENVELOPE_VERSION_V1 :: u16 where "ENVELOPE_VERSION_V1 = 1"
definition MAX_FILENAME_SUFFIX_LEN :: nat where "MAX_FILENAME_SUFFIX_LEN = 32"
definition HEADER_LEN :: nat where "HEADER_LEN = 18"
definition CHECKSUM_LEN :: nat where "CHECKSUM_LEN = 4"
definition STREAM_CHUNK_SIZE :: nat where "STREAM_CHUNK_SIZE = 64 * 1024"
definition STREAM_CHANNEL_CAPACITY :: nat where "STREAM_CHANNEL_CAPACITY = 2"
definition DEFAULT_MAX_BLOB_SIZE :: u64 where "DEFAULT_MAX_BLOB_SIZE = 64 * 1024 * 1024"
definition DEFAULT_MAX_CONCURRENT_OPERATIONS :: nat where
  "DEFAULT_MAX_CONCURRENT_OPERATIONS = 4"

lemmas config_consts = DOMAIN_TAG_LEN_def ENVELOPE_VERSION_V1_def MAX_FILENAME_SUFFIX_LEN_def
  HEADER_LEN_def CHECKSUM_LEN_def

section \<open>Format identity and options\<close>

record blob_format_identity =
  domain_tag :: bytes
  filename_suffix :: string
  envelope_version :: u16

record atomic_blob_store_options =
  opt_format :: blob_format_identity
  opt_max_blob_size :: u64
  opt_max_concurrent_operations :: nat

datatype config_error =
    InvalidDomainTagLength nat
  | InvalidFilenameSuffix
  | UnsupportedConfiguredEnvelopeVersion u16
  | InvalidNamespace
  | InvalidMaximumBlobSize u64

text \<open>The ASCII classes of the standard library, on the bytes of a string.\<close>

abbreviation char_code :: "char \<Rightarrow> nat" where
  "char_code \<equiv> of_char"

definition is_ascii_lowercase :: "char \<Rightarrow> bool" where
  "is_ascii_lowercase c \<longleftrightarrow> 97 \<le> char_code c \<and> char_code c \<le> 122"

definition is_ascii_uppercase :: "char \<Rightarrow> bool" where
  "is_ascii_uppercase c \<longleftrightarrow> 65 \<le> char_code c \<and> char_code c \<le> 90"

definition is_ascii_digit :: "char \<Rightarrow> bool" where
  "is_ascii_digit c \<longleftrightarrow> 48 \<le> char_code c \<and> char_code c \<le> 57"

definition is_ascii_hexdigit :: "char \<Rightarrow> bool" where
  "is_ascii_hexdigit c \<longleftrightarrow> is_ascii_digit c \<or> (97 \<le> char_code c \<and> char_code c \<le> 102)
     \<or> (65 \<le> char_code c \<and> char_code c \<le> 70)"

definition suffix_byte :: "char \<Rightarrow> bool" where
  "suffix_byte c \<longleftrightarrow> is_ascii_lowercase c \<or> is_ascii_digit c \<or> c = CHR ''_'' \<or> c = CHR ''-''"

definition validate_suffix :: "string \<Rightarrow> (config_error, unit) result" where
  "validate_suffix suffix =
     (if (2 \<le> length suffix \<and> length suffix \<le> MAX_FILENAME_SUFFIX_LEN)
         \<and> take 1 suffix = ''.''
         \<and> list_all suffix_byte (drop 1 suffix)
      then Ok () else Err InvalidFilenameSuffix)"

definition blob_format_identity_new ::
  "bytes \<Rightarrow> string \<Rightarrow> u16 \<Rightarrow> (config_error, blob_format_identity) result" where
  "blob_format_identity_new domain suffix version =
     (if length domain \<noteq> DOMAIN_TAG_LEN then Err (InvalidDomainTagLength (length domain))
      else case validate_suffix suffix of
        Err e \<Rightarrow> Err e
      | Ok _ \<Rightarrow>
          (if version \<noteq> ENVELOPE_VERSION_V1
           then Err (UnsupportedConfiguredEnvelopeVersion version)
           else Ok \<lparr>domain_tag = domain, filename_suffix = suffix, envelope_version = version\<rparr>))"

definition options_new :: "blob_format_identity \<Rightarrow> atomic_blob_store_options" where
  "options_new f = \<lparr>opt_format = f, opt_max_blob_size = DEFAULT_MAX_BLOB_SIZE,
     opt_max_concurrent_operations = DEFAULT_MAX_CONCURRENT_OPERATIONS\<rparr>"

definition with_max_blob_size ::
  "u64 \<Rightarrow> atomic_blob_store_options \<Rightarrow> atomic_blob_store_options" where
  "with_max_blob_size maximum opts = opts\<lparr>opt_max_blob_size := maximum\<rparr>"

text \<open>The argument is a \<open>NonZeroUsize\<close>: \<open>nonzero_usize\<close> is the constructor of that type.\<close>

definition nonzero_usize :: "nat \<Rightarrow> nat option" where
  "nonzero_usize n = (if n = 0 then None else Some n)"

definition with_max_concurrent_operations ::
  "nat \<Rightarrow> atomic_blob_store_options \<Rightarrow> atomic_blob_store_options" where
  "with_max_concurrent_operations maximum opts =
     opts\<lparr>opt_max_concurrent_operations := maximum\<rparr>"

section \<open>Well-formed identities\<close>

definition wf_format :: "blob_format_identity \<Rightarrow> bool" where
  "wf_format f \<longleftrightarrow> length (domain_tag f) = 8 \<and> validate_suffix (filename_suffix f) = Ok ()
     \<and> envelope_version f = 1"

lemma validate_suffix_Ok:
  "validate_suffix s = Ok u \<longleftrightarrow>
     2 \<le> length s \<and> length s \<le> 32 \<and> hd s = CHR ''.'' \<and> list_all suffix_byte (tl s)"
  by (cases s) (auto simp: validate_suffix_def config_consts)

lemma validate_suffix_cases: "validate_suffix s = Ok () \<or> validate_suffix s = Err InvalidFilenameSuffix"
  by (simp add: validate_suffix_def)

lemma suffix_byte_not_dot: "suffix_byte c \<Longrightarrow> c \<noteq> CHR ''.''"
  by (auto simp: suffix_byte_def is_ascii_lowercase_def is_ascii_digit_def)

lemma suffix_byte_not_slash: "suffix_byte c \<Longrightarrow> c \<noteq> CHR ''/''"
  by (auto simp: suffix_byte_def is_ascii_lowercase_def is_ascii_digit_def)

lemma wf_format_suffix:
  assumes "wf_format f"
  obtains body where "filename_suffix f = CHR ''.'' # body" "body \<noteq> []" "list_all suffix_byte body"
    "CHR ''.'' \<notin> set body" "CHR ''/'' \<notin> set (filename_suffix f)"
proof -
  let ?s = "filename_suffix f"
  from assms have v: "2 \<le> length ?s" "hd ?s = CHR ''.''" "list_all suffix_byte (tl ?s)"
    by (auto simp: wf_format_def validate_suffix_Ok)
  from v(1,2) obtain body where b: "?s = CHR ''.'' # body" by (cases ?s) auto
  with v have "body \<noteq> []" "list_all suffix_byte body" by auto
  moreover from this have "CHR ''.'' \<notin> set body" "CHR ''/'' \<notin> set ?s"
    unfolding b list_all_iff using suffix_byte_not_dot suffix_byte_not_slash by auto
  ultimately show thesis using b that by blast
qed

lemma blob_format_identity_new_wf:
  "blob_format_identity_new d s v = Ok f \<Longrightarrow>
     wf_format f \<and> domain_tag f = d \<and> filename_suffix f = s \<and> envelope_version f = v"
  using validate_suffix_cases [of s]
  by (auto simp: blob_format_identity_new_def wf_format_def config_consts split: if_splits)

text \<open>Constructing a format identity succeeds exactly on a domain tag of eight bytes, a suffix
  matching \<open>\.[a-z0-9_-]+\<close> of at most 32 bytes and version 1, and then stores its arguments unchanged
  in an identity that is well-formed; in every other case it reports the first violated condition in
  the order tag length, suffix, version.\<close>

theorem format_identity_new_correct:
  "blob_format_identity_new d s v =
     (if length d \<noteq> 8 then Err (InvalidDomainTagLength (length d))
      else if \<not> (2 \<le> length s \<and> length s \<le> 32 \<and> hd s = CHR ''.'' \<and> (\<forall>c \<in> set (tl s). suffix_byte c))
        then Err InvalidFilenameSuffix
      else if v \<noteq> 1 then Err (UnsupportedConfiguredEnvelopeVersion v)
      else Ok \<lparr>domain_tag = d, filename_suffix = s, envelope_version = v\<rparr>)
   \<and> (\<forall>f. blob_format_identity_new d s v = Ok f \<longrightarrow> wf_format f)"
proof -
  have "validate_suffix s = (if 2 \<le> length s \<and> length s \<le> 32 \<and> hd s = CHR ''.''
      \<and> (\<forall>c \<in> set (tl s). suffix_byte c) then Ok () else Err InvalidFilenameSuffix)"
    using validate_suffix_cases [of s] by (auto simp: validate_suffix_Ok list_all_iff)
  then show ?thesis
    using blob_format_identity_new_wf [of d s v]
    by (auto simp: blob_format_identity_new_def config_consts)
qed

theorem format_identity_new_witness:
  "blob_format_identity_new [66,76,79,66,84,69,83,84] ''.blob'' 1 =
     Ok \<lparr>domain_tag = [66,76,79,66,84,69,83,84], filename_suffix = ''.blob'', envelope_version = 1\<rparr>
   \<and> wf_format \<lparr>domain_tag = [66,76,79,66,84,69,83,84], filename_suffix = ''.blob'', envelope_version = 1\<rparr>"
proof -
  let ?f = "\<lparr>domain_tag = [66,76,79,66,84,69,83,84], filename_suffix = ''.blob'', envelope_version = 1\<rparr>"
  have "blob_format_identity_new [66,76,79,66,84,69,83,84] ''.blob'' 1 = Ok ?f"
    by (simp add: blob_format_identity_new_def validate_suffix_def config_consts suffix_byte_def
        is_ascii_lowercase_def)
  then show ?thesis
    using format_identity_new_correct [of "[66,76,79,66,84,69,83,84]" "''.blob''" 1] by blast
qed

end
