(* ===== verification/Errors.thy ===== *)
theory Errors
  imports Config
begin

text \<open>
  \<open>src/error.rs\<close> and the part of \<open>std::io::Error\<close> the store inspects: the operations an I/O error is
  attributed to, the sections of an envelope, the observable results of inspection, quarantine and
  cleanup, and the error type every operation of the store returns.
\<close>

section \<open>\<open>std::io::Error\<close>\<close>

datatype io_error_kind = NotFound | AlreadyExists | Interrupted | UnexpectedEof | OtherKind nat

text \<open>An error of the operating system carries its raw code; the others carry a message.\<close>

datatype io_error =
    OsError nat io_error_kind
  | CustomError io_error_kind string

fun io_kind :: "io_error \<Rightarrow> io_error_kind" where
  "io_kind (OsError _ k) = k"
| "io_kind (CustomError k _) = k"

fun raw_os_error :: "io_error \<Rightarrow> nat option" where
  "raw_os_error (OsError c _) = Some c"
| "raw_os_error (CustomError _ _) = None"

definition io_error_other :: "string \<Rightarrow> io_error" where
  "io_error_other message = CustomError (OtherKind 0) message"

text \<open>The kind the standard library gives to a raw error number on Unix: ENOENT, EINTR, EEXIST.\<close>

definition decode_errno :: "nat \<Rightarrow> io_error_kind" where
  "decode_errno c = (if c = 2 then NotFound else if c = 4 then Interrupted
     else if c = 17 then AlreadyExists else OtherKind c)"

definition from_raw_os_error :: "nat \<Rightarrow> io_error" where
  "from_raw_os_error c = OsError c (decode_errno c)"

definition unexpected_eof :: io_error where
  "unexpected_eof = CustomError UnexpectedEof ''failed to fill whole buffer''"

section \<open>Operations and sections\<close>

datatype store_operation =
    ResolveCurrentDirectory | NormalizeRoot | StartInitialization | StartCoordinator | InspectRoot
  | InspectNamespace | CreateNamespace | OpenRootDirectory | SyncRootDirectory | OpenBlob
  | ReadEnvelope | OpenAtomicWriter | WriteEnvelope | RemoveBlob | OpenNamespaceDirectory
  | SyncNamespaceDirectory | InspectBlob | QuarantineBlob | GenerateIdentifier
  | EnumerateTemporaryFiles | RemoveTemporaryFile | RefreshClearStagingAge

fun store_operation_display :: "store_operation \<Rightarrow> string" where
  "store_operation_display ResolveCurrentDirectory = ''resolve the current directory''"
| "store_operation_display NormalizeRoot = ''normalize the configured root path''"
| "store_operation_display StartInitialization = ''start store initialization''"
| "store_operation_display StartCoordinator = ''start the blob-store coordinator''"
| "store_operation_display InspectRoot = ''inspect configured root''"
| "store_operation_display InspectNamespace = ''inspect namespace directory''"
| "store_operation_display CreateNamespace = ''create namespace directory''"
| "store_operation_display OpenRootDirectory = ''open configured root directory''"
| "store_operation_display SyncRootDirectory = ''synchronize configured root directory''"
| "store_operation_display OpenBlob = ''open blob''"
| "store_operation_display ReadEnvelope = ''read blob envelope''"
| "store_operation_display OpenAtomicWriter = ''open atomic blob writer''"
| "store_operation_display WriteEnvelope = ''write blob envelope''"
| "store_operation_display RemoveBlob = ''remove blob''"
| "store_operation_display OpenNamespaceDirectory = ''open namespace directory''"
| "store_operation_display SyncNamespaceDirectory = ''synchronize namespace directory''"
| "store_operation_display InspectBlob = ''inspect blob''"
| "store_operation_display QuarantineBlob = ''quarantine blob''"
| "store_operation_display GenerateIdentifier = ''generate a diagnostic identifier''"
| "store_operation_display EnumerateTemporaryFiles = ''enumerate owned temporary files''"
| "store_operation_display RemoveTemporaryFile = ''remove an owned temporary file''"
| "store_operation_display RefreshClearStagingAge = ''refresh clear-staging age''"

datatype envelope_section = Magic | Version | PayloadLength | Payload | Checksum

fun envelope_section_display :: "envelope_section \<Rightarrow> string" where
  "envelope_section_display Magic = ''magic''"
| "envelope_section_display Version = ''version''"
| "envelope_section_display PayloadLength = ''payload length''"
| "envelope_section_display Payload = ''payload''"
| "envelope_section_display Checksum = ''checksum''"

section \<open>Observable results\<close>

text \<open>A \<open>SystemTime\<close> is the signed distance to the Unix epoch in nanoseconds.\<close>

type_synonym system_time = int
type_synonym path = string

datatype blob_state = Absent | Present

record blob_inspection =
  bi_state :: blob_state
  bi_size :: "u64 option"
  bi_modified :: "system_time option"

record blob_metadata =
  payload_len :: u64

record quarantine_info =
  qi_identifier :: string
  diagnostic_path :: path

record cleanup_failure =
  cf_identifier :: string
  cf_source :: io_error

record cleanup_report =
  cr_removed :: "string list"
  cr_skipped :: "string list"
  cr_failures :: "cleanup_failure list"

definition cleanup_report_default :: cleanup_report where
  "cleanup_report_default = \<lparr>cr_removed = [], cr_skipped = [], cr_failures = []\<rparr>"

section \<open>The error type\<close>

text \<open>The error of the random source is its raw code: the store only passes it on.\<close>

type_synonym getrandom_error = nat

datatype store_error =
    Configuration config_error
  | Io store_operation io_error
  | AtomicCommit io_error
  | RootDoesNotExist
  | RootIsNotDirectory
  | NamespacePathIsNotDirectory
  | InvalidEnvelopeDomain bytes bytes
  | UnsupportedEnvelopeVersion u16
  | TruncatedEnvelope envelope_section
  | BlobTooLarge u64 u64
  | InvalidPayloadLength u64
  | TrailingData
  | ChecksumMismatch u32 u32
  | InputEndedEarly u64 u64
  | InputHasTrailingData u64
  | InputIo io_error
  | OutputIo io_error
  | StreamCancelled
  | UnsupportedPlatform string
  | CoordinationFailure
  | StoreClosed
  | EngineFailed
  | WorkerUnavailable
  | ShutdownFailure
  | QuarantineSourceMissing
  | QuarantineCommit io_error
  | QuarantineNamespaceSync quarantine_info io_error
  | CleanupUnsupported string
  | InvalidCleanupAge
  | IdentifierGeneration getrandom_error
  | UnexpectedFileType
  | MaintenanceCoordinationFailure

type_synonym 'a store_result = "(store_error, 'a) result"

end
