(* ===== verification/Readers.thy ===== *)
theory Readers
  imports Errors
begin

text \<open>
  What \<open>src/format.rs\<close> uses of \<open>std::io::Read\<close>: one call of \<open>read\<close>, which may return fewer bytes than
  asked or fail, and \<open>read_exact\<close>, the loop of the standard library over it. A reader is the content it
  reads, its position, and a script of what the next calls do; past the end of the script every call
  returns as much as it can. The script ranges over every behaviour of a reader that ends its data
  with end-of-file.
\<close>

datatype read_answer = ShortRead nat | ReadFault io_error

record reader =
  rd_content :: bytes
  rd_pos :: nat
  rd_script :: "read_answer list"

definition rd_rest :: "reader \<Rightarrow> bytes" where
  "rd_rest r = drop (rd_pos r) (rd_content r)"

text \<open>A reader over bytes that never fails and never reads short, such as \<open>Cursor\<close>.\<close>

definition cursor :: "bytes \<Rightarrow> reader" where
  "cursor bs = \<lparr>rd_content = bs, rd_pos = 0, rd_script = []\<rparr>"

text \<open>\<open>ShortRead k\<close> delivers at most \<open>k + 1\<close> bytes: zero bytes mean end-of-file, which only the end of
  the content gives.\<close>

definition read_call :: "nat \<Rightarrow> reader \<Rightarrow> (io_error, bytes) result \<times> reader" where
  "read_call n r = (case rd_script r of
       [] \<Rightarrow> (let got = take n (rd_rest r) in (Ok got, r\<lparr>rd_pos := rd_pos r + length got\<rparr>))
     | ReadFault e # s \<Rightarrow> (Err e, r\<lparr>rd_script := s\<rparr>)
     | ShortRead k # s \<Rightarrow>
         (let got = take (min n (Suc k)) (rd_rest r)
          in (Ok got, r\<lparr>rd_pos := rd_pos r + length got, rd_script := s\<rparr>)))"

definition seek_start :: "nat \<Rightarrow> reader \<Rightarrow> reader" where
  "seek_start p r = r\<lparr>rd_pos := p\<rparr>"

lemma rd_rest_cursor [simp]: "rd_rest (cursor bs) = bs"
  by (simp add: rd_rest_def cursor_def)

lemma rd_rest_advance: "rd_rest (r\<lparr>rd_pos := rd_pos r + n\<rparr>) = drop n (rd_rest r)"
  by (simp add: rd_rest_def add.commute)

lemma rd_rest_script [simp]: "rd_rest (r\<lparr>rd_script := s\<rparr>) = rd_rest r"
  by (simp add: rd_rest_def)

lemma read_call_Ok:
  assumes "read_call n r = (Ok got, r')"
  shows "got = take (length got) (rd_rest r) \<and> length got \<le> n \<and> rd_rest r' = drop (length got) (rd_rest r)
    \<and> rd_content r' = rd_content r \<and> rd_pos r' = rd_pos r + length got
    \<and> length (rd_script r') \<le> length (rd_script r)"
  using assms
  by (auto simp: read_call_def Let_def rd_rest_def add.commute min_def
      split: list.splits read_answer.splits)

lemma read_call_Err:
  assumes "read_call n r = (Err e, r')"
  shows "rd_rest r' = rd_rest r \<and> rd_content r' = rd_content r \<and> rd_pos r' = rd_pos r
    \<and> rd_script r = ReadFault e # rd_script r'"
  using assms by (auto simp: read_call_def Let_def split: list.splits read_answer.splits)

function read_exact :: "nat \<Rightarrow> reader \<Rightarrow> (io_error, bytes) result \<times> reader" where
  "read_exact n r =
     (if n = 0 then (Ok [], r)
      else case read_call n r of
        (Err e, r') \<Rightarrow> if io_kind e = Interrupted then read_exact n r' else (Err e, r')
      | (Ok got, r') \<Rightarrow>
          if got = [] then (Err unexpected_eof, r')
          else (case read_exact (n - length got) r' of
                  (Err e, r'') \<Rightarrow> (Err e, r'')
                | (Ok rest, r'') \<Rightarrow> (Ok (got @ rest), r'')))"
  by pat_completeness auto
termination
proof (relation "measure (\<lambda>(n, r). n + length (rd_script r))", goal_cases)
  case (2 n r x r' e)
  then have "read_call n r = (Err e, r')" by (cases "read_call n r") simp
  from read_call_Err [OF this] show ?case by simp
next
  case (3 n r x r' got)
  then have "read_call n r = (Ok got, r')" by (cases "read_call n r") simp
  from read_call_Ok [OF this] have "length got \<le> n" "length (rd_script r') \<le> length (rd_script r)"
    by blast+
  moreover have "0 < length got" using 3 by simp
  ultimately have "n - length got + length (rd_script r') < n + length (rd_script r)" by linarith
  then show ?case by simp
qed simp

declare read_exact.simps [simp del]

lemma read_exact_0 [simp]: "read_exact 0 r = (Ok [], r)"
  by (simp add: read_exact.simps [of 0 r])

text \<open>Whatever the script does, the bytes \<open>read_exact\<close> delivers are the next ones of the content.\<close>

lemma read_exact_Ok:
  "read_exact n r = (Ok bs, r') \<Longrightarrow>
     n \<le> length (rd_rest r) \<and> bs = take n (rd_rest r) \<and> rd_rest r' = drop n (rd_rest r)
     \<and> rd_content r' = rd_content r \<and> rd_pos r' = rd_pos r + n"
proof (induction n r arbitrary: bs rule: read_exact.induct)
  case (1 n r)
  show ?case
  proof (cases "n = 0")
    case True
    with "1.prems" show ?thesis by (simp add: read_exact.simps [of 0 r])
  next
    case False
    obtain a r1 where call: "read_call n r = (a, r1)" by (cases "read_call n r")
    show ?thesis
    proof (cases a)
      case (Inl e)
      with call False "1.prems" have i: "io_kind e = Interrupted" "read_exact n r1 = (Ok bs, r')"
        by (auto simp: read_exact.simps [of n r] split: if_splits)
      from "1.IH"(1) [OF False call [symmetric] Inl i(1) i(2)]
      show ?thesis using read_call_Err [OF call [unfolded Inl]] by auto
    next
      case (Inr got)
      with call False "1.prems" have g: "got \<noteq> []"
        by (auto simp: read_exact.simps [of n r] split: if_splits)
      with call Inr False "1.prems" obtain rest where
        m: "read_exact (n - length got) r1 = (Ok rest, r')" "bs = got @ rest"
        by (auto simp: read_exact.simps [of n r] split: prod.splits sum.splits)
      note c = read_call_Ok [OF call [unfolded Inr]]
      from "1.IH"(2) [OF False call [symmetric] Inr g m(1)] c
      have h: "n - length got \<le> length (rd_rest r) - length got"
        "rest = take (n - length got) (drop (length got) (rd_rest r))"
        "rd_rest r' = drop (n - length got) (drop (length got) (rd_rest r))"
        "rd_content r' = rd_content r" "rd_pos r' = rd_pos r + length got + (n - length got)"
        by auto
      from c have le: "length got \<le> n" "length got \<le> length (rd_rest r)"
        using length_take [of "length got" "rd_rest r"] by auto
      have "bs = take (length got + (n - length got)) (rd_rest r)"
        unfolding take_add using m(2) h(2) c by simp
      with h le show ?thesis by (simp add: add.commute)
    qed
  qed
qed

text \<open>Without faults the loop fills the buffer exactly when the content has the bytes.\<close>

definition no_faults :: "reader \<Rightarrow> bool" where
  "no_faults r \<longleftrightarrow> (\<forall>a \<in> set (rd_script r). \<exists>k. a = ShortRead k)"

lemma no_faults_cursor [simp]: "no_faults (cursor bs)"
  by (simp add: no_faults_def cursor_def)

lemma read_call_no_faults:
  assumes "no_faults r"
  obtains got r' where "read_call n r = (Ok got, r')" "no_faults r'"
    "got = [] \<longleftrightarrow> n = 0 \<or> rd_rest r = []"
proof (cases "rd_script r")
  case Nil
  with assms show thesis by (intro that) (auto simp: read_call_def Let_def no_faults_def)
next
  case (Cons a s)
  then obtain k where "a = ShortRead k" using assms by (auto simp: no_faults_def)
  with Cons assms show thesis by (intro that) (auto simp: read_call_def Let_def no_faults_def)
qed

lemma read_exact_no_faults:
  "no_faults r \<Longrightarrow> \<exists>r'. no_faults r' \<and>
     read_exact n r = (if n \<le> length (rd_rest r) then Ok (take n (rd_rest r)) else Err unexpected_eof, r')"
proof (induction n r rule: read_exact.induct)
  case (1 n r)
  show ?case
  proof (cases "n = 0")
    case True
    then have "read_exact n r = (Ok (take n (rd_rest r)), r)" by simp
    with True "1.prems" show ?thesis by auto
  next
    case False
    obtain got r1 where call: "read_call n r = (Ok got, r1)" and nf: "no_faults r1"
      and empty: "got = [] \<longleftrightarrow> n = 0 \<or> rd_rest r = []"
      using read_call_no_faults [OF "1.prems"] by blast
    note c = read_call_Ok [OF call]
    show ?thesis
    proof (cases "got = []")
      case True
      with empty False call nf show ?thesis by (auto simp: read_exact.simps [of n r])
    next
      case g: False
      from c have le: "length got \<le> n" "length got \<le> length (rd_rest r)"
        using length_take [of "length got" "rd_rest r"] by auto
      have iff: "n - length got \<le> length (rd_rest r1) \<longleftrightarrow> n \<le> length (rd_rest r)"
        using c le by auto
      have app: "got @ take (n - length got) (rd_rest r1) = take n (rd_rest r)"
        using c le take_add [of "length got" "n - length got" "rd_rest r"] by simp
      from "1.IH"(2) [OF False call [symmetric] refl g nf] obtain r2 where
        "no_faults r2" "read_exact (n - length got) r1 =
          (if n - length got \<le> length (rd_rest r1) then Ok (take (n - length got) (rd_rest r1))
           else Err unexpected_eof, r2)" by blast
      with False call g show ?thesis
        unfolding iff using app by (auto simp: read_exact.simps [of n r])
    qed
  qed
qed

end
