(* ===== verification/Envelope.thy ===== *)
theory Envelope
  imports Crc32c Readers
begin

text \<open>
  \<open>src/format.rs\<close>, the version 1 envelope: the encoder, the bounded reader that returns the payload, the
  validator that reads it in fixed-size chunks, and the parser of \<open>FORMAT.md\<close> on plain bytes that both
  readers implement. The checksum crate is the parameter \<open>C\<close>.
\<close>

section \<open>Encoding\<close>

text \<open>\<open>u64::try_from\<close> of a length.\<close>

definition u64_try_from :: "nat \<Rightarrow> u64 option" where
  "u64_try_from n = (if n < 2 ^ 64 then Some (of_nat n) else None)"

definition envelope_header ::
  "blob_format_identity \<Rightarrow> u64 \<Rightarrow> u64 \<Rightarrow> bytes store_result" where
  "envelope_header format size' maximum =
     (if maximum < size' then Err (BlobTooLarge size' maximum)
      else Ok (domain_tag format @ be16 (envelope_version format) @ be64 size'))"

definition envelope_parts ::
  "crc32c_lib \<Rightarrow> blob_format_identity \<Rightarrow> bytes \<Rightarrow> u64 \<Rightarrow> (bytes \<times> bytes) store_result" where
  "envelope_parts C format payload maximum =
     (case u64_try_from (length payload) of
        None \<Rightarrow> Err (InvalidPayloadLength (- 1))
      | Some size' \<Rightarrow>
          (case envelope_header format size' maximum of
             Err e \<Rightarrow> Err e
           | Ok header \<Rightarrow>
               Ok (header, be32 (crc32c_append C (crc32c_of C header) payload))))"

definition encode_envelope ::
  "crc32c_lib \<Rightarrow> blob_format_identity \<Rightarrow> bytes \<Rightarrow> u64 \<Rightarrow> bytes store_result" where
  "encode_envelope C format payload maximum =
     (case envelope_parts C format payload maximum of
        Err e \<Rightarrow> Err e
      | Ok (header, checksum) \<Rightarrow> Ok (header @ payload @ checksum))"

section \<open>Reading\<close>

definition read_section ::
  "nat \<Rightarrow> envelope_section \<Rightarrow> reader \<Rightarrow> bytes store_result \<times> reader" where
  "read_section n section' r =
     (case read_exact n r of
        (Ok bs, r') \<Rightarrow> (Ok bs, r')
      | (Err e, r') \<Rightarrow>
          if io_kind e = UnexpectedEof then (Err (TruncatedEnvelope section'), r')
          else (Err (Io ReadEnvelope e), r'))"

text \<open>The probe for trailing data after the checksum: one call of \<open>read\<close> for one byte.\<close>

definition read_trailing :: "reader \<Rightarrow> unit store_result \<times> reader" where
  "read_trailing r =
     (case read_call 1 r of
        (Ok got, r') \<Rightarrow> if got = [] then (Ok (), r') else (Err TrailingData, r')
      | (Err e, r') \<Rightarrow> (Err (Io ReadEnvelope e), r'))"

definition decode_reader_with_usize_limit ::
  "crc32c_lib \<Rightarrow> blob_format_identity \<Rightarrow> reader \<Rightarrow> u64 \<Rightarrow> u64 \<Rightarrow> bytes store_result \<times> reader" where
  "decode_reader_with_usize_limit C format r maximum usize_limit =
   (case read_section 8 Magic r of
      (Err e, r) \<Rightarrow> (Err e, r)
    | (Ok magic, r) \<Rightarrow>
   if magic \<noteq> domain_tag format then (Err (InvalidEnvelopeDomain (domain_tag format) magic), r) else
   case read_section 2 Version r of
      (Err e, r) \<Rightarrow> (Err e, r)
    | (Ok version_bytes, r) \<Rightarrow>
   let version = from_be_bytes version_bytes in
   if version \<noteq> envelope_version format then (Err (UnsupportedEnvelopeVersion version), r) else
   case read_section 8 PayloadLength r of
      (Err e, r) \<Rightarrow> (Err e, r)
    | (Ok length_bytes, r) \<Rightarrow>
   let declared = from_be_bytes length_bytes :: u64 in
   if maximum < declared then (Err (BlobTooLarge declared maximum), r) else
   if usize_limit < declared then (Err (InvalidPayloadLength declared), r) else
   if checked_add declared (of_nat (HEADER_LEN + CHECKSUM_LEN)) = None
   then (Err (InvalidPayloadLength declared), r) else
   case read_section (unat declared) Payload r of
      (Err e, r) \<Rightarrow> (Err e, r)
    | (Ok payload, r) \<Rightarrow>
   case read_section 4 Checksum r of
      (Err e, r) \<Rightarrow> (Err e, r)
    | (Ok checksum, r) \<Rightarrow>
   case read_trailing r of
      (Err e, r) \<Rightarrow> (Err e, r)
    | (Ok _, r) \<Rightarrow>
   let actual = crc32c_of C (domain_tag format);
       actual = crc32c_append C actual (be16 (envelope_version format));
       actual = crc32c_append C actual (be64 declared);
       actual = crc32c_append C actual payload;
       expected = from_be_bytes checksum
   in if expected \<noteq> actual then (Err (ChecksumMismatch expected actual), r) else (Ok payload, r))"

definition decode_reader ::
  "crc32c_lib \<Rightarrow> blob_format_identity \<Rightarrow> reader \<Rightarrow> u64 \<Rightarrow> bytes store_result \<times> reader" where
  "decode_reader C format r maximum = decode_reader_with_usize_limit C format r maximum (- 1)"

text \<open>The payload loop of the validator: chunks of at most \<open>STREAM_CHUNK_SIZE\<close> until nothing remains.\<close>

definition chunk_request :: "u64 \<Rightarrow> nat" where
  "chunk_request remaining = min (unat remaining) STREAM_CHUNK_SIZE"

lemma chunk_request_bounds:
  assumes "remaining \<noteq> 0"
  shows "0 < chunk_request remaining" "chunk_request remaining \<le> unat remaining"
    "chunk_request remaining \<le> STREAM_CHUNK_SIZE"
  using assms by (auto simp: chunk_request_def STREAM_CHUNK_SIZE_def unat_gt_0)

lemma unat_remaining:
  assumes "remaining \<noteq> 0"
  shows "unat (remaining - of_nat (chunk_request remaining)) = unat remaining - chunk_request remaining"
proof -
  have "unat (of_nat (chunk_request remaining) :: u64) = chunk_request remaining"
    by (simp add: chunk_request_def STREAM_CHUNK_SIZE_def)
  then show ?thesis
    using chunk_request_bounds(2) [OF assms] by (simp add: unat_diff_no_borrow)
qed

function validate_payload ::
  "crc32c_lib \<Rightarrow> u64 \<Rightarrow> u32 \<Rightarrow> reader \<Rightarrow> u32 store_result \<times> reader" where
  "validate_payload C remaining actual r =
     (if remaining = 0 then (Ok actual, r)
      else case read_section (chunk_request remaining) Payload r of
        (Err e, r) \<Rightarrow> (Err e, r)
      | (Ok chunk, r) \<Rightarrow>
          validate_payload C (remaining - of_nat (chunk_request remaining))
            (crc32c_append C actual chunk) r)"
  by pat_completeness auto
termination
proof (relation "measure (\<lambda>(C, remaining, actual, r). unat remaining)", goal_cases)
  case (2 C remaining)
  then show ?case
    using chunk_request_bounds(1,2) [of remaining] by (simp add: unat_remaining)
qed simp

declare validate_payload.simps [simp del]

lemma validate_payload_0 [simp]: "validate_payload C 0 actual r = (Ok actual, r)"
  by (simp add: validate_payload.simps [of C 0])

definition validate_envelope_reader ::
  "crc32c_lib \<Rightarrow> blob_format_identity \<Rightarrow> reader \<Rightarrow> u64 \<Rightarrow> blob_metadata store_result \<times> reader" where
  "validate_envelope_reader C format r maximum =
   (case read_section DOMAIN_TAG_LEN Magic r of
      (Err e, r) \<Rightarrow> (Err e, r)
    | (Ok found, r) \<Rightarrow>
   if found \<noteq> domain_tag format then (Err (InvalidEnvelopeDomain (domain_tag format) found), r) else
   case read_section 2 Version r of
      (Err e, r) \<Rightarrow> (Err e, r)
    | (Ok version_bytes, r) \<Rightarrow>
   let version = from_be_bytes version_bytes in
   if version \<noteq> envelope_version format then (Err (UnsupportedEnvelopeVersion version), r) else
   case read_section (HEADER_LEN - (DOMAIN_TAG_LEN + 2)) PayloadLength r of
      (Err e, r) \<Rightarrow> (Err e, r)
    | (Ok length_bytes, r) \<Rightarrow>
   let declared = from_be_bytes length_bytes :: u64 in
   if maximum < declared then (Err (BlobTooLarge declared maximum), r) else
   case validate_payload C declared (crc32c_of C (found @ version_bytes @ length_bytes)) r of
      (Err e, r) \<Rightarrow> (Err e, r)
    | (Ok actual, r) \<Rightarrow>
   case read_section CHECKSUM_LEN Checksum r of
      (Err e, r) \<Rightarrow> (Err e, r)
    | (Ok checksum, r) \<Rightarrow>
   case read_trailing r of
      (Err e, r) \<Rightarrow> (Err e, r)
    | (Ok _, r) \<Rightarrow>
   let expected = from_be_bytes checksum
   in if expected \<noteq> actual then (Err (ChecksumMismatch expected actual), r)
      else (Ok \<lparr>payload_len = declared\<rparr>, r))"

end
