(* ===== verification/EnvelopeFormat.thy ===== *)
theory EnvelopeFormat
  imports Envelope
begin

text \<open>
  The stable byte format of \<open>FORMAT.md\<close> as a parser on a whole file, and the proofs that the encoder
  writes exactly the files the parser accepts and that both readers of \<open>src/format.rs\<close> implement it:
  with no read faults they return its result, errors included, and under any faults they never accept
  what it rejects.
\<close>

section \<open>The parser\<close>

definition parse_header ::
  "blob_format_identity \<Rightarrow> u64 \<Rightarrow> bytes \<Rightarrow> (bytes \<times> u64) store_result" where
  "parse_header f maximum bs =
     (if length bs < 8 then Err (TruncatedEnvelope Magic)
      else if take 8 bs \<noteq> domain_tag f then Err (InvalidEnvelopeDomain (domain_tag f) (take 8 bs))
      else if length bs < 10 then Err (TruncatedEnvelope Version)
      else if from_be_bytes (take 2 (drop 8 bs)) \<noteq> envelope_version f
        then Err (UnsupportedEnvelopeVersion (from_be_bytes (take 2 (drop 8 bs))))
      else if length bs < 18 then Err (TruncatedEnvelope PayloadLength)
      else if maximum < from_be_bytes (take 8 (drop 10 bs))
        then Err (BlobTooLarge (from_be_bytes (take 8 (drop 10 bs))) maximum)
      else Ok (take 18 bs, from_be_bytes (take 8 (drop 10 bs))))"

definition parse_envelope ::
  "crc32c_lib \<Rightarrow> blob_format_identity \<Rightarrow> u64 \<Rightarrow> bytes \<Rightarrow> bytes store_result" where
  "parse_envelope C f maximum bs =
     (case parse_header f maximum bs of
        Err e \<Rightarrow> Err e
      | Ok (header, declared) \<Rightarrow>
          (let n = unat declared; payload = take n (drop 18 bs);
               stored = from_be_bytes (take 4 (drop (18 + n) bs)); actual = crc32c_of C (header @ payload)
           in if length bs < 18 + n then Err (TruncatedEnvelope Payload)
              else if length bs < 18 + n + 4 then Err (TruncatedEnvelope Checksum)
              else if 18 + n + 4 < length bs then Err TrailingData
              else if stored \<noteq> actual then Err (ChecksumMismatch stored actual)
              else Ok payload))"

text \<open>A maximum that \<open>validate_maximum\<close> accepts leaves room for the header and the checksum.\<close>

definition room_for_overhead :: "u64 \<Rightarrow> bool" where
  "room_for_overhead maximum \<longleftrightarrow> unat maximum + 22 < 2 ^ 64"

section \<open>The encoder and the parser\<close>

lemma drop_drop_take: "take n (drop m xs) = drop m (take (m + n) xs)"
  by (metis add.commute take_drop)

lemma header_bytes:
  assumes "length t = 8" "18 \<le> length bs" "take 8 bs = t"
    "from_be_bytes (take 2 (drop 8 bs)) = (v :: u16)" "from_be_bytes (take 8 (drop 10 bs)) = (d :: u64)"
  shows "take 18 bs = t @ be16 v @ be64 d"
proof -
  have "take 18 bs = take 8 bs @ take 2 (drop 8 bs) @ take 8 (drop 10 bs)"
    using take_add [of 8 10 bs] take_add [of 2 8 "drop 8 bs"] by simp
  moreover have "take 2 (drop 8 bs) = be16 v"
    using assms(2,4) be16_from_be [of "take 2 (drop 8 bs)"] by simp
  moreover have "take 8 (drop 10 bs) = be64 d"
    using assms(2,5) be64_from_be [of "take 8 (drop 10 bs)"] by simp
  ultimately show ?thesis using assms(3) by simp
qed

lemma parse_header_Ok:
  assumes "length (domain_tag f) = 8"
  shows "parse_header f maximum bs = Ok (h, d) \<longleftrightarrow>
    18 \<le> length bs \<and> h = take 18 bs \<and> envelope_header f d maximum = Ok h"
proof
  assume p: "parse_header f maximum bs = Ok (h, d)"
  then have "18 \<le> length bs" "h = take 18 bs" "d = from_be_bytes (take 8 (drop 10 bs))"
    "take 8 bs = domain_tag f" "from_be_bytes (take 2 (drop 8 bs)) = envelope_version f"
    "\<not> maximum < d"
    by (auto simp: parse_header_def split: if_splits)
  with header_bytes [OF assms, of bs] show "18 \<le> length bs \<and> h = take 18 bs \<and> envelope_header f d maximum = Ok h"
    by (simp add: envelope_header_def)
next
  assume a: "18 \<le> length bs \<and> h = take 18 bs \<and> envelope_header f d maximum = Ok h"
  then have h: "take 18 bs = domain_tag f @ be16 (envelope_version f) @ be64 d" "\<not> maximum < d"
    by (auto simp: envelope_header_def split: if_splits)
  have sub: "take n (drop m bs) = take n (drop m (take 18 bs))" if "m + n \<le> 18" for m n
    using that by (simp add: drop_take min_def)
  have "take 8 bs = domain_tag f" using sub [of 0 8] h(1) assms by simp
  moreover have "take 2 (drop 8 bs) = be16 (envelope_version f)" using sub [of 8 2] h(1) assms by simp
  moreover have "take 8 (drop 10 bs) = be64 d" using sub [of 10 8] h(1) assms by simp
  ultimately show "parse_header f maximum bs = Ok (h, d)"
    using a h(2) by (simp add: parse_header_def)
qed

lemma length_envelope_header:
  "envelope_header f n maximum = Ok h \<Longrightarrow> length (domain_tag f) = 8 \<Longrightarrow> length h = 18"
  by (auto simp: envelope_header_def split: if_splits)

lemma encode_envelope_Ok:
  "encode_envelope C f p maximum = Ok bs \<longleftrightarrow>
     (\<exists>h. length p < 2 ^ 64 \<and> envelope_header f (of_nat (length p)) maximum = Ok h
       \<and> bs = h @ p @ be32 (crc32c_append C (crc32c_of C h) p))"
  by (auto simp: encode_envelope_def envelope_parts_def u64_try_from_def
      split: option.splits sum.splits if_splits)

context crc32c_api
begin

text \<open>The accepted files are exactly the encodings.\<close>

lemma parse_iff_encode:
  assumes "length (domain_tag f) = 8"
  shows "parse_envelope C f maximum bs = Ok p \<longleftrightarrow> encode_envelope C f p maximum = Ok bs"
proof
  assume "parse_envelope C f maximum bs = Ok p"
  then obtain h d where ph: "parse_header f maximum bs = Ok (h, d)"
    and len: "length bs = 18 + unat d + 4" and p: "p = take (unat d) (drop 18 bs)"
    and crc: "from_be_bytes (take 4 (drop (18 + unat d) bs)) = crc32c_of C (h @ p)"
    by (auto simp: parse_envelope_def Let_def split: sum.splits if_splits)
  from ph have h: "h = take 18 bs" "envelope_header f d maximum = Ok h"
    by (auto simp: parse_header_Ok [OF assms])
  have lp: "length p = unat d" using p len by simp
  have "take 4 (drop (18 + unat d) bs) = be32 (crc32c_of C (h @ p))"
    using crc len be32_from_be [of "take 4 (drop (18 + unat d) bs)"] by simp
  moreover have "bs = take 18 bs @ take (unat d) (drop 18 bs) @ take 4 (drop (18 + unat d) bs)"
  proof -
    have "drop (18 + unat d) bs = take 4 (drop (18 + unat d) bs)" using len by simp
    then show ?thesis
      using append_take_drop_id [of 18 bs] split_take_drop_add [of 18 bs "unat d"] by metis
  qed
  ultimately have "bs = h @ p @ be32 (crc32c_of C (h @ p))" using h p by simp
  moreover have "unat d < 2 ^ 64" using unsigned_less [of d] by simp
  ultimately show "encode_envelope C f p maximum = Ok bs"
    using h(2) lp by (simp add: encode_envelope_Ok append_of)
next
  assume "encode_envelope C f p maximum = Ok bs"
  then obtain h where l: "length p < 2 ^ 64" and h: "envelope_header f (of_nat (length p)) maximum = Ok h"
    and bs: "bs = h @ p @ be32 (crc32c_of C (h @ p))"
    by (auto simp: encode_envelope_Ok append_of)
  have l18: "length h = 18" by (rule length_envelope_header [OF h assms])
  have "parse_header f maximum bs = Ok (h, of_nat (length p))"
    using h l18 bs by (simp add: parse_header_Ok [OF assms])
  moreover have "unat (of_nat (length p) :: u64) = length p" using l by simp
  ultimately show "parse_envelope C f maximum bs = Ok p"
    using l18 bs by (simp add: parse_envelope_def Let_def)
qed

end

section \<open>The header stage the two readers share\<close>

definition read_header ::
  "blob_format_identity \<Rightarrow> reader \<Rightarrow> u64 \<Rightarrow> (bytes \<times> u64) store_result \<times> reader" where
  "read_header f r maximum =
   (case read_section 8 Magic r of
      (Err e, r) \<Rightarrow> (Err e, r)
    | (Ok magic, r) \<Rightarrow>
   if magic \<noteq> domain_tag f then (Err (InvalidEnvelopeDomain (domain_tag f) magic), r) else
   case read_section 2 Version r of
      (Err e, r) \<Rightarrow> (Err e, r)
    | (Ok vb, r) \<Rightarrow>
   if from_be_bytes vb \<noteq> envelope_version f
   then (Err (UnsupportedEnvelopeVersion (from_be_bytes vb)), r) else
   case read_section 8 PayloadLength r of
      (Err e, r) \<Rightarrow> (Err e, r)
    | (Ok lb, r) \<Rightarrow>
   if maximum < from_be_bytes lb then (Err (BlobTooLarge (from_be_bytes lb) maximum), r)
   else (Ok (magic @ vb @ lb, from_be_bytes lb), r))"

definition read_tail :: "bytes \<Rightarrow> reader \<Rightarrow> u32 \<Rightarrow> 'a \<Rightarrow> 'a store_result \<times> reader" where
  "read_tail checksum r actual a =
   (case read_trailing r of
      (Err e, r) \<Rightarrow> (Err e, r)
    | (Ok _, r) \<Rightarrow>
        if from_be_bytes checksum \<noteq> actual
        then (Err (ChecksumMismatch (from_be_bytes checksum) actual), r) else (Ok a, r))"

lemma read_section_Ok:
  assumes "read_section n s r = (Ok bs, r')"
  shows "n \<le> length (rd_rest r)" "bs = take n (rd_rest r)" "rd_rest r' = drop n (rd_rest r)"
    "rd_content r' = rd_content r" "rd_pos r' = rd_pos r + n" "length bs = n"
  using assms read_exact_Ok [of n r bs r']
  by (auto simp: read_section_def split: prod.splits sum.splits if_splits)

lemma read_section_clean:
  assumes "no_faults r"
  obtains (short) r' where "length (rd_rest r) < n" "no_faults r'"
      "read_section n s r = (Err (TruncatedEnvelope s), r')"
  | (full) r' where "n \<le> length (rd_rest r)" "no_faults r'" "rd_rest r' = drop n (rd_rest r)"
      "read_section n s r = (Ok (take n (rd_rest r)), r')"
proof -
  obtain r' where r': "no_faults r'" "read_exact n r =
      (if n \<le> length (rd_rest r) then Ok (take n (rd_rest r)) else Err unexpected_eof, r')"
    using read_exact_no_faults [OF assms] by blast
  show thesis
  proof (cases "n \<le> length (rd_rest r)")
    case True
    with r' have e: "read_section n s r = (Ok (take n (rd_rest r)), r')"
      by (simp add: read_section_def)
    show thesis by (rule full [OF True r'(1) read_section_Ok(3) [OF e] e])
  next
    case False
    with r' have "read_section n s r = (Err (TruncatedEnvelope s), r')"
      by (simp add: read_section_def unexpected_eof_def)
    with False r'(1) show thesis by (intro short) auto
  qed
qed


lemma read_trailing_clean:
  assumes "no_faults r"
  obtains r' where "read_trailing r = (if rd_rest r = [] then Ok () else Err TrailingData, r')"
proof -
  obtain got r' where "read_call 1 r = (Ok got, r')" "got = [] \<longleftrightarrow> (1::nat) = 0 \<or> rd_rest r = []"
    using read_call_no_faults [OF assms] by blast
  then show thesis by (intro that) (simp add: read_trailing_def)
qed

lemma read_trailing_Ok: "read_trailing r = (Ok u, r') \<Longrightarrow> rd_rest r = []"
  by (auto simp: read_trailing_def read_call_def Let_def rd_rest_def
      split: prod.splits sum.splits if_splits list.splits read_answer.splits)

lemma read_header_Ok:
  assumes "read_header f r maximum = (Ok (h, d), r')"
  shows "parse_header f maximum (rd_rest r) = Ok (h, d)" "rd_rest r' = drop 18 (rd_rest r)"
    "rd_content r' = rd_content r" "rd_pos r' = rd_pos r + 18"
proof -
  from assms obtain t r1 v r2 l where
    s: "read_section 8 Magic r = (Ok t, r1)" "read_section 2 Version r1 = (Ok v, r2)"
       "read_section 8 PayloadLength r2 = (Ok l, r')"
    and c: "t = domain_tag f" "from_be_bytes v = envelope_version f" "d = from_be_bytes l"
      "\<not> maximum < d" "h = t @ v @ l"
    by (auto simp: read_header_def split: prod.splits sum.splits if_splits)
  note r1 = read_section_Ok [OF s(1)] and r2 = read_section_Ok [OF s(2)]
    and r3 = read_section_Ok [OF s(3)]
  have l: "t = take 8 (rd_rest r)" "v = take 2 (drop 8 (rd_rest r))"
    "l = take 8 (drop 10 (rd_rest r))" "rd_rest r' = drop 18 (rd_rest r)" "18 \<le> length (rd_rest r)"
    using r1 r2 r3 by auto
  have "take 18 (rd_rest r) = t @ v @ l"
    unfolding l using take_add [of 8 10 "rd_rest r"] take_add [of 2 8 "drop 8 (rd_rest r)"] by simp
  with l c show "parse_header f maximum (rd_rest r) = Ok (h, d)" by (simp add: parse_header_def)
  show "rd_rest r' = drop 18 (rd_rest r)" "rd_content r' = rd_content r" "rd_pos r' = rd_pos r + 18"
    using l r1 r2 r3 by auto
qed

lemma read_header_clean:
  assumes "no_faults r"
  obtains r' where "read_header f r maximum = (parse_header f maximum (rd_rest r), r')" "no_faults r'"
proof (cases rule: read_section_clean [OF assms, of 8 Magic])
  case (1 r1)
  then show thesis by (intro that [of r1]) (simp_all add: read_header_def parse_header_def)
next
  case (2 r1)
  note m = this
  show thesis
  proof (cases rule: read_section_clean [OF m(2), of 2 Version])
    case (1 r2)
    with m have "length (rd_rest r) < 10" by auto
    with 1 m show thesis
      by (cases "take 8 (rd_rest r) = domain_tag f")
        (auto intro: that [of r1] that [of r2] simp: read_header_def parse_header_def)
  next
    case (2 r2)
    note v = this
    show thesis
    proof (cases rule: read_section_clean [OF v(2), of 8 PayloadLength])
      case (1 r3)
      with m v have "length (rd_rest r) < 18" by auto
      with 1 m v show thesis
        by (cases "take 8 (rd_rest r) = domain_tag f";
            cases "(from_be_bytes (take 2 (drop 8 (rd_rest r))) :: u16) = envelope_version f")
          (auto intro: that [of r1] that [of r2] that [of r3] simp: read_header_def parse_header_def)
    next
      case (2 r3)
      have h: "take 18 (rd_rest r) =
          take 8 (rd_rest r) @ take 2 (drop 8 (rd_rest r)) @ take 8 (drop 10 (rd_rest r))"
        using take_add [of 8 10 "rd_rest r"] take_add [of 2 8 "drop 8 (rd_rest r)"] by simp
      from 2 m v h show thesis
        by (cases "take 8 (rd_rest r) = domain_tag f";
            cases "(from_be_bytes (take 2 (drop 8 (rd_rest r))) :: u16) = envelope_version f")
          (auto intro: that [of r1] that [of r2] that [of r3] simp: read_header_def parse_header_def)
    qed
  qed
qed

section \<open>The two readers\<close>

lemma decode_split:
  "decode_reader_with_usize_limit C f r maximum limit =
   (case read_header f r maximum of
      (Err e, r) \<Rightarrow> (Err e, r)
    | (Ok (h, declared), r) \<Rightarrow>
        if limit < declared \<or> checked_add declared 22 = None
        then (Err (InvalidPayloadLength declared), r) else
   case read_section (unat declared) Payload r of
      (Err e, r) \<Rightarrow> (Err e, r)
    | (Ok payload, r) \<Rightarrow>
   case read_section 4 Checksum r of
      (Err e, r) \<Rightarrow> (Err e, r)
    | (Ok checksum, r) \<Rightarrow>
        read_tail checksum r (crc32c_append C (crc32c_append C (crc32c_append C
          (crc32c_of C (domain_tag f)) (be16 (envelope_version f))) (be64 declared)) payload) payload)"
  by (simp add: decode_reader_with_usize_limit_def read_header_def read_tail_def Let_def config_consts
      split: prod.splits sum.splits)

lemma validate_split:
  "validate_envelope_reader C f r maximum =
   (case read_header f r maximum of
      (Err e, r) \<Rightarrow> (Err e, r)
    | (Ok (h, declared), r) \<Rightarrow>
   case validate_payload C declared (crc32c_of C h) r of
      (Err e, r) \<Rightarrow> (Err e, r)
    | (Ok actual, r) \<Rightarrow>
   case read_section 4 Checksum r of
      (Err e, r) \<Rightarrow> (Err e, r)
    | (Ok checksum, r) \<Rightarrow> read_tail checksum r actual \<lparr>payload_len = declared\<rparr>)"
  by (simp add: validate_envelope_reader_def read_header_def read_tail_def Let_def config_consts
      split: prod.splits sum.splits)

lemma read_tail_Ok:
  assumes "read_tail checksum r actual a = (Ok b, r')"
  shows "rd_rest r = []" "from_be_bytes checksum = actual" "b = a"
  using assms read_trailing_Ok [of r]
  by (auto simp: read_tail_def split: prod.splits sum.splits if_splits)

lemma read_tail_clean:
  assumes "no_faults r"
  shows "fst (read_tail checksum r actual a) =
    (if rd_rest r \<noteq> [] then Err TrailingData
     else if from_be_bytes checksum \<noteq> actual then Err (ChecksumMismatch (from_be_bytes checksum) actual)
     else Ok a)"
  by (rule read_trailing_clean [OF assms]) (simp add: read_tail_def)

lemma header_crc_split:
  assumes "parse_header f maximum bs = Ok (h, d)" "length (domain_tag f) = 8"
  shows "h = domain_tag f @ be16 (envelope_version f) @ be64 d"
  using assms by (auto simp: parse_header_Ok envelope_header_def split: if_splits)

lemma declared_no_overflow:
  assumes "room_for_overhead maximum" "parse_header f maximum bs = Ok (h, d)"
  shows "checked_add d 22 \<noteq> None"
proof -
  have "\<not> maximum < d" using assms(2) by (auto simp: parse_header_def split: if_splits)
  then have "unat d \<le> unat maximum" by (simp add: word_less_nat_alt)
  with assms(1) show ?thesis by (auto simp: room_for_overhead_def checked_add_def)
qed

context crc32c_api
begin

lemma header_crc:
  assumes "parse_header f maximum bs = Ok (h, d)" "length (domain_tag f) = 8"
  shows "crc32c_append C (crc32c_append C (crc32c_append C
      (crc32c_of C (domain_tag f)) (be16 (envelope_version f))) (be64 d)) p = crc32c_of C (h @ p)"
  unfolding header_crc_split [OF assms] by (simp add: append_of)

lemma validate_payload_Ok:
  "validate_payload C remaining actual r = (Ok a, r') \<Longrightarrow>
     unat remaining \<le> length (rd_rest r) \<and> a = crc32c_append C actual (take (unat remaining) (rd_rest r))
     \<and> rd_rest r' = drop (unat remaining) (rd_rest r)"
proof (induction C\<equiv>C remaining actual r rule: validate_payload.induct)
  case (1 remaining actual r)
  show ?case
  proof (cases "remaining = 0")
    case True
    with "1.prems" show ?thesis by (auto simp: append_Nil)
  next
    case False
    let ?q = "chunk_request remaining"
    from False "1.prems" obtain chunk r1 where s: "read_section ?q Payload r = (Ok chunk, r1)"
      and rec: "validate_payload C (remaining - of_nat ?q) (crc32c_append C actual chunk) r1 = (Ok a, r')"
      by (auto simp: validate_payload.simps [of C remaining] split: prod.splits sum.splits)
    note rs = read_section_Ok [OF s]
    from "1.hyps" [OF False s [symmetric] refl rec]
    have h: "unat remaining - ?q \<le> length (rd_rest r1)"
      "a = crc32c_append C (crc32c_append C actual chunk) (take (unat remaining - ?q) (rd_rest r1))"
      "rd_rest r' = drop (unat remaining - ?q) (rd_rest r1)"
      by (simp_all add: unat_remaining [OF False])
    have q: "?q \<le> unat remaining" using chunk_request_bounds [OF False] by simp
    have "take (unat remaining) (rd_rest r) = chunk @ take (unat remaining - ?q) (rd_rest r1)"
      using q rs take_add [of ?q "unat remaining - ?q" "rd_rest r"] by simp
    with h q rs show ?thesis by (auto simp: append_append)
  qed
qed

lemma validate_payload_clean:
  "no_faults r \<Longrightarrow> \<exists>r'. no_faults r' \<and>
     validate_payload C remaining actual r =
       (if unat remaining \<le> length (rd_rest r)
        then Ok (crc32c_append C actual (take (unat remaining) (rd_rest r)))
        else Err (TruncatedEnvelope Payload), r')"
proof (induction C\<equiv>C remaining actual r rule: validate_payload.induct)
  case (1 remaining actual r)
  show ?case
  proof (cases "remaining = 0")
    case True
    with "1.prems" show ?thesis by (auto simp: append_Nil)
  next
    case False
    let ?q = "chunk_request remaining"
    have q: "?q \<le> unat remaining" using chunk_request_bounds [OF False] by simp
    show ?thesis
    proof (cases rule: read_section_clean [OF "1.prems", of ?q Payload])
      case (1 r1)
      with False q show ?thesis by (auto simp: validate_payload.simps [of C remaining])
    next
      case (2 r1)
      from "1.hyps" [OF False 2(4) [symmetric] refl 2(2)] obtain r2 where r2: "no_faults r2"
        "validate_payload C (remaining - of_nat ?q) (crc32c_append C actual (take ?q (rd_rest r))) r1 =
          (if unat remaining - ?q \<le> length (rd_rest r1)
           then Ok (crc32c_append C (crc32c_append C actual (take ?q (rd_rest r)))
             (take (unat remaining - ?q) (rd_rest r1)))
           else Err (TruncatedEnvelope Payload), r2)"
        unfolding unat_remaining [OF False] by blast
      have "take (unat remaining) (rd_rest r) = take ?q (rd_rest r) @ take (unat remaining - ?q) (rd_rest r1)"
        using q 2(3) take_add [of ?q "unat remaining - ?q" "rd_rest r"] by simp
      moreover have "unat remaining - ?q \<le> length (rd_rest r1) \<longleftrightarrow> unat remaining \<le> length (rd_rest r)"
        using q 2(1,3) by auto
      ultimately show ?thesis
        using False 2(4) r2 by (auto simp: validate_payload.simps [of C remaining] append_append)
    qed
  qed
qed

lemma decode_parse:
  assumes f: "length (domain_tag f) = 8" and r: "no_faults r" and room: "room_for_overhead maximum"
    and lim: "maximum \<le> limit"
  shows "fst (decode_reader_with_usize_limit C f r maximum limit) = parse_envelope C f maximum (rd_rest r)"
proof -
  obtain r1 where h: "read_header f r maximum = (parse_header f maximum (rd_rest r), r1)" "no_faults r1"
    using read_header_clean [OF r] by blast
  show ?thesis
  proof (cases "parse_header f maximum (rd_rest r)")
    case (Inl e)
    with h show ?thesis by (simp add: decode_split parse_envelope_def)
  next
    case (Inr hd)
    then obtain hh d where ph: "parse_header f maximum (rd_rest r) = Ok (hh, d)" by (cases hd) auto
    have ok: "\<not> limit < d" "checked_add d 22 \<noteq> None"
      using ph lim declared_no_overflow [OF room ph] by (auto simp: parse_header_def split: if_splits)
    note rh = read_header_Ok [OF h(1) [unfolded ph]]
    from ph have l18: "18 \<le> length (rd_rest r)" by (simp add: parse_header_Ok [OF f])
    show ?thesis
    proof (cases rule: read_section_clean [OF h(2), of "unat d" Payload])
      case (1 r2)
      with h ph ok rh l18 show ?thesis by (auto simp: decode_split parse_envelope_def Let_def)
    next
      case (2 r2)
      note p = this
      show ?thesis
      proof (cases rule: read_section_clean [OF p(2), of 4 Checksum])
        case (1 r3)
        with h ph ok rh l18 p show ?thesis
          by (auto simp: decode_split parse_envelope_def Let_def)
      next
        case (2 r3)
        then show ?thesis
          using h ph ok rh l18 p
          by (auto simp: decode_split parse_envelope_def Let_def header_crc [OF ph f] add.commute
              read_tail_clean [OF 2(2)])
      qed
    qed
  qed
qed

lemma validate_parse:
  assumes f: "length (domain_tag f) = 8" and r: "no_faults r"
  shows "fst (validate_envelope_reader C f r maximum) =
    map_ok (\<lambda>p. \<lparr>payload_len = of_nat (length p)\<rparr>) (parse_envelope C f maximum (rd_rest r))"
proof -
  obtain r1 where h: "read_header f r maximum = (parse_header f maximum (rd_rest r), r1)" "no_faults r1"
    using read_header_clean [OF r] by blast
  show ?thesis
  proof (cases "parse_header f maximum (rd_rest r)")
    case (Inl e)
    with h show ?thesis by (simp add: validate_split parse_envelope_def)
  next
    case (Inr hd)
    then obtain hh d where ph: "parse_header f maximum (rd_rest r) = Ok (hh, d)" by (cases hd) auto
    note rh = read_header_Ok [OF h(1) [unfolded ph]]
    from ph have l18: "18 \<le> length (rd_rest r)" by (simp add: parse_header_Ok [OF f])
    obtain r2 where v: "no_faults r2" "validate_payload C d (crc32c_of C hh) r1 =
       (if unat d \<le> length (rd_rest r1) then Ok (crc32c_append C (crc32c_of C hh) (take (unat d) (rd_rest r1)))
        else Err (TruncatedEnvelope Payload), r2)"
      using validate_payload_clean [OF h(2)] by blast
    show ?thesis
    proof (cases "unat d \<le> length (rd_rest r1)")
      case False
      with h ph rh l18 v show ?thesis by (auto simp: validate_split parse_envelope_def Let_def)
    next
      case True
      with v have vp: "validate_payload C d (crc32c_of C hh) r1 =
          (Ok (crc32c_of C (hh @ take (unat d) (rd_rest r1))), r2)" by (simp add: append_of)
      note r2 = validate_payload_Ok [OF vp]
      show ?thesis
      proof (cases rule: read_section_clean [OF v(1), of 4 Checksum])
        case (1 r3)
        with h ph rh l18 vp r2 True show ?thesis
          by (auto simp: validate_split parse_envelope_def Let_def)
      next
        case (2 r3)
        have lp: "length (take (unat d) (drop 18 (rd_rest r))) = unat d" using True rh by simp
        show ?thesis
          using 2 h ph rh l18 vp r2 True lp
          by (auto simp: validate_split parse_envelope_def Let_def add.commute
              read_tail_clean [OF 2(2)])
      qed
    qed
  qed
qed

lemma decode_Ok:
  assumes f: "length (domain_tag f) = 8"
    and d: "decode_reader_with_usize_limit C f r maximum limit = (Ok p, r')"
  shows "parse_envelope C f maximum (rd_rest r) = Ok p"
proof -
  from d obtain hh n r1 r2 c r3 where
    h: "read_header f r maximum = (Ok (hh, n), r1)" and p: "read_section (unat n) Payload r1 = (Ok p, r2)"
    and c: "read_section 4 Checksum r2 = (Ok c, r3)"
    and t: "read_tail c r3 (crc32c_append C (crc32c_append C (crc32c_append C
          (crc32c_of C (domain_tag f)) (be16 (envelope_version f))) (be64 n)) p) p = (Ok p, r')"
    by (auto simp: decode_split split: prod.splits sum.splits if_splits dest: read_tail_Ok)
  note rh = read_header_Ok [OF h] and rp = read_section_Ok [OF p] and rc = read_section_Ok [OF c]
    and rt = read_tail_Ok [OF t]
  from rh(1) have "18 \<le> length (rd_rest r)" by (simp add: parse_header_Ok [OF f])
  with rh rp rc rt show ?thesis
    by (auto simp: parse_envelope_def Let_def header_crc [OF rh(1) f] add.commute)
qed

lemma validate_Ok:
  assumes f: "length (domain_tag f) = 8"
    and d: "validate_envelope_reader C f r maximum = (Ok m, r')"
  obtains p where "parse_envelope C f maximum (rd_rest r) = Ok p" "payload_len m = of_nat (length p)"
    "length p = unat (payload_len m)"
proof -
  from d obtain hh n r1 a r2 c r3 where
    h: "read_header f r maximum = (Ok (hh, n), r1)" and p: "validate_payload C n (crc32c_of C hh) r1 = (Ok a, r2)"
    and c: "read_section 4 Checksum r2 = (Ok c, r3)"
    and t: "read_tail c r3 a \<lparr>payload_len = n\<rparr> = (Ok m, r')"
    by (auto simp: validate_split split: prod.splits sum.splits)
  note rh = read_header_Ok [OF h] and rp = validate_payload_Ok [OF p] and rc = read_section_Ok [OF c]
    and rt = read_tail_Ok [OF t]
  have l18: "18 \<le> length (rd_rest r)" using rh(1) by (simp add: parse_header_Ok [OF f])
  let ?p = "take (unat n) (drop 18 (rd_rest r))"
  have "length ?p = unat n" using rp rh by auto
  moreover have "parse_envelope C f maximum (rd_rest r) = Ok ?p"
    using l18 rh rp rc rt by (auto simp: parse_envelope_def Let_def append_of add.commute)
  ultimately show thesis using that [of ?p] rt(3) by simp
qed

end

end
