(* ===== verification/EnvelopeProps.thy ===== *)
theory EnvelopeProps
  imports EnvelopeFormat
begin

text \<open>
  What the envelope code promises: round trips in both directions, the agreement of the two readers
  with the format and with each other, acceptance of nothing but encodings whatever faults the reader
  injects, the layout of the bytes, and the rejection of truncated, extended and corrupted files. The
  golden fixtures of \<open>tests/fixtures/v1\<close> are evaluated with the Castagnoli checksum.
\<close>

section \<open>Fixtures\<close>

definition golden_format :: blob_format_identity where
  "golden_format = \<lparr>domain_tag = [0x42,0x4c,0x4f,0x42,0x54,0x45,0x53,0x54],
     filename_suffix = ''.blob'', envelope_version = 1\<rparr>"

definition golden_header :: bytes where
  "golden_header = [0x42,0x4c,0x4f,0x42,0x54,0x45,0x53,0x54, 0,1, 0,0,0,0,0,0,0,3]"

definition golden_valid :: bytes where
  "golden_valid = golden_header @ [0x61,0x62,0x63] @ [0xb7,0xba,0x8c,0x0f]"

lemma golden_format_tag: "length (domain_tag golden_format) = 8"
  by (simp add: golden_format_def)

lemma golden_room: "room_for_overhead 67108864"
  by (simp add: room_for_overhead_def)

lemma golden_encode: "encode_envelope castagnoli golden_format [0x61,0x62,0x63] 67108864 = Ok golden_valid"
  by (simp add: encode_envelope_def envelope_parts_def envelope_header_def u64_try_from_def
      golden_format_def golden_valid_def golden_header_def to_be_bytes_def upt_rec castagnoli_eval)

lemma golden_parse: "parse_envelope castagnoli golden_format 67108864 golden_valid = Ok [0x61,0x62,0x63]"
  by (simp add: castagnoli.parse_iff_encode [OF golden_format_tag] golden_encode)

lemma accepted_is_encoding:
  assumes "crc32c_api C" "length (domain_tag f) = 8"
  shows "decode_reader C f r maximum = (Ok p, r') \<Longrightarrow> encode_envelope C f p maximum = Ok (rd_rest r)"
    and "validate_envelope_reader C f r maximum = (Ok m, r') \<Longrightarrow>
         \<exists>q. encode_envelope C f q maximum = Ok (rd_rest r) \<and> length q = unat (payload_len m)"
proof -
  assume "decode_reader C f r maximum = (Ok p, r')"
  then show "encode_envelope C f p maximum = Ok (rd_rest r)"
    using crc32c_api.decode_Ok [OF assms] crc32c_api.parse_iff_encode [OF assms]
    by (auto simp: decode_reader_def)
next
  assume "validate_envelope_reader C f r maximum = (Ok m, r')"
  from crc32c_api.validate_Ok [OF assms this]
  show "\<exists>q. encode_envelope C f q maximum = Ok (rd_rest r) \<and> length q = unat (payload_len m)"
    using crc32c_api.parse_iff_encode [OF assms] by metis
qed

section \<open>Properties\<close>

text \<open>C32. Round trip from the encoder: what \<open>encode_envelope\<close> returns for a payload, read back without
  I/O faults however the reads are split, is accepted by \<open>decode_reader\<close>, which returns the payload, and
  by the streaming validator, which returns its length.\<close>

theorem encode_decode_roundtrip:
  assumes "crc32c_api C" "length (domain_tag f) = 8" "room_for_overhead maximum"
    and "encode_envelope C f p maximum = Ok (rd_rest r)" "no_faults r"
  shows "fst (decode_reader C f r maximum) = Ok p
    \<and> fst (validate_envelope_reader C f r maximum) = Ok \<lparr>payload_len = of_nat (length p)\<rparr>"
proof -
  have p: "parse_envelope C f maximum (rd_rest r) = Ok p"
    using assms(4) by (simp add: crc32c_api.parse_iff_encode [OF assms(1,2)])
  have "maximum \<le> - 1" by simp
  then show ?thesis
    using crc32c_api.decode_parse [OF assms(1,2,5,3)] crc32c_api.validate_parse [OF assms(1,2,5)] p
    by (simp add: decode_reader_def)
qed

theorem encode_decode_roundtrip_witness:
  "fst (decode_reader castagnoli golden_format (cursor golden_valid) 67108864) = Ok [0x61,0x62,0x63]"
  using encode_decode_roundtrip [OF castagnoli.crc32c_api_axioms golden_format_tag golden_room,
      of "[0x61,0x62,0x63]" "cursor golden_valid"] golden_encode
  by simp

text \<open>C33. No reader behaviour makes the store accept anything but an encoding: with arbitrary short
  reads, interruptions and I/O errors, a payload returned by \<open>decode_reader\<close> is the payload whose
  encoding is exactly the rest of the file, and a length accepted by the validator is the length of
  such a payload.\<close>

theorem accepted_only_encodings:
  assumes "crc32c_api C" "length (domain_tag f) = 8"
  shows "(decode_reader C f r maximum = (Ok p, r') \<longrightarrow> encode_envelope C f p maximum = Ok (rd_rest r))
    \<and> (validate_envelope_reader C f r maximum = (Ok m, r') \<longrightarrow>
         (\<exists>q. encode_envelope C f q maximum = Ok (rd_rest r) \<and> length q = unat (payload_len m)))"
  using accepted_is_encoding [OF assms] by blast

theorem accepted_only_encodings_witness:
  "encode_envelope castagnoli golden_format [0x61,0x62,0x63] 67108864 =
     Ok (rd_rest \<lparr>rd_content = golden_valid, rd_pos = 0, rd_script = [ShortRead 4, ShortRead 0]\<rparr>)"
proof -
  let ?r = "\<lparr>rd_content = golden_valid, rd_pos = 0, rd_script = [ShortRead 4, ShortRead 0]\<rparr>"
  have "fst (decode_reader castagnoli golden_format ?r 67108864) = Ok [0x61,0x62,0x63]"
    using castagnoli.decode_parse [OF golden_format_tag _ golden_room, of ?r "- 1"] golden_parse
    by (simp add: decode_reader_def no_faults_def rd_rest_def)
  then show ?thesis
    using accepted_only_encodings [OF castagnoli.crc32c_api_axioms golden_format_tag]
    by (metis prod.collapse)
qed

text \<open>C34. The two readers implement the format of \<open>FORMAT.md\<close> and agree: with no I/O faults,
  \<open>decode_reader\<close> returns the parser's result on the rest of the file, error included, and the streaming
  validator returns the length of the payload the parser returns or the same error.\<close>

theorem readers_implement_format:
  assumes "crc32c_api C" "length (domain_tag f) = 8" "room_for_overhead maximum" "no_faults r"
  shows "fst (decode_reader C f r maximum) = parse_envelope C f maximum (rd_rest r)
    \<and> fst (validate_envelope_reader C f r maximum) =
        map_ok (\<lambda>p. \<lparr>payload_len = of_nat (length p)\<rparr>) (fst (decode_reader C f r maximum))"
proof -
  have "maximum \<le> - 1" by simp
  then show ?thesis
    using crc32c_api.decode_parse [OF assms(1,2,4,3)] crc32c_api.validate_parse [OF assms(1,2,4)]
    by (simp add: decode_reader_def)
qed

theorem readers_implement_format_witness:
  "fst (validate_envelope_reader castagnoli golden_format
      (cursor (golden_header @ [0x61,0x62,0x63] @ [0xb7,0xba,0x8c,0x0e])) 67108864) =
     Err (ChecksumMismatch 0xb7ba8c0e 0xb7ba8c0f)
   \<and> fst (validate_envelope_reader castagnoli golden_format (cursor (golden_valid @ [0])) 67108864) =
     Err TrailingData
   \<and> fst (validate_envelope_reader castagnoli golden_format (cursor (butlast golden_valid)) 67108864) =
     Err (TruncatedEnvelope Checksum)"
proof -
  have v: "fst (validate_envelope_reader castagnoli golden_format (cursor bs) 67108864) =
      map_ok (\<lambda>p. \<lparr>payload_len = of_nat (length p)\<rparr>)
        (parse_envelope castagnoli golden_format 67108864 bs)" for bs
    using readers_implement_format [OF castagnoli.crc32c_api_axioms golden_format_tag golden_room
      no_faults_cursor, of bs] by simp
  show ?thesis
    unfolding v by (simp add: parse_envelope_def parse_header_def golden_valid_def golden_header_def
        golden_format_def castagnoli_eval)
qed

text \<open>The layout of an envelope: encoding succeeds exactly for payloads within the maximum, and then
  the file is 22 bytes longer than the payload and holds the domain tag at offset 0, the version at 8,
  the payload length at 10, the payload at 18 and after it the checksum of everything before it; a
  larger payload is reported with its size and the maximum.\<close>

theorem envelope_layout:
  assumes "crc32c_api C" "length (domain_tag f) = 8" "length p < 2 ^ 64"
  shows "(if length p \<le> unat maximum
     then \<exists>bs. encode_envelope C f p maximum = Ok bs \<and> length bs = 22 + length p
       \<and> take 8 bs = domain_tag f \<and> take 2 (drop 8 bs) = be16 (envelope_version f)
       \<and> take 8 (drop 10 bs) = be64 (of_nat (length p)) \<and> take (length p) (drop 18 bs) = p
       \<and> drop (18 + length p) bs = be32 (crc32c_of C (take (18 + length p) bs))
     else encode_envelope C f p maximum = Err (BlobTooLarge (of_nat (length p)) maximum))"
proof -
  have u: "unat (of_nat (length p) :: u64) = length p" using assms(3) by simp
  show ?thesis
    using assms(2,3) u
    by (simp add: encode_envelope_def envelope_parts_def u64_try_from_def envelope_header_def
        word_less_nat_alt crc32c_api.append_of [OF assms(1)])
qed

theorem envelope_layout_witness:
  "\<exists>bs. encode_envelope castagnoli golden_format [0x61,0x62,0x63] 67108864 = Ok bs \<and> length bs = 25
     \<and> drop 21 bs = be32 (crc32c_of castagnoli (take 21 bs))"
  using envelope_layout [OF castagnoli.crc32c_api_axioms golden_format_tag,
      of "[0x61,0x62,0x63]" 67108864]
  by auto

text \<open>A corrupted byte is never accepted: with a checksum that distinguishes texts differing in one
  byte, changing any single byte of an envelope makes both readers fail, whatever the reader does.\<close>

theorem corrupted_byte_rejected:
  assumes "crc32c_detects C" "length (domain_tag f) = 8"
    and "encode_envelope C f p maximum = Ok bs" "i < length bs" "b \<noteq> bs ! i"
    and "rd_rest r = bs[i := b]"
  shows "(\<exists>e. fst (decode_reader C f r maximum) = Err e)
    \<and> (\<exists>e. fst (validate_envelope_reader C f r maximum) = Err e)"
proof -
  note api = crc32c_detects.axioms(1) [OF assms(1)]
  have no: "encode_envelope C f q maximum \<noteq> Ok (bs[i := b])" for q
  proof
    assume q: "encode_envelope C f q maximum = Ok (bs[i := b])"
    from assms(3) obtain h where h: "envelope_header f (of_nat (length p)) maximum = Ok h"
      "bs = h @ p @ be32 (crc32c_of C (h @ p))" by (auto simp: encode_envelope_Ok crc32c_api.append_of [OF api])
    from q obtain h' where h': "envelope_header f (of_nat (length q)) maximum = Ok h'"
      "bs[i := b] = h' @ q @ be32 (crc32c_of C (h' @ q))" by (auto simp: encode_envelope_Ok crc32c_api.append_of [OF api])
    note l = length_envelope_header [OF h(1) assms(2)] length_envelope_header [OF h'(1) assms(2)]
    have "length q = length p" using arg_cong [OF h'(2), of length] h(2) l by simp
    with h h' have hh: "h' = h" by simp
    have lb: "length (h @ p) = length (h @ q)" using \<open>length q = length p\<close> by simp
    have bs: "bs = (h @ p) @ be32 (crc32c_of C (h @ p))" using h(2) by simp
    have bs': "bs[i := b] = (h @ q) @ be32 (crc32c_of C (h @ q))" using h'(2) hh by simp
    show False
    proof (cases "i < length (h @ p)")
      case True
      then have "(h @ p)[i := b] = h @ q" "be32 (crc32c_of C (h @ p)) = be32 (crc32c_of C (h @ q))"
        using bs bs' lb by (auto simp: list_update_append1 simp del: append_assoc)
      then have "crc32c_of C (h @ p) = crc32c_of C ((h @ p)[i := b])"
        by (metis from_be_be32)
      moreover have "(h @ p)[i := b] = take i (h @ p) @ b # drop (Suc i) (h @ p)"
        using True by (simp add: upd_conv_take_nth_drop)
      moreover have "h @ p = take i (h @ p) @ (h @ p) ! i # drop (Suc i) (h @ p)"
        using True by (rule id_take_nth_drop)
      ultimately have "(h @ p) ! i = b"
        using crc32c_detects.single_byte_change [OF assms(1)] by metis
      then show False using assms(5) True bs by (metis nth_append)
    next
      case False
      then have "h @ p = h @ q" "bs[i := b] = bs"
        using bs bs' lb by (auto simp: list_update_append simp del: append_assoc)
      then show False using assms(4,5) by (metis nth_list_update_eq)
    qed
  qed
  show ?thesis
    using accepted_is_encoding [OF api assms(2), of r maximum] no
    unfolding assms(6) by (metis prod.exhaust_sel sum.exhaust)
qed

text \<open>The section a file cut after \<open>n\<close> bytes ends in, for a payload of \<open>l\<close> bytes.\<close>

definition cut_section :: "nat \<Rightarrow> nat \<Rightarrow> envelope_section" where
  "cut_section n l =
     (if n < 8 then Magic else if n < 10 then Version else if n < 18 then PayloadLength
      else if n < 18 + l then Payload else Checksum)"

lemma parse_cut:
  assumes "crc32c_api C" "length (domain_tag f) = 8" "encode_envelope C f p maximum = Ok bs"
  shows "n < length bs \<Longrightarrow> parse_envelope C f maximum (take n bs) = Err (TruncatedEnvelope (cut_section n (length p)))"
    and "x \<noteq> [] \<Longrightarrow> parse_envelope C f maximum (bs @ x) = Err TrailingData"
proof -
  obtain h where l: "length p < 2 ^ 64" and h: "envelope_header f (of_nat (length p)) maximum = Ok h"
    and bs: "bs = h @ p @ be32 (crc32c_of C (h @ p))"
    using assms(3) by (auto simp: encode_envelope_Ok crc32c_api.append_of [OF assms(1)])
  have l18: "length h = 18" by (rule length_envelope_header [OF h assms(2)])
  have u: "unat (of_nat (length p) :: u64) = length p" using l by simp
  have ph: "parse_header f maximum cs = Ok (h, of_nat (length p))" if "take 18 cs = h" "18 \<le> length cs" for cs
    using that h by (simp add: parse_header_Ok [OF assms(2)])
  have b18: "take 18 bs = h" using bs l18 by simp
  have f8: "take 8 h = domain_tag f" "take 2 (drop 8 h) = be16 (envelope_version f)"
    using h assms(2) by (auto simp: envelope_header_def split: if_splits)
  show "parse_envelope C f maximum (take n bs) = Err (TruncatedEnvelope (cut_section n (length p)))"
    if n: "n < length bs"
  proof (cases "18 \<le> n")
    case True
    have "parse_header f maximum (take n bs) = Ok (h, of_nat (length p))"
      using True n b18 by (intro ph) (simp_all add: min_def)
    then show ?thesis
      using True n l18 u bs by (simp add: parse_envelope_def Let_def cut_section_def) linarith
  next
    case False
    have t: "take n bs = take n h" using False l18 bs by simp
    have "parse_header f maximum (take n h) = Err (TruncatedEnvelope (cut_section n (length p)))"
    proof -
      have "take 8 (take n h) = domain_tag f" if "8 \<le> n" using that f8 by (simp add: min_def)
      moreover have "take 2 (drop 8 (take n h)) = be16 (envelope_version f)" if "10 \<le> n"
      proof -
        have "2 \<le> n - 8" using that by simp
        then show ?thesis using f8(2) by (simp add: drop_take min_def)
      qed
      ultimately show ?thesis using False l18 by (auto simp: parse_header_def cut_section_def)
    qed
    with t show ?thesis by (simp add: parse_envelope_def)
  qed
  show "parse_envelope C f maximum (bs @ x) = Err TrailingData" if x: "x \<noteq> []"
  proof -
    have "parse_header f maximum (bs @ x) = Ok (h, of_nat (length p))"
      using b18 bs l18 by (intro ph) simp_all
    then show ?thesis using x l18 u bs by (simp add: parse_envelope_def Let_def)
  qed
qed

text \<open>Truncation and extension are reported precisely: without I/O faults, an envelope cut anywhere
  is a truncated envelope in the section the cut falls in, and an envelope followed by anything is
  trailing data; both readers report it.\<close>

theorem cut_and_extended_envelopes:
  assumes "crc32c_api C" "length (domain_tag f) = 8" "room_for_overhead maximum" "no_faults r"
    and "encode_envelope C f p maximum = Ok bs"
  shows "(n < length bs \<and> rd_rest r = take n bs \<longrightarrow>
       fst (decode_reader C f r maximum) = Err (TruncatedEnvelope (cut_section n (length p)))
       \<and> fst (validate_envelope_reader C f r maximum) = Err (TruncatedEnvelope (cut_section n (length p))))
    \<and> (x \<noteq> [] \<and> rd_rest r = bs @ x \<longrightarrow>
       fst (decode_reader C f r maximum) = Err TrailingData
       \<and> fst (validate_envelope_reader C f r maximum) = Err TrailingData)"
proof -
  have d: "fst (decode_reader C f r maximum) = parse_envelope C f maximum (rd_rest r)"
    unfolding decode_reader_def
    by (rule crc32c_api.decode_parse [OF assms(1,2,4,3)]) simp
  show ?thesis
    using parse_cut [OF assms(1,2,5)]
    by (simp add: d crc32c_api.validate_parse [OF assms(1,2,4)])
qed

theorem cut_and_extended_envelopes_witness:
  "fst (decode_reader castagnoli golden_format (cursor (take 20 golden_valid)) 67108864) =
     Err (TruncatedEnvelope Payload)
   \<and> fst (decode_reader castagnoli golden_format (cursor (golden_valid @ [0])) 67108864) = Err TrailingData"
proof -
  have l: "length golden_valid = 25" by (simp add: golden_valid_def golden_header_def)
  have "fst (decode_reader castagnoli golden_format (cursor (take 20 golden_valid)) 67108864) =
      Err (TruncatedEnvelope (cut_section 20 (length [0x61,0x62,0x63::u8])))"
    using cut_and_extended_envelopes [OF castagnoli.crc32c_api_axioms golden_format_tag golden_room
        no_faults_cursor golden_encode, of 20 "take 20 golden_valid" "[]"] l by simp
  moreover have "fst (decode_reader castagnoli golden_format (cursor (golden_valid @ [0])) 67108864) = Err TrailingData"
    using cut_and_extended_envelopes [OF castagnoli.crc32c_api_axioms golden_format_tag golden_room
        no_faults_cursor golden_encode, of 0 "golden_valid @ [0]" "[0]"] by simp
  ultimately show ?thesis by (simp add: cut_section_def)
qed

text \<open>The corrupted checksum of \<open>checksum-invalid.hex\<close> differs from the valid fixture in its last byte.\<close>

theorem corrupted_byte_rejected_witness:
  "\<exists>e. fst (decode_reader castagnoli golden_format (cursor (golden_valid[24 := 0x0e])) 67108864) = Err e"
  using corrupted_byte_rejected [OF castagnoli.crc32c_detects_axioms golden_format_tag golden_encode,
      of 24 "0x0e" "cursor (golden_valid[24 := 0x0e])"]
  by (simp add: golden_valid_def golden_header_def)

end
