(* ===== verification/Hexadecimal.thy ===== *)
theory Hexadecimal
  imports Config
begin

text \<open>
  The lowercase hexadecimal rendering that \<open>random_identifier\<close> (\<open>src/filesystem/mod.rs\<close>) writes out
  with its \<open>HEX_DIGITS\<close> table, and the predicate by which owned file names recognise it. The digest in
  a canonical file name has the same shape.
\<close>

definition HEX_DIGITS :: string where
  "HEX_DIGITS = ''0123456789abcdef''"

definition hex_byte :: "u8 \<Rightarrow> string" where
  "hex_byte byte = [HEX_DIGITS ! unat (drop_bit 4 byte), HEX_DIGITS ! unat (byte AND 0x0f)]"

definition hex_encode :: "bytes \<Rightarrow> string" where
  "hex_encode bytes = concat (map hex_byte bytes)"

text \<open>The test of \<open>is_owned_temporary_filename\<close>: \<open>is_ascii_hexdigit\<close> and not uppercase.\<close>

definition lower_hex :: "char \<Rightarrow> bool" where
  "lower_hex c \<longleftrightarrow> is_ascii_hexdigit c \<and> \<not> is_ascii_uppercase c"

definition is_hex_name :: "string \<Rightarrow> bool" where
  "is_hex_name s \<longleftrightarrow> length s = 64 \<and> list_all lower_hex s"

lemma length_HEX_DIGITS [simp]: "length HEX_DIGITS = 16"
  by (simp add: HEX_DIGITS_def)

lemma HEX_DIGITS_lower: "c \<in> set HEX_DIGITS \<Longrightarrow> lower_hex c"
  by (auto simp: HEX_DIGITS_def lower_hex_def is_ascii_hexdigit_def is_ascii_digit_def
      is_ascii_uppercase_def)

lemma distinct_HEX_DIGITS [simp]: "distinct HEX_DIGITS"
  by (simp add: HEX_DIGITS_def)

lemma high_nibble_less: "unat (drop_bit 4 (b :: u8)) < 16"
proof -
  have "unat (drop_bit 4 b) = unat b div 16"
    by (simp add: drop_bit_eq_div unat_div)
  moreover have "unat b < 256" by (rule order_less_le_trans [OF unsigned_less]) simp
  ultimately show ?thesis by linarith
qed

lemma low_nibble_eq: "unat ((b :: u8) AND 0x0f) = unat b mod 16"
proof -
  have "b AND 0x0f = take_bit 4 b" by (simp add: take_bit_eq_mask mask_eq_exp_minus_1)
  then show ?thesis by (simp add: take_bit_eq_mod unat_mod)
qed

lemma hex_byte_inj: "hex_byte a = hex_byte b \<Longrightarrow> a = b"
proof -
  assume "hex_byte a = hex_byte b"
  then have h: "HEX_DIGITS ! unat (drop_bit 4 a) = HEX_DIGITS ! unat (drop_bit 4 b)"
    and l: "HEX_DIGITS ! unat (a AND 0x0f) = HEX_DIGITS ! unat (b AND 0x0f)"
    by (simp_all add: hex_byte_def)
  have "unat (drop_bit 4 a) = unat (drop_bit 4 b)"
    using h high_nibble_less [of a] high_nibble_less [of b] by (simp add: nth_eq_iff_index_eq)
  then have "unat a div 16 = unat b div 16"
    by (simp add: drop_bit_eq_div unat_div)
  moreover have "unat a mod 16 = unat b mod 16"
    using l by (simp add: low_nibble_eq nth_eq_iff_index_eq)
  ultimately have "unat a = unat b"
    by (metis div_mult_mod_eq)
  then show "a = b" by (simp add: word_unat_eq_iff)
qed

lemma hex_byte_lower: "list_all lower_hex (hex_byte b)"
proof -
  have "unat b mod 16 < 16" by simp
  then have "HEX_DIGITS ! unat (b AND 0x0f) \<in> set HEX_DIGITS"
    unfolding low_nibble_eq by (intro nth_mem) simp
  moreover have "HEX_DIGITS ! unat (drop_bit 4 b) \<in> set HEX_DIGITS"
    using high_nibble_less [of b] by (intro nth_mem) simp
  ultimately show ?thesis by (simp add: hex_byte_def HEX_DIGITS_lower)
qed

lemma length_hex_byte [simp]: "length (hex_byte b) = 2"
  by (simp add: hex_byte_def)

lemma hex_encode_Nil [simp]: "hex_encode [] = []"
  by (simp add: hex_encode_def)

lemma hex_encode_Cons [simp]: "hex_encode (b # bs) = hex_byte b @ hex_encode bs"
  by (simp add: hex_encode_def)

lemma length_hex_encode [simp]: "length (hex_encode bs) = 2 * length bs"
  by (induction bs) simp_all

lemma hex_encode_lower: "list_all lower_hex (hex_encode bs)"
  by (induction bs) (simp_all add: hex_byte_lower)

lemma hex_encode_inj: "length a = length b \<Longrightarrow> hex_encode a = hex_encode b \<Longrightarrow> a = b"
proof (induction a b rule: list_induct2)
  case (Cons x xs y ys)
  then have "hex_byte x = hex_byte y \<and> hex_encode xs = hex_encode ys" by simp
  with Cons.IH show ?case using hex_byte_inj by blast
qed simp

lemma is_hex_name_encode: "length bs = 32 \<Longrightarrow> is_hex_name (hex_encode bs)"
  by (simp add: is_hex_name_def hex_encode_lower)

lemma lower_hex_not_dot: "lower_hex c \<Longrightarrow> c \<noteq> CHR ''.''"
  by (auto simp: lower_hex_def is_ascii_hexdigit_def is_ascii_digit_def)

lemma lower_hex_not_slash: "lower_hex c \<Longrightarrow> c \<noteq> CHR ''/''"
  by (auto simp: lower_hex_def is_ascii_hexdigit_def is_ascii_digit_def)

lemma is_hex_name_chars:
  assumes "is_hex_name s"
  shows "CHR ''.'' \<notin> set s" "CHR ''/'' \<notin> set s" "s \<noteq> []"
  using assms lower_hex_not_dot lower_hex_not_slash
  by (auto simp: is_hex_name_def list_all_iff)

end
