(* ===== verification/Paths.thy ===== *)
theory Paths
  imports Errors Hexadecimal
begin

text \<open>
  \<open>src/path.rs\<close> and what it uses of \<open>std::path\<close> on Unix: splitting a path into components, joining,
  and the file stem. The \<open>blake3\<close> crate is a parameter: a digest function and its rendering, with the
  documented shape of both.
\<close>

section \<open>\<open>std::path\<close>\<close>

datatype component = RootDir | CurDir | ParentDir | NormalComp string

fun split_on :: "char \<Rightarrow> string \<Rightarrow> string list" where
  "split_on c [] = [[]]"
| "split_on c (x # xs) =
     (if x = c then [] # split_on c xs
      else (case split_on c xs of [] \<Rightarrow> [[x]] | s # ss \<Rightarrow> (x # s) # ss))"

text \<open>Empty segments and inner \<open>.\<close> segments disappear; a leading \<open>.\<close> of a relative path is kept.\<close>

definition segment_component :: "string \<Rightarrow> component option" where
  "segment_component s =
     (if s = [] \<or> s = ''.'' then None else if s = ''..'' then Some ParentDir else Some (NormalComp s))"

definition is_absolute :: "string \<Rightarrow> bool" where
  "is_absolute p \<longleftrightarrow> take 1 p = ''/''"

definition path_components :: "string \<Rightarrow> component list" where
  "path_components p =
     (let segments = split_on CHR ''/'' p
      in (if is_absolute p then [RootDir] else if hd segments = ''.'' then [CurDir] else [])
         @ List.map_filter segment_component segments)"

text \<open>\<open>Path::join\<close>: an absolute second path replaces the first.\<close>

definition path_join :: "string \<Rightarrow> string \<Rightarrow> string" where
  "path_join p q =
     (if is_absolute q then q
      else if p = [] \<or> last p = CHR ''/'' then p @ q
      else p @ ''/'' @ q)"

definition file_name :: "string \<Rightarrow> string option" where
  "file_name p =
     (case rev (path_components p) of NormalComp s # _ \<Rightarrow> Some s | _ \<Rightarrow> None)"

text \<open>The stem is the name up to its last dot, unless the only dot is its first byte.\<close>

definition stem_of_name :: "string \<Rightarrow> string" where
  "stem_of_name s =
     (let after = takeWhile (\<lambda>c. c \<noteq> CHR ''.'') (rev s); before = drop (Suc (length after)) (rev s)
      in if CHR ''.'' \<notin> set s \<or> before = [] then s else rev before)"

definition file_stem :: "string \<Rightarrow> string option" where
  "file_stem p = map_option stem_of_name (file_name p)"

text \<open>\<open>OsStr::to_str\<close>: a name as a string, when its bytes are valid UTF-8.\<close>

abbreviation byte_in :: "nat \<Rightarrow> nat \<Rightarrow> char \<Rightarrow> bool" where
  "byte_in low high c \<equiv> low \<le> of_char c \<and> of_char c \<le> high"

definition leads3 :: "char \<Rightarrow> char \<Rightarrow> bool" where
  "leads3 a b \<longleftrightarrow> (a = CHR 0xE0 \<and> byte_in 0xA0 0xBF b) \<or> (byte_in 0xE1 0xEC a \<and> byte_in 0x80 0xBF b)
     \<or> (a = CHR 0xED \<and> byte_in 0x80 0x9F b) \<or> (byte_in 0xEE 0xEF a \<and> byte_in 0x80 0xBF b)"

definition leads4 :: "char \<Rightarrow> char \<Rightarrow> bool" where
  "leads4 a b \<longleftrightarrow> (a = CHR 0xF0 \<and> byte_in 0x90 0xBF b) \<or> (byte_in 0xF1 0xF3 a \<and> byte_in 0x80 0xBF b)
     \<or> (a = CHR 0xF4 \<and> byte_in 0x80 0x8F b)"

fun valid_utf8 :: "string \<Rightarrow> bool" where
  "valid_utf8 [] = True"
| "valid_utf8 (a # s) =
     (if (of_char a :: nat) < 0x80 then valid_utf8 s
      else case s of [] \<Rightarrow> False | b # s \<Rightarrow>
        if byte_in 0xC2 0xDF a \<and> byte_in 0x80 0xBF b then valid_utf8 s
        else case s of [] \<Rightarrow> False | c # s \<Rightarrow>
          if leads3 a b \<and> byte_in 0x80 0xBF c then valid_utf8 s
          else case s of [] \<Rightarrow> False | d # s \<Rightarrow>
            leads4 a b \<and> byte_in 0x80 0xBF c \<and> byte_in 0x80 0xBF d \<and> valid_utf8 s)"

definition to_str :: "string \<Rightarrow> string option" where
  "to_str s = (if valid_utf8 s then Some s else None)"

definition ascii_string :: "string \<Rightarrow> bool" where
  "ascii_string s \<longleftrightarrow> list_all (\<lambda>c. (of_char c :: nat) < 0x80) s"

lemma to_str_ascii: "ascii_string s \<Longrightarrow> to_str s = Some s"
proof -
  assume "ascii_string s"
  then have "valid_utf8 s" by (induction s) (simp_all add: ascii_string_def)
  then show ?thesis by (simp add: to_str_def)
qed

lemma is_hex_name_ascii: "is_hex_name s \<Longrightarrow> ascii_string s"
  by (auto simp: ascii_string_def is_hex_name_def list_all_iff lower_hex_def is_ascii_hexdigit_def is_ascii_digit_def
      dest!: bspec) 

lemma to_str_hex [simp]: "is_hex_name s \<Longrightarrow> to_str s = Some s"
  by (rule to_str_ascii [OF is_hex_name_ascii])

lemma split_on_nonempty [simp]: "split_on c xs \<noteq> []"
  by (cases xs) (auto split: list.splits)

lemma split_on_append_sep: "split_on c (xs @ c # ys) = split_on c xs @ split_on c ys"
  by (induction xs) (auto split: list.splits)

lemma split_on_no_sep: "c \<notin> set xs \<Longrightarrow> split_on c xs = [xs]"
  by (induction xs) auto

lemma split_on_segments: "s \<in> set (split_on c xs) \<Longrightarrow> c \<notin> set s"
proof (induction xs arbitrary: s)
  case (Cons x xs)
  obtain t ts where "split_on c xs = t # ts" by (cases "split_on c xs") auto
  with Cons show ?case by (auto split: if_splits)
qed simp

definition plain_name :: "string \<Rightarrow> bool" where
  "plain_name s \<longleftrightarrow> CHR ''/'' \<notin> set s \<and> s \<noteq> [] \<and> s \<noteq> ''.'' \<and> s \<noteq> ''..''"

lemma segment_component_Normal: "segment_component s = Some (NormalComp t) \<longleftrightarrow>
    s = t \<and> s \<noteq> [] \<and> s \<noteq> ''.'' \<and> s \<noteq> ''..''"
  by (auto simp: segment_component_def)

lemma path_join_plain:
  "plain_name q \<Longrightarrow> path_join p q = (if p = [] \<or> last p = CHR ''/'' then p @ q else p @ ''/'' @ q)"
  by (cases q) (auto simp: path_join_def is_absolute_def plain_name_def)

lemma map_filter_append: "List.map_filter f (xs @ ys) = List.map_filter f xs @ List.map_filter f ys"
  by (simp add: List.map_filter_def)

lemma path_join_segments:
  assumes "plain_name q"
  shows "\<exists>pre. split_on CHR ''/'' (path_join p q) = pre @ [q]"
proof -
  have q: "split_on CHR ''/'' q = [q]"
    using assms by (simp add: plain_name_def split_on_no_sep)
  show ?thesis
  proof (cases "p = [] \<or> last p = CHR ''/''")
    case False
    with q show ?thesis by (auto simp: path_join_plain [OF assms] split_on_append_sep)
  next
    case True
    show ?thesis
    proof (cases "p = []")
      case True
      with q show ?thesis by (auto simp: path_join_plain [OF assms])
    next
      case False
      with True have "path_join p q = butlast p @ CHR ''/'' # q"
        by (simp add: path_join_plain [OF assms])
           (metis append.assoc append_Cons append_Nil append_butlast_last_id)
      with q show ?thesis by (auto simp: split_on_append_sep)
    qed
  qed
qed

lemma file_name_join:
  assumes "plain_name q"
  shows "file_name (path_join p q) = Some q"
proof -
  from path_join_segments [OF assms] obtain pre where
    "split_on CHR ''/'' (path_join p q) = pre @ [q]" by blast
  moreover have "segment_component q = Some (NormalComp q)"
    using assms by (simp add: segment_component_def plain_name_def)
  ultimately show ?thesis
    by (simp add: file_name_def path_components_def Let_def map_filter_append
        List.map_filter_def)
qed

lemma path_join_inj:
  assumes "plain_name q" "plain_name r" "path_join p q = path_join p r"
  shows "q = r"
  using assms(3) by (simp add: path_join_plain assms(1,2) split: if_splits)

lemma stem_of_name_dot:
  assumes "CHR ''.'' \<notin> set body" "stem \<noteq> []"
  shows "stem_of_name (stem @ CHR ''.'' # body) = stem"
proof -
  have "takeWhile (\<lambda>c. c \<noteq> CHR ''.'') (rev body @ CHR ''.'' # rev stem) = rev body"
    using assms(1) by (subst takeWhile_append2) auto
  then show ?thesis using assms(2) by (simp add: stem_of_name_def Let_def)
qed

section \<open>The digest crate\<close>

record blake3_lib =
  blake3_hash :: "bytes \<Rightarrow> bytes"
  blake3_to_hex :: "bytes \<Rightarrow> string"

locale blake3_api =
  fixes B :: blake3_lib
  assumes hash_length: "length (blake3_hash B k) = 32"
    and to_hex_shape: "length h = 32 \<Longrightarrow> is_hex_name (blake3_to_hex B h)"
    and to_hex_inj: "length h = 32 \<Longrightarrow> length h' = 32 \<Longrightarrow>
          blake3_to_hex B h = blake3_to_hex B h' \<Longrightarrow> h = h'"

section \<open>\<open>src/path.rs\<close>\<close>

definition blob_filename :: "blake3_lib \<Rightarrow> blob_format_identity \<Rightarrow> bytes \<Rightarrow> string" where
  "blob_filename B format canonical_key =
     blake3_to_hex B (blake3_hash B canonical_key) @ filename_suffix format"

definition key_hash :: "blake3_lib \<Rightarrow> bytes \<Rightarrow> bytes" where
  "key_hash B canonical_key = blake3_hash B canonical_key"

definition validate_namespace :: "string \<Rightarrow> path store_result" where
  "validate_namespace namespace =
     (case path_components namespace of
        [NormalComp component] \<Rightarrow>
          (if component \<noteq> [] then Ok component else Err (Configuration InvalidNamespace))
      | _ \<Rightarrow> Err (Configuration InvalidNamespace))"

text \<open>The name the worker gives the file of a digest (\<open>src/engine/scheduler.rs\<close>).\<close>

definition blob_file :: "blake3_lib \<Rightarrow> blob_format_identity \<Rightarrow> bytes \<Rightarrow> string" where
  "blob_file B format hash = blake3_to_hex B hash @ filename_suffix format"

lemma plain_name_hex:
  assumes "wf_format f" "is_hex_name h" "CHR ''/'' \<notin> set tail"
  shows "plain_name (h @ filename_suffix f @ tail)"
proof -
  obtain c cs where "h = c # cs" using is_hex_name_chars(3) [OF assms(2)] by (cases h) auto
  moreover have "CHR ''.'' \<notin> set h" "CHR ''/'' \<notin> set h"
    using is_hex_name_chars [OF assms(2)] by auto
  moreover have "CHR ''/'' \<notin> set (filename_suffix f)"
    by (rule wf_format_suffix [OF assms(1)])
  ultimately show ?thesis using assms(3) by (auto simp: plain_name_def)
qed

lemma stem_of_hex_name:
  assumes "wf_format f" "is_hex_name h"
  shows "stem_of_name (h @ filename_suffix f) = h"
proof -
  obtain body where "filename_suffix f = CHR ''.'' # body" "CHR ''.'' \<notin> set body"
    using wf_format_suffix [OF assms(1)] by metis
  then show ?thesis
    using is_hex_name_chars(3) [OF assms(2)] by (simp add: stem_of_name_dot)
qed

lemma file_stem_hex:
  assumes "wf_format f" "is_hex_name h"
  shows "file_stem (path_join d (h @ filename_suffix f)) = Some h"
proof -
  have "plain_name (h @ filename_suffix f)"
    using plain_name_hex [OF assms, of "[]"] by simp
  then show ?thesis
    by (simp add: file_stem_def file_name_join stem_of_hex_name [OF assms])
qed

context blake3_api
begin

lemma hex_of_hash: "is_hex_name (blake3_to_hex B (blake3_hash B k))"
  by (rule to_hex_shape) (rule hash_length)

lemma blob_filename_file: "blob_filename B f k = blob_file B f (key_hash B k)"
  by (simp add: blob_filename_def blob_file_def key_hash_def)

lemma blob_file_plain:
  assumes "wf_format f" "length h = 32"
  shows "plain_name (blob_file B f h)"
  unfolding blob_file_def using plain_name_hex [OF assms(1) to_hex_shape [OF assms(2)], of "[]"]
  by simp

lemma blob_file_stem:
  assumes "wf_format f" "length h = 32"
  shows "file_stem (path_join d (blob_file B f h)) = Some (blake3_to_hex B h)"
  unfolding blob_file_def by (rule file_stem_hex [OF assms(1) to_hex_shape [OF assms(2)]])

lemma blob_path_inj:
  assumes "wf_format f" "length h = 32" "length h' = 32"
    and "path_join d (blob_file B f h) = path_join d (blob_file B f h')"
  shows "h = h'"
proof -
  have "blob_file B f h = blob_file B f h'"
    by (rule path_join_inj [OF blob_file_plain blob_file_plain]) (use assms in auto)
  then show ?thesis using to_hex_inj [OF assms(2,3)] by (simp add: blob_file_def)
qed

end

section \<open>A concrete digest\<close>

text \<open>A digest for evaluation: the key padded or cut to 32 bytes, with its length in the last byte.\<close>

definition padded_digest :: blake3_lib where
  "padded_digest = \<lparr>blake3_hash = (\<lambda>k. take 31 (k @ replicate 31 0) @ [of_nat (length k)]),
     blake3_to_hex = hex_encode\<rparr>"

interpretation padded_digest: blake3_api padded_digest
  by unfold_locales (simp_all add: padded_digest_def is_hex_name_encode hex_encode_inj)

section \<open>Properties\<close>

lemma validated_namespace_plain:
  assumes "validate_namespace ns = Ok c"
  shows "plain_name c"
proof -
  have pc: "path_components ns = [NormalComp c]"
    using assms by (auto simp: validate_namespace_def split: list.splits component.splits if_splits)
  then have "NormalComp c \<in> set (List.map_filter segment_component (split_on CHR ''/'' ns))"
    by (auto simp: path_components_def Let_def split: if_splits)
  then obtain s where s: "s \<in> set (split_on CHR ''/'' ns)" "segment_component s = Some (NormalComp c)"
    by (auto simp: List.map_filter_def)
  then show "plain_name c"
    using split_on_segments [of s "CHR ''/''" ns]
    by (auto simp: segment_component_Normal plain_name_def)
qed

text \<open>A namespace is accepted exactly when it is a single normal component (up to repeated or
  trailing slashes and inner \<open>.\<close> segments), and the accepted component is a plain name: it holds no
  slash and is neither empty nor \<open>.\<close> nor \<open>..\<close>, so it names a direct child of the root. A plain name is
  accepted as it is, and every other input is rejected as an invalid namespace.\<close>

theorem validate_namespace_sound:
  "(validate_namespace ns = Ok c \<longrightarrow> plain_name c \<and> file_name (path_join root c) = Some c)
   \<and> (plain_name ns \<longrightarrow> validate_namespace ns = Ok ns)
   \<and> (path_components ns \<noteq> [NormalComp c] \<longrightarrow> validate_namespace ns \<noteq> Ok c)
   \<and> (validate_namespace ns = Err e \<longrightarrow> e = Configuration InvalidNamespace)"
proof (intro conjI impI)
  assume v: "validate_namespace ns = Ok c"
  show p: "plain_name c" by (rule validated_namespace_plain [OF v])
  show "file_name (path_join root c) = Some c" by (rule file_name_join [OF p])
next
  assume p: "plain_name ns"
  then have "split_on CHR ''/'' ns = [ns]" "\<not> is_absolute ns" "ns \<noteq> ''.''"
    "segment_component ns = Some (NormalComp ns)" "ns \<noteq> []"
    by (auto simp: plain_name_def split_on_no_sep is_absolute_def segment_component_def
        take_Suc split: list.splits)
       (cases ns, auto)
  then show "validate_namespace ns = Ok ns"
    by (simp add: validate_namespace_def path_components_def Let_def List.map_filter_def)
qed (auto simp: validate_namespace_def split: list.splits component.splits if_splits)

theorem validate_namespace_witness:
  "validate_namespace ''state'' = Ok ''state'' \<and> validate_namespace ''a/b'' \<noteq> Ok ''b''
   \<and> plain_name ''state''"
proof -
  have "plain_name ''state''" by (simp add: plain_name_def)
  moreover have "path_components ''a/b'' \<noteq> [NormalComp ''b'']"
    by (simp add: path_components_def List.map_filter_def segment_component_def is_absolute_def)
  ultimately show ?thesis
    using validate_namespace_sound [of "''state''" "''state''"]
      validate_namespace_sound [of "''a/b''" "''b''"] by blast
qed

text \<open>For a well-formed identity, the canonical file of a key is a direct child of the namespace
  directory whose stem is the rendered digest (the name the quarantine and staging names are built
  from), whatever bytes the key holds, and two keys share a canonical path only when their digests
  are equal.\<close>

theorem canonical_path_correct:
  assumes "blake3_api B" "wf_format f"
  shows "plain_name (blob_filename B f k)
    \<and> file_name (path_join ns (blob_filename B f k)) = Some (blob_filename B f k)
    \<and> file_stem (path_join ns (blob_filename B f k)) = Some (blake3_to_hex B (key_hash B k))
    \<and> (path_join ns (blob_filename B f k) = path_join ns (blob_filename B f k')
         \<longleftrightarrow> key_hash B k = key_hash B k')"
proof -
  note api = assms(1)
  have l: "length (key_hash B x) = 32" for x
    by (simp add: key_hash_def blake3_api.hash_length [OF api])
  show ?thesis
    using blake3_api.blob_file_plain [OF api assms(2) l, of k]
      blake3_api.blob_file_stem [OF api assms(2) l, of ns k]
      blake3_api.blob_path_inj [OF api assms(2) l l, of ns k k']
    by (auto simp: blake3_api.blob_filename_file [OF api] file_name_join)
qed

theorem canonical_path_witness:
  "path_join ''root/ns'' (blob_filename padded_digest
       \<lparr>domain_tag = [1,2,3,4,5,6,7,8], filename_suffix = ''.b'', envelope_version = 1\<rparr> [1])
   \<noteq> path_join ''root/ns'' (blob_filename padded_digest
       \<lparr>domain_tag = [1,2,3,4,5,6,7,8], filename_suffix = ''.b'', envelope_version = 1\<rparr> [2])"
proof -
  let ?f = "\<lparr>domain_tag = [1,2,3,4,5,6,7,8], filename_suffix = ''.b'', envelope_version = 1\<rparr> :: blob_format_identity"
  have "wf_format ?f"
    by (simp add: wf_format_def validate_suffix_def config_consts suffix_byte_def
        is_ascii_lowercase_def)
  then have "(path_join ''root/ns'' (blob_filename padded_digest ?f [1])
      = path_join ''root/ns'' (blob_filename padded_digest ?f [2]))
    \<longleftrightarrow> key_hash padded_digest [1] = key_hash padded_digest [2]"
    using canonical_path_correct [OF padded_digest.blake3_api_axioms] by blast
  moreover have "key_hash padded_digest [1] \<noteq> key_hash padded_digest [2]"
    by (simp add: key_hash_def padded_digest_def)
  ultimately show ?thesis by simp
qed

end
