(* ===== verification/Streaming.thy ===== *)
theory Streaming
  imports EnvelopeProps Paths
begin

text \<open>
  The configuration of an open store (\<open>src/engine/mod.rs\<close>), the messages of a streaming save
  (\<open>src/engine/operation.rs\<close>) and \<open>write_stream_envelope\<close> (\<open>src/format.rs\<close>), which turns the messages
  into an envelope on any writer. The writer is an interface: what \<open>write_all\<close> promises about the bytes
  that reach it. A receiver is the list of the messages it yields before its senders are gone.
\<close>

section \<open>Store configuration and stream messages\<close>

record store_config =
  cfg_namespace :: path
  cfg_format :: blob_format_identity
  cfg_maximum :: u64
  cfg_max_concurrent_operations :: nat

definition wf_config :: "store_config \<Rightarrow> bool" where
  "wf_config cfg \<longleftrightarrow> wf_format (cfg_format cfg) \<and> room_for_overhead (cfg_maximum cfg)
     \<and> 0 < cfg_max_concurrent_operations cfg"

definition validate_maximum :: "u64 \<Rightarrow> unit store_result" where
  "validate_maximum maximum =
     (if checked_add maximum (of_nat (HEADER_LEN + CHECKSUM_LEN)) = None
      then Err (Configuration (InvalidMaximumBlobSize maximum)) else Ok ())"

lemma validate_maximum_Ok: "validate_maximum m = Ok u \<longleftrightarrow> room_for_overhead m"
  by (auto simp: validate_maximum_def checked_add_def room_for_overhead_def config_consts)

datatype save_stream_message = Chunk bytes | Complete

type_synonym 's write_all = "bytes \<Rightarrow> 's \<Rightarrow> (io_error, unit) result \<times> 's"

section \<open>Writers\<close>

text \<open>\<open>write_all\<close> appends its bytes when it succeeds and some prefix of them when it fails.\<close>

locale byte_sink =
  fixes write_all :: "'s write_all" and contents :: "'s \<Rightarrow> bytes"
  assumes write_Ok: "write_all bs s = (Ok u, s') \<Longrightarrow> contents s' = contents s @ bs"
    and write_Err: "write_all bs s = (Err e, s') \<Longrightarrow> \<exists>k. contents s' = contents s @ take k bs"

text \<open>A reliable writer additionally has states in which it does not fail.\<close>

locale reliable_sink = byte_sink +
  fixes healthy :: "'s \<Rightarrow> bool"
  assumes write_healthy: "healthy s \<Longrightarrow> \<exists>s'. write_all bs s = (Ok (), s') \<and> healthy s'"

text \<open>The standard library's \<open>Vec<u8>\<close> writer with a script of the faults its calls meet: each fault
  lets a given number of bytes through first.\<close>

record vec_sink =
  vs_bytes :: bytes
  vs_faults :: "(nat \<times> io_error) option list"

definition vec_write_all :: "vec_sink write_all" where
  "vec_write_all bs s =
     (case vs_faults s of
        Some (k, e) # fs \<Rightarrow> (Err e, s\<lparr>vs_bytes := vs_bytes s @ take k bs, vs_faults := fs\<rparr>)
      | None # fs \<Rightarrow> (Ok (), s\<lparr>vs_bytes := vs_bytes s @ bs, vs_faults := fs\<rparr>)
      | [] \<Rightarrow> (Ok (), s\<lparr>vs_bytes := vs_bytes s @ bs\<rparr>))"

interpretation vec: reliable_sink vec_write_all vs_bytes "\<lambda>s. vs_faults s = []"
  by unfold_locales (auto simp: vec_write_all_def split: list.splits option.splits)

section \<open>\<open>write_stream_envelope\<close>\<close>

definition chunk_total :: "u64 \<Rightarrow> bytes \<Rightarrow> u64 option" where
  "chunk_total written chunk =
     (case u64_try_from (length chunk) of None \<Rightarrow> None | Some count \<Rightarrow> checked_add written count)"

fun write_stream_loop ::
  "crc32c_lib \<Rightarrow> 's write_all \<Rightarrow> u64 \<Rightarrow> u32 \<Rightarrow> u64 \<Rightarrow> save_stream_message list \<Rightarrow> 's
     \<Rightarrow> unit store_result \<times> save_stream_message list \<times> 's" where
  "write_stream_loop C write declared checksum written [] s = (Err StreamCancelled, [], s)"
| "write_stream_loop C write declared checksum written (Chunk chunk # ms) s =
     (case chunk_total written chunk of
        None \<Rightarrow> (Err (InputHasTrailingData declared), ms, s)
      | Some sum_len \<Rightarrow>
          if declared < sum_len then (Err (InputHasTrailingData declared), ms, s)
          else case write chunk s of
            (Err e, s') \<Rightarrow> (Err (Io WriteEnvelope e), ms, s')
          | (Ok _, s') \<Rightarrow>
              write_stream_loop C write declared (crc32c_append C checksum chunk)
                (written + of_nat (length chunk)) ms s')"
| "write_stream_loop C write declared checksum written (Complete # ms) s =
     (if written \<noteq> declared then (Err (InputEndedEarly declared written), ms, s)
      else case write (be32 checksum) s of
        (Err e, s') \<Rightarrow> (Err (Io WriteEnvelope e), ms, s')
      | (Ok _, s') \<Rightarrow> (Ok (), ms, s'))"

definition write_stream_envelope ::
  "crc32c_lib \<Rightarrow> 's write_all \<Rightarrow> store_config \<Rightarrow> u64 \<Rightarrow> save_stream_message list \<Rightarrow> 's
     \<Rightarrow> unit store_result \<times> save_stream_message list \<times> 's" where
  "write_stream_envelope C write cfg declared ms s =
     (case envelope_header (cfg_format cfg) declared (cfg_maximum cfg) of
        Err e \<Rightarrow> (Err e, ms, s)
      | Ok header \<Rightarrow>
          (case write header s of
             (Err e, s') \<Rightarrow> (Err (Io WriteEnvelope e), ms, s')
           | (Ok _, s') \<Rightarrow> write_stream_loop C write declared (crc32c_of C header) 0 ms s'))"

section \<open>What the messages mean\<close>

text \<open>The verdict on a message sequence over mathematical integers, with the bytes received so far.\<close>

fun stream_verdict :: "nat \<Rightarrow> nat \<Rightarrow> save_stream_message list \<Rightarrow> unit store_result" where
  "stream_verdict declared received [] = Err StreamCancelled"
| "stream_verdict declared received (Chunk chunk # ms) =
     (if declared < received + length chunk then Err (InputHasTrailingData (of_nat declared))
      else stream_verdict declared (received + length chunk) ms)"
| "stream_verdict declared received (Complete # ms) =
     (if received = declared then Ok ()
      else Err (InputEndedEarly (of_nat declared) (of_nat received)))"

lemma stream_verdict_Ok:
  "stream_verdict declared received ms = Ok u \<longleftrightarrow>
     (\<exists>chunks rest. ms = map Chunk chunks @ Complete # rest
        \<and> received + length (concat chunks) = declared)"
proof (induction declared received ms rule: stream_verdict.induct)
  case (2 declared received chunk ms)
  show ?case
  proof
    assume "stream_verdict declared received (Chunk chunk # ms) = Ok u"
    with 2 obtain chunks rest where "ms = map Chunk chunks @ Complete # rest"
      "received + length chunk + length (concat chunks) = declared" by (auto split: if_splits)
    then show "\<exists>chunks rest. Chunk chunk # ms = map Chunk chunks @ Complete # rest
        \<and> received + length (concat chunks) = declared"
      by (intro exI [of _ "chunk # chunks"] exI [of _ rest]) simp
  next
    assume "\<exists>chunks rest. Chunk chunk # ms = map Chunk chunks @ Complete # rest
        \<and> received + length (concat chunks) = declared"
    then obtain c chunks rest where "Chunk chunk # ms = map Chunk (c # chunks) @ Complete # rest"
      "received + length (concat (c # chunks)) = declared"
      by (metis (no_types, opaque_lifting) append_Nil list.exhaust list.inject list.simps(8) save_stream_message.distinct(1))
    then show "stream_verdict declared received (Chunk chunk # ms) = Ok u"
      using 2 by auto
  qed
next
  case (3 declared received ms)
  show ?case
    by (auto intro: exI [of _ "[]"] simp: Cons_eq_append_conv)
qed simp

lemma chunk_total_spec:
  "chunk_total written chunk =
     (if unat written + length chunk < 2 ^ 64 then Some (written + of_nat (length chunk)) else None)"
proof -
  have "unat (of_nat (length chunk) :: u64) = length chunk" if "length chunk < 2 ^ 64" using that by simp
  then show ?thesis by (auto simp: chunk_total_def u64_try_from_def checked_add_def)
qed

lemma chunk_total_accept:
  "(case chunk_total written chunk of None \<Rightarrow> False | Some sum_len \<Rightarrow> \<not> declared < sum_len) \<longleftrightarrow>
     unat written + length chunk \<le> unat declared"
  (is "?l \<longleftrightarrow> ?r")
proof (cases "unat written + length chunk < 2 ^ 64")
  case True
  then have "unat (of_nat (length chunk) :: u64) = length chunk" by simp
  with True have "unat (written + of_nat (length chunk)) = unat written + length chunk"
    by (intro trans [OF unat_add_no_wrap]) simp_all
  with True show ?thesis by (simp add: chunk_total_spec word_less_nat_alt not_less)
next
  case False
  then show ?thesis using unsigned_less [of declared, where 'a = nat] by (simp add: chunk_total_spec)
qed

lemma written_step:
  fixes written declared :: u64
  assumes "unat written + length chunk \<le> unat declared"
  shows "unat (written + of_nat (length chunk)) = unat written + length chunk"
proof -
  have "unat declared < 2 ^ 64" using unsigned_less [of declared] by simp
  with assms have lt: "unat written + length chunk < 2 ^ 64" by linarith
  then have "unat (of_nat (length chunk) :: u64) = length chunk" by simp
  with lt show ?thesis by (subst unat_add_no_wrap) simp_all
qed

text \<open>The loop in terms of the lengths: no step of the \<open>u64\<close> counter wraps.\<close>

lemma write_stream_loop_Chunk:
  "write_stream_loop C write declared checksum written (Chunk chunk # ms) s =
     (if unat written + length chunk \<le> unat declared
      then (case write chunk s of
            (Err e, s') \<Rightarrow> (Err (Io WriteEnvelope e), ms, s')
          | (Ok _, s') \<Rightarrow>
              write_stream_loop C write declared (crc32c_append C checksum chunk)
                (written + of_nat (length chunk)) ms s')
      else (Err (InputHasTrailingData declared), ms, s))"
  using chunk_total_accept [where written = written and chunk = chunk and declared = declared] by (auto split: option.splits)

declare write_stream_loop.simps(2) [simp del] write_stream_loop_Chunk [simp]


section \<open>What reaches the writer\<close>

context byte_sink
begin

text \<open>A save that succeeds received chunks and then the completion, and wrote exactly their bytes and
  the checksum that continues over them.\<close>

lemma write_stream_loop_Ok:
  assumes "crc32c_api C"
    and "write_stream_loop C write_all declared checksum written ms s = (Ok u, rest, s')"
  shows "\<exists>chunks. ms = map Chunk chunks @ Complete # rest
      \<and> unat written + length (concat chunks) = unat declared
      \<and> contents s' = contents s @ concat chunks @ be32 (crc32c_append C checksum (concat chunks))"
  using assms(2)
proof (induction ms arbitrary: checksum written s)
  case (Cons m ms)
  show ?case
  proof (cases m)
    case (Chunk chunk)
    with Cons.prems have le: "unat written + length chunk \<le> unat declared"
      by (auto split: if_splits)
    obtain a s1 where w: "write_all chunk s = (a, s1)" by (cases "write_all chunk s")
    with Chunk Cons.prems le obtain u' where a: "a = Ok u'" by (cases a) auto
    with Chunk Cons.prems le w have
      "write_stream_loop C write_all declared (crc32c_append C checksum chunk)
        (written + of_nat (length chunk)) ms s1 = (Ok u, rest, s')" by auto
    from Cons.IH [OF this] obtain chunks where
      "ms = map Chunk chunks @ Complete # rest"
      "unat (written + of_nat (length chunk)) + length (concat chunks) = unat declared"
      "contents s' = contents s1 @ concat chunks @
         be32 (crc32c_append C (crc32c_append C checksum chunk) (concat chunks))" by blast
    with Chunk show ?thesis
      using write_Ok [OF w [unfolded a]] written_step [OF le] crc32c_api.append_append [OF assms(1)]
      by (intro exI [of _ "chunk # chunks"]) simp
  next
    case Complete
    with Cons.prems have eq: "written = declared" by (auto split: if_splits)
    obtain a s1 where w: "write_all (be32 checksum) s = (a, s1)" by (cases "write_all (be32 checksum) s")
    with Complete Cons.prems eq obtain u' where a: "a = Ok u'" and r: "s1 = s'" "ms = rest"
      by (cases a) auto
    with Complete eq write_Ok [OF w [unfolded a]] show ?thesis
      by (intro exI [of _ "[]"]) (simp add: crc32c_api.append_Nil [OF assms(1)])
  qed
qed simp

text \<open>The error of a save is the writer's, or the verdict on the messages.\<close>

lemma write_stream_loop_Err:
  "write_stream_loop C write_all declared checksum written ms s = (Err e, rest, s') \<Longrightarrow>
     (\<exists>source. e = Io WriteEnvelope source) \<or> stream_verdict (unat declared) (unat written) ms = Err e"
proof (induction ms arbitrary: checksum written s)
  case (Cons m ms)
  show ?case
  proof (cases m)
    case (Chunk chunk)
    show ?thesis
    proof (cases "unat written + length chunk \<le> unat declared")
      case True
      with Chunk Cons.prems show ?thesis
        by (auto dest!: Cons.IH simp: written_step split: prod.splits sum.splits)
    qed (use Chunk Cons.prems in auto)
  next
    case Complete
    with Cons.prems show ?thesis
      by (auto dest: word_unat_eq_iff [THEN iffD2] split: if_splits prod.splits sum.splits)
  qed
qed simp

end

context reliable_sink
begin

text \<open>With a healthy writer the result is the verdict on the messages, and nothing else.\<close>

lemma write_stream_loop_verdict:
  "healthy s \<Longrightarrow> \<exists>rest s'. write_stream_loop C write_all declared checksum written ms s =
     (stream_verdict (unat declared) (unat written) ms, rest, s') \<and> healthy s'"
proof (induction ms arbitrary: checksum written s)
  case (Cons m ms)
  show ?case
  proof (cases m)
    case (Chunk chunk)
    obtain s1 where w: "write_all chunk s = (Ok (), s1)" "healthy s1"
      using write_healthy [OF Cons.prems] by blast
    from Cons.IH [OF w(2)] obtain rest s' where
      "write_stream_loop C write_all declared (crc32c_append C checksum chunk)
        (written + of_nat (length chunk)) ms s1
        = (stream_verdict (unat declared) (unat (written + of_nat (length chunk))) ms, rest, s')"
      "healthy s'" by blast
    with Chunk w Cons.prems show ?thesis by (auto simp: written_step)
  next
    case Complete
    obtain s1 where "write_all (be32 checksum) s = (Ok (), s1)" "healthy s1"
      using write_healthy [OF Cons.prems] by blast
    with Complete Cons.prems show ?thesis by (auto dest: word_unat_eq_iff [THEN iffD2])
  qed
qed auto

end

section \<open>Properties\<close>

text \<open>Whatever every single write preserves, the whole save preserves.\<close>

lemma write_stream_loop_keeps:
  assumes "\<And>bs s r s'. write bs s = (r, s') \<Longrightarrow> R s s'" "\<And>s. R s s"
    and "\<And>a b c. R a b \<Longrightarrow> R b c \<Longrightarrow> R a c"
  shows "write_stream_loop C write declared checksum written ms s = (r, rest, s') \<Longrightarrow> R s s'"
proof (induction ms arbitrary: checksum written s)
  case (Cons m ms)
  then show ?case
    by (cases m)
       (auto split: if_splits prod.splits sum.splits dest: assms(1) intro: assms(2) assms(3))
qed (use assms(2) in simp)

lemma write_stream_envelope_keeps:
  assumes "write_stream_envelope C write cfg declared ms s = (r, rest, s')"
    and "\<And>bs s r s'. write bs s = (r, s') \<Longrightarrow> R s s'" "\<And>s. R s s"
    and "\<And>a b c. R a b \<Longrightarrow> R b c \<Longrightarrow> R a c"
  shows "R s s'"
  using assms(1) write_stream_loop_keeps [where R = R, OF assms(2,3,4)]
  by (auto simp: write_stream_envelope_def split: sum.splits prod.splits
      dest: assms(2) intro: assms(3) assms(4))

text \<open>The loop behind the header, for every writer.\<close>

lemma write_stream_envelope_Ok:
  assumes "byte_sink write contents" "crc32c_api C"
    and "write_stream_envelope C write cfg declared ms s = (Ok u, rest, s')"
  shows "\<exists>chunks bytes. ms = map Chunk chunks @ Complete # rest
    \<and> length (concat chunks) = unat declared
    \<and> encode_envelope C (cfg_format cfg) (concat chunks) (cfg_maximum cfg) = Ok bytes
    \<and> contents s' = contents s @ bytes"
proof -
  obtain header where h: "envelope_header (cfg_format cfg) declared (cfg_maximum cfg) = Ok header"
    using assms(3) by (cases "envelope_header (cfg_format cfg) declared (cfg_maximum cfg)")
      (auto simp: write_stream_envelope_def)
  obtain a s1 where w: "write header s = (a, s1)" by (cases "write header s")
  with h assms(3) obtain v where a: "a = Ok v" by (cases a) (auto simp: write_stream_envelope_def)
  with h w assms(3) have
    "write_stream_loop C write declared (crc32c_of C header) 0 ms s1 = (Ok u, rest, s')"
    by (simp add: write_stream_envelope_def)
  from byte_sink.write_stream_loop_Ok [OF assms(1,2) this] obtain chunks where c:
    "ms = map Chunk chunks @ Complete # rest" "length (concat chunks) = unat declared"
    "contents s' = contents s1 @ concat chunks @
       be32 (crc32c_append C (crc32c_of C header) (concat chunks))" by auto
  have "contents s1 = contents s @ header" using byte_sink.write_Ok [OF assms(1) w [unfolded a]] .
  moreover have "unat declared < 2 ^ 64" using unsigned_less [of declared] by simp
  then have "encode_envelope C (cfg_format cfg) (concat chunks) (cfg_maximum cfg)
      = Ok (header @ concat chunks @ be32 (crc32c_append C (crc32c_of C header) (concat chunks)))"
    using h c(2) by (simp add: encode_envelope_Ok)
  ultimately show ?thesis using c by auto
qed

lemma write_stream_envelope_verdict:
  assumes "reliable_sink write contents healthy" "healthy s"
  shows "fst (write_stream_envelope C write cfg declared ms s) =
    (if cfg_maximum cfg < declared then Err (BlobTooLarge declared (cfg_maximum cfg))
     else stream_verdict (unat declared) 0 ms)"
proof (cases "cfg_maximum cfg < declared")
  case True
  then show ?thesis by (simp add: write_stream_envelope_def envelope_header_def)
next
  case False
  then obtain header where
    h: "envelope_header (cfg_format cfg) declared (cfg_maximum cfg) = Ok header"
    by (simp add: envelope_header_def)
  obtain s1 where w: "write header s = (Ok (), s1)" "healthy s1"
    using reliable_sink.write_healthy [OF assms] by blast
  from reliable_sink.write_stream_loop_verdict [OF assms(1) w(2), of C declared "crc32c_of C header" 0 ms]
  show ?thesis using False h w(1) by (auto simp: write_stream_envelope_def)
qed

text \<open>A streaming save that succeeds wrote, on any writer, exactly the bytes \<open>encode_envelope\<close>
  returns for the concatenated chunks, and it succeeds only for chunks of the declared total length
  followed by the completion message.\<close>

theorem streaming_save_writes_envelope:
  assumes "byte_sink write contents" "crc32c_api C"
    and "write_stream_envelope C write cfg declared ms s = (Ok u, rest, s')"
  shows "\<exists>chunks bytes. ms = map Chunk chunks @ Complete # rest
    \<and> length (concat chunks) = unat declared
    \<and> encode_envelope C (cfg_format cfg) (concat chunks) (cfg_maximum cfg) = Ok bytes
    \<and> contents s' = contents s @ bytes"
  by (rule write_stream_envelope_Ok [OF assms])

definition golden_config :: store_config where
  "golden_config = \<lparr>cfg_namespace = ''/store/blobs'', cfg_format = golden_format,
     cfg_maximum = 67108864, cfg_max_concurrent_operations = 2\<rparr>"

definition vec_new :: vec_sink where
  "vec_new = \<lparr>vs_bytes = [], vs_faults = []\<rparr>"

theorem streaming_save_writes_envelope_witness:
  "\<exists>chunks bytes. [Chunk [0x61], Chunk [0x62,0x63], Complete] = map Chunk chunks @ Complete # []
    \<and> length (concat chunks) = unat (3 :: u64)
    \<and> encode_envelope castagnoli golden_format (concat chunks) 67108864 = Ok bytes
    \<and> golden_valid = [] @ bytes"
proof -
  have "write_stream_envelope castagnoli vec_write_all golden_config 3
      [Chunk [0x61], Chunk [0x62,0x63], Complete] vec_new
    = (Ok (), [], \<lparr>vs_bytes = golden_valid, vs_faults = []\<rparr>)"
    by (simp add: write_stream_envelope_def golden_config_def envelope_header_def golden_format_def
        vec_new_def vec_write_all_def golden_valid_def golden_header_def to_be_bytes_def upt_rec
        castagnoli_eval)
  from streaming_save_writes_envelope [OF vec.byte_sink_axioms castagnoli.crc32c_api_axioms this]
  show ?thesis by (simp add: golden_config_def vec_new_def)
qed

text \<open>The result of a streaming save on a writer that does not fail is decided by the declared
  length and the messages alone: too large for the store, more bytes than declared, fewer bytes at the
  completion, cancelled when the senders disappear before it, success otherwise.\<close>

theorem streaming_save_verdict:
  assumes "reliable_sink write contents healthy" "healthy s"
  shows "fst (write_stream_envelope C write cfg declared ms s) =
    (if cfg_maximum cfg < declared then Err (BlobTooLarge declared (cfg_maximum cfg))
     else stream_verdict (unat declared) 0 ms)"
  by (rule write_stream_envelope_verdict [OF assms])

theorem streaming_save_verdict_witness:
  "fst (write_stream_envelope castagnoli vec_write_all golden_config 3 [Chunk [0x61,0x62]] vec_new)
     = Err StreamCancelled
   \<and> fst (write_stream_envelope castagnoli vec_write_all golden_config 3 [Chunk [0,1,2,3]] vec_new)
     = Err (InputHasTrailingData 3)
   \<and> fst (write_stream_envelope castagnoli vec_write_all golden_config 3 [Chunk [0], Complete] vec_new)
     = Err (InputEndedEarly 3 1)"
  by (simp add: streaming_save_verdict [OF vec.reliable_sink_axioms] vec_new_def golden_config_def)

end
