(* ===== verification/FileSystem.thy ===== *)
theory FileSystem
  imports Streaming "HOL-Library.Sublist"
begin

text \<open>
  What \<open>src/filesystem/mod.rs\<close> and \<open>src/format.rs\<close> use of the operating system. The file system is a log
  of entry updates over the entries it started with, newest update first, so that the states a process
  interruption can leave behind are the suffixes of the log and the entries a power loss can leave behind
  are those not yet followed by a directory synchronization. The calls of \<open>std::fs\<close> are definitions on
  it. The crates \<open>atomic-write-file\<close>, \<open>rustix\<close> and \<open>getrandom\<close> are a record of parameters with the
  documented behaviour as a locale, interpreted at the end on a temporary file and a rename.
\<close>

section \<open>Entries and their history\<close>

datatype node =
    FileNode bytes "system_time option"
  | DirNode
  | SymlinkNode path
  | SocketNode

datatype fs_event = Update "(path \<times> node option) list" | SyncDir path

text \<open>Each call of the operating system first takes the next element of \<open>fs_faults\<close>: an error number
  makes the call fail without effect. Each opened regular file takes the next script of read answers.\<close>

record fs =
  fs_base :: "path \<Rightarrow> node option"
  fs_log :: "fs_event list"
  fs_cwd :: "path option"
  fs_faults :: "nat option list"
  fs_scripts :: "read_answer list list"
  fs_random :: "(getrandom_error, bytes) result list"

fun entry_at :: "(path \<Rightarrow> node option) \<Rightarrow> fs_event list \<Rightarrow> path \<Rightarrow> node option" where
  "entry_at base [] p = base p"
| "entry_at base (Update us # evs) p =
     (case map_of us p of Some v \<Rightarrow> v | None \<Rightarrow> entry_at base evs p)"
| "entry_at base (SyncDir d # evs) p = entry_at base evs p"

definition entry :: "fs \<Rightarrow> path \<Rightarrow> node option" where
  "entry s p = entry_at (fs_base s) (fs_log s) p"

text \<open>The directory part of a path, as the kernel resolves it.\<close>

definition dir_part :: "path \<Rightarrow> path" where
  "dir_part p =
     (let d = rev (drop 1 (dropWhile (\<lambda>c. c \<noteq> CHR ''/'') (rev p))) in if d = [] then ''/'' else d)"

text \<open>The values an entry can have after a power loss: the current one and every earlier one that no
  synchronization of the directory followed.\<close>

fun crash_values :: "(path \<Rightarrow> node option) \<Rightarrow> fs_event list \<Rightarrow> path \<Rightarrow> node option list" where
  "crash_values base [] p = [base p]"
| "crash_values base (Update us # evs) p =
     (case map_of us p of Some v \<Rightarrow> v # crash_values base evs p | None \<Rightarrow> crash_values base evs p)"
| "crash_values base (SyncDir d # evs) p =
     (if dir_part p = d then [entry_at base evs p] else crash_values base evs p)"

definition after_power_loss :: "fs \<Rightarrow> path \<Rightarrow> node option set" where
  "after_power_loss s p = set (crash_values (fs_base s) (fs_log s) p)"

definition record_event :: "fs_event \<Rightarrow> fs \<Rightarrow> fs" where
  "record_event ev s = s\<lparr>fs_log := ev # fs_log s\<rparr>"

lemma entry_record [simp]:
  "entry (record_event (Update us) s) p = (case map_of us p of Some v \<Rightarrow> v | None \<Rightarrow> entry s p)"
  "entry (record_event (SyncDir d) s) p = entry s p"
  by (auto simp: entry_def record_event_def split: option.splits)

lemma entry_frame [simp]:
  "entry (s\<lparr>fs_faults := f\<rparr>) = entry s" "entry (s\<lparr>fs_scripts := sc\<rparr>) = entry s"
  "entry (s\<lparr>fs_random := r\<rparr>) = entry s"
  by (simp_all add: entry_def fun_eq_iff)

lemma entry_in_crash: "entry_at base evs p \<in> set (crash_values base evs p)"
  by (induction base evs p rule: crash_values.induct) (auto split: option.splits)

lemma entry_after_power_loss: "entry s p \<in> after_power_loss s p"
  by (simp add: entry_def after_power_loss_def entry_in_crash)

section \<open>Calls of \<open>std::fs\<close>\<close>

type_synonym 'a io_result = "(io_error, 'a) result"
type_synonym 'a syscall = "fs \<Rightarrow> 'a io_result \<times> fs"

definition ENOENT :: nat where "ENOENT = 2"
definition ENXIO :: nat where "ENXIO = 6"
definition EEXIST :: nat where "EEXIST = 17"
definition EISDIR :: nat where "EISDIR = 21"
definition ELOOP :: nat where "ELOOP = 40"

lemmas errno_defs = ENOENT_def ENXIO_def EEXIST_def EISDIR_def ELOOP_def

abbreviation errno :: "nat \<Rightarrow> io_error" where
  "errno \<equiv> from_raw_os_error"

lemma io_kind_errno [simp]:
  "io_kind (errno ENOENT) = NotFound" "io_kind (errno EEXIST) = AlreadyExists"
  "io_kind (errno EISDIR) = OtherKind 21" "io_kind (errno ENXIO) = OtherKind 6"
  "io_kind (errno ELOOP) = OtherKind 40"
  by (simp_all add: from_raw_os_error_def decode_errno_def errno_defs)

text \<open>An injected fault is a genuine I/O error: it does not claim that an entry is missing or exists.\<close>

definition fault_code :: "nat \<Rightarrow> nat" where
  "fault_code c = (if c = ENOENT \<or> c = EEXIST then 5 else c)"

definition syscall :: "'a syscall \<Rightarrow> 'a syscall" where
  "syscall act s =
     (case fs_faults s of
        [] \<Rightarrow> act s
      | None # faults \<Rightarrow> act (s\<lparr>fs_faults := faults\<rparr>)
      | Some c # faults \<Rightarrow> (Err (errno (fault_code c)), s\<lparr>fs_faults := faults\<rparr>))"

lemma fault_code_not [simp]: "fault_code c \<noteq> ENOENT" "fault_code c \<noteq> EEXIST"
  by (simp_all add: fault_code_def errno_defs)

lemma fault_kind [simp]:
  "io_kind (errno (fault_code c)) \<noteq> NotFound" "io_kind (errno (fault_code c)) \<noteq> AlreadyExists"
  by (simp_all add: fault_code_def from_raw_os_error_def decode_errno_def errno_defs)

text \<open>Symbolic links at the last component are followed up to the kernel's limit.\<close>

fun resolve :: "nat \<Rightarrow> fs \<Rightarrow> path \<Rightarrow> (path \<times> node) io_result" where
  "resolve fuel s p =
     (case entry s p of
        None \<Rightarrow> Err (errno ENOENT)
      | Some (SymlinkNode target) \<Rightarrow>
          (case fuel of
             0 \<Rightarrow> Err (errno ELOOP)
           | Suc fuel' \<Rightarrow> resolve fuel' s (path_join (dir_part p) target))
      | Some n \<Rightarrow> Ok (p, n))"

declare resolve.simps [simp del]

definition LINK_LIMIT :: nat where "LINK_LIMIT = 40"

datatype file_type = IsFile | IsDir | IsSymlink | IsSocket

record metadata =
  md_type :: file_type
  md_len :: u64
  md_modified :: "system_time option"

fun node_metadata :: "node \<Rightarrow> metadata" where
  "node_metadata (FileNode bs t) = \<lparr>md_type = IsFile, md_len = of_nat (length bs), md_modified = t\<rparr>"
| "node_metadata DirNode = \<lparr>md_type = IsDir, md_len = 0, md_modified = None\<rparr>"
| "node_metadata (SymlinkNode t) = \<lparr>md_type = IsSymlink, md_len = of_nat (length t), md_modified = None\<rparr>"
| "node_metadata SocketNode = \<lparr>md_type = IsSocket, md_len = 0, md_modified = None\<rparr>"

definition fs_metadata :: "path \<Rightarrow> metadata syscall" where
  "fs_metadata p = syscall (\<lambda>s.
     (case resolve LINK_LIMIT s p of Err e \<Rightarrow> Err e | Ok (_, n) \<Rightarrow> Ok (node_metadata n), s))"

definition fs_symlink_metadata :: "path \<Rightarrow> metadata syscall" where
  "fs_symlink_metadata p = syscall (\<lambda>s.
     (case entry s p of None \<Rightarrow> Err (errno ENOENT) | Some n \<Rightarrow> Ok (node_metadata n), s))"

text \<open>An opened file: the path it was opened by and a reader over the content at that moment. Reading
  a directory fails.\<close>

record file_handle =
  fh_path :: path
  fh_reader :: reader

definition file_reader :: "bytes \<Rightarrow> read_answer list \<Rightarrow> reader" where
  "file_reader bs script = \<lparr>rd_content = bs, rd_pos = 0, rd_script = script\<rparr>"

definition open_node :: "path \<Rightarrow> node \<Rightarrow> file_handle syscall" where
  "open_node p n s =
     (case n of
        FileNode bs _ \<Rightarrow>
          (case fs_scripts s of
             [] \<Rightarrow> (Ok \<lparr>fh_path = p, fh_reader = file_reader bs []\<rparr>, s)
           | sc # scs \<Rightarrow> (Ok \<lparr>fh_path = p, fh_reader = file_reader bs sc\<rparr>, s\<lparr>fs_scripts := scs\<rparr>))
      | DirNode \<Rightarrow>
          (Ok \<lparr>fh_path = p, fh_reader = file_reader [] [ReadFault (errno EISDIR)]\<rparr>, s)
      | SymlinkNode _ \<Rightarrow> (Err (errno ELOOP), s)
      | SocketNode \<Rightarrow> (Err (errno ENXIO), s))"

definition file_open :: "path \<Rightarrow> file_handle syscall" where
  "file_open p = syscall (\<lambda>s.
     (case resolve LINK_LIMIT s p of Err e \<Rightarrow> (Err e, s) | Ok (q, n) \<Rightarrow> open_node q n s))"

definition sync_all :: "file_handle \<Rightarrow> unit syscall" where
  "sync_all h = syscall (\<lambda>s. (Ok (), record_event (SyncDir (fh_path h)) s))"

definition fs_remove_file :: "path \<Rightarrow> unit syscall" where
  "fs_remove_file p = syscall (\<lambda>s.
     (case entry s p of
        None \<Rightarrow> (Err (errno ENOENT), s)
      | Some DirNode \<Rightarrow> (Err (errno EISDIR), s)
      | Some _ \<Rightarrow> (Ok (), record_event (Update [(p, None)]) s)))"

definition fs_create_dir :: "path \<Rightarrow> unit syscall" where
  "fs_create_dir p = syscall (\<lambda>s.
     (case entry s p of
        Some _ \<Rightarrow> (Err (errno EEXIST), s)
      | None \<Rightarrow>
          (case resolve LINK_LIMIT s (dir_part p) of
             Ok (_, DirNode) \<Rightarrow> (Ok (), record_event (Update [(p, Some DirNode)]) s)
           | _ \<Rightarrow> (Err (errno ENOENT), s))))"

definition current_dir :: "path syscall" where
  "current_dir = syscall (\<lambda>s.
     (case fs_cwd s of None \<Rightarrow> Err (errno ENOENT) | Some d \<Rightarrow> Ok d, s))"

section \<open>How a log grows\<close>

text \<open>A later state extends the log of an earlier one; every suffix in between is a state in which an
  interruption can stop the process.\<close>

definition grows :: "fs \<Rightarrow> fs \<Rightarrow> bool" where
  "grows s s' \<longleftrightarrow> fs_base s' = fs_base s \<and> suffix (fs_log s) (fs_log s')"

definition interrupted :: "fs \<Rightarrow> fs \<Rightarrow> fs_event list \<Rightarrow> bool" where
  "interrupted s s' evs \<longleftrightarrow> suffix (fs_log s) evs \<and> suffix evs (fs_log s')"

lemma grows_refl [simp, intro]: "grows s s"
  by (simp add: grows_def)

lemma grows_trans [trans]: "grows s s' \<Longrightarrow> grows s' s'' \<Longrightarrow> grows s s''"
  unfolding grows_def using suffix_order.trans by metis

lemma grows_record [simp, intro]: "grows s (record_event ev s)"
  by (auto simp: grows_def record_event_def suffix_ConsI)

text \<open>The updates an observer of the paths in \<open>V\<close> sees.\<close>

fun visible_updates :: "(path \<Rightarrow> bool) \<Rightarrow> fs_event list \<Rightarrow> (path \<times> node option) list list" where
  "visible_updates V [] = []"
| "visible_updates V (Update us # evs) =
     (let seen = filter (\<lambda>(p, _). V p) us
      in if seen = [] then visible_updates V evs else seen # visible_updates V evs)"
| "visible_updates V (SyncDir d # evs) = visible_updates V evs"

definition visible :: "(path \<Rightarrow> bool) \<Rightarrow> fs \<Rightarrow> (path \<times> node option) list list" where
  "visible V s = visible_updates V (fs_log s)"

lemma visible_append: "visible_updates V (e1 @ e2) = visible_updates V e1 @ visible_updates V e2"
  by (induction V e1 rule: visible_updates.induct) (auto simp: Let_def)

lemma map_of_filter_fst: "V p \<Longrightarrow> map_of (filter (\<lambda>(p, _). V p) us) p = map_of us p"
  by (induction us) auto

text \<open>An observer of \<open>V\<close> cannot tell apart two logs with the same visible updates.\<close>

lemma entry_visible:
  "V p \<Longrightarrow> entry_at base evs p = entry_at base (map Update (visible_updates V evs)) p"
proof (induction V evs rule: visible_updates.induct)
  case (2 V us evs)
  have m: "map_of (filter (\<lambda>(p, _). V p) us) p = map_of us p"
    by (rule map_of_filter_fst [of V]) (rule 2)
  from m have e: "filter (\<lambda>(p, _). V p) us = [] \<Longrightarrow> map_of us p = None" by simp
  from 2 show ?case
    by (cases "filter (\<lambda>(p, _). V p) us = []") (auto simp: Let_def m e split: option.splits)
qed simp_all

lemma same_visible_entry:
  assumes "V p" "visible_updates V a = visible_updates V b"
  shows "entry_at base a p = entry_at base b p"
  using entry_visible [where V = V, OF assms(1), of base a] entry_visible [where V = V, OF assms(1), of base b] assms(2) by simp

lemma more_visible_entry:
  assumes "V p" "visible_updates V a = us # visible_updates V b"
  shows "entry_at base a p = (case map_of us p of Some v \<Rightarrow> v | None \<Rightarrow> entry_at base b p)"
  using entry_visible [where V = V, OF assms(1), of base a] entry_visible [where V = V, OF assms(1), of base b] assms(2)
  by (simp split: option.split)

definition quiet :: "(path \<Rightarrow> bool) \<Rightarrow> fs \<Rightarrow> fs \<Rightarrow> bool" where
  "quiet V s s' \<longleftrightarrow> grows s s' \<and> visible V s' = visible V s"

definition installs :: "(path \<Rightarrow> bool) \<Rightarrow> (path \<times> node option) list \<Rightarrow> fs \<Rightarrow> fs \<Rightarrow> bool" where
  "installs V us s s' \<longleftrightarrow> grows s s' \<and> visible V s' = us # visible V s"

lemma quiet_refl [simp, intro]: "quiet V s s"
  by (simp add: quiet_def)

lemma quiet_trans [trans]: "quiet V s s' \<Longrightarrow> quiet V s' s'' \<Longrightarrow> quiet V s s''"
  by (auto simp: quiet_def intro: grows_trans)

lemma quiet_installs [trans]: "quiet V s s' \<Longrightarrow> installs V us s' s'' \<Longrightarrow> installs V us s s''"
  by (auto simp: quiet_def installs_def intro: grows_trans)

lemma installs_quiet [trans]: "installs V us s s' \<Longrightarrow> quiet V s' s'' \<Longrightarrow> installs V us s s''"
  by (auto simp: quiet_def installs_def intro: grows_trans)

lemma quiet_frame [simp, intro]:
  "quiet V s (s\<lparr>fs_faults := f\<rparr>)" "quiet V s (s\<lparr>fs_scripts := sc\<rparr>)" "quiet V s (s\<lparr>fs_random := r\<rparr>)"
  by (simp_all add: quiet_def grows_def visible_def)

lemma quiet_sync [simp, intro]: "quiet V s (record_event (SyncDir d) s)"
  unfolding quiet_def by (simp add: visible_def record_event_def grows_record [unfolded record_event_def])

lemma quiet_update: "\<forall>(p, v) \<in> set us. \<not> V p \<Longrightarrow> quiet V s (record_event (Update us) s)"
  unfolding quiet_def
  by (auto simp: visible_def record_event_def Let_def filter_empty_conv grows_record [unfolded record_event_def])

lemma installs_update:
  "filter (\<lambda>(p, _). V p) us = us' \<Longrightarrow> us' \<noteq> [] \<Longrightarrow> installs V us' s (record_event (Update us) s)"
  unfolding installs_def
  by (auto simp: visible_def record_event_def Let_def grows_record [unfolded record_event_def])

lemma quiet_entry:
  assumes "quiet V s s'" "V p"
  shows "entry s' p = entry s p"
  using assms same_visible_entry [where V = V, of p "fs_log s'" "fs_log s"]
  by (simp add: quiet_def grows_def visible_def entry_def)

lemma installs_entry:
  assumes "installs V us s s'" "V p"
  shows "entry s' p = (case map_of us p of Some v \<Rightarrow> v | None \<Rightarrow> entry s p)"
  using assms more_visible_entry [where V = V, of p "fs_log s'" us "fs_log s"]
  by (simp add: installs_def grows_def visible_def entry_def split: option.split)

text \<open>Interruption: a state in between shows the entries before or after.\<close>

lemma suffix_visible: "suffix e1 e2 \<Longrightarrow> suffix (visible_updates V e1) (visible_updates V e2)"
  by (auto simp: suffix_def visible_append)

lemma between_one_step:
  assumes "suffix xs ys" "suffix ys (u # xs)"
  shows "ys = xs \<or> ys = u # xs"
  using assms by (auto simp: suffix_Cons dest: suffix_order.antisym)

lemma interrupted_installs:
  assumes "installs V us s s'" "interrupted s s' evs" "V p"
  shows "entry_at (fs_base s) evs p = entry s p \<or> entry_at (fs_base s) evs p = entry s' p"
proof -
  have "visible_updates V evs = visible V s \<or> visible_updates V evs = us # visible V s"
    using assms(1,2) suffix_visible [of "fs_log s" evs V] suffix_visible [of evs "fs_log s'" V]
    by (intro between_one_step) (simp_all add: installs_def interrupted_def visible_def)
  then show ?thesis
    using assms(1,3) same_visible_entry [where V = V, of p evs "fs_log s"]
      same_visible_entry [where V = V, of p evs "fs_log s'"]
    by (auto simp: installs_def visible_def entry_def grows_def)
qed

lemma interrupted_quiet:
  assumes "quiet V s s'" "interrupted s s' evs" "V p"
  shows "entry_at (fs_base s) evs p = entry s p"
proof -
  have "visible_updates V evs = visible V s"
    using assms(1,2) suffix_visible [of "fs_log s" evs V] suffix_visible [of evs "fs_log s'" V]
    by (auto simp: quiet_def interrupted_def visible_def dest: suffix_order.antisym)
  then show ?thesis
    using assms(3) same_visible_entry [where V = V, of p evs "fs_log s"]
    by (simp add: visible_def entry_def)
qed

text \<open>Power loss: no entry appears that was not there or installed since.\<close>

lemma crash_append:
  "V p \<Longrightarrow> set (crash_values base (ext @ evs) p) \<subseteq>
     set (crash_values base evs p) \<union> {v. \<exists>us \<in> set (visible_updates V ext). map_of us p = Some v}"
proof (induction V ext rule: visible_updates.induct)
  case (2 V us ext)
  have m: "map_of (filter (\<lambda>(p, _). V p) us) p = map_of us p"
    by (rule map_of_filter_fst [of V]) (rule 2)
  from m have e: "filter (\<lambda>(p, _). V p) us = [] \<Longrightarrow> map_of us p = None" by simp
  from 2 show ?case
    by (cases "filter (\<lambda>(p, _). V p) us = []") (auto simp: Let_def m e split: option.splits)
next
  case (3 V d ext)
  then show ?case using entry_in_crash [of base "ext @ evs" p] by auto
qed simp

lemma power_loss_quiet:
  assumes "quiet V s s'" "V p"
  shows "after_power_loss s' p \<subseteq> after_power_loss s p"
proof -
  obtain ext where ext: "fs_log s' = ext @ fs_log s" using assms(1) by (auto simp: quiet_def grows_def suffix_def)
  have "visible_updates V ext = []"
    using assms(1) ext by (simp add: quiet_def visible_def visible_append)
  with crash_append [where V = V, of p "fs_base s" ext "fs_log s"] assms ext show ?thesis
    by (auto simp: after_power_loss_def quiet_def grows_def)
qed

lemma power_loss_installs:
  assumes "installs V us s s'" "V p"
  shows "after_power_loss s' p \<subseteq> insert (entry s' p) (after_power_loss s p)"
proof -
  obtain ext where ext: "fs_log s' = ext @ fs_log s"
    using assms(1) by (auto simp: installs_def grows_def suffix_def)
  have "visible_updates V ext = [us]"
    using assms(1) ext by (simp add: installs_def visible_def visible_append append_eq_Cons_conv)
  with crash_append [where V = V, of p "fs_base s" ext "fs_log s"] assms ext show ?thesis
    by (auto simp: after_power_loss_def installs_def grows_def installs_entry [OF assms])
qed

text \<open>A synchronized entry is the only one a power loss can leave.\<close>

lemma power_loss_synced:
  "dir_part p = d \<Longrightarrow> after_power_loss (record_event (SyncDir d) s) p = {entry s p}"
  by (simp add: after_power_loss_def record_event_def entry_def)

section \<open>Effects of the calls\<close>

text \<open>What a call does after the fault script: nothing, or the action in a state with the same
  entries.\<close>

lemma syscall_cases:
  assumes "syscall act s = (r, s')"
  obtains (fault) c where "r = Err (errno (fault_code c))" "quiet V s s'"
  | (call) f where "act (s\<lparr>fs_faults := f\<rparr>) = (r, s')"
  using assms by (auto simp: syscall_def split: list.splits option.splits)
    (metis (no_types, lifting) fs.surjective fs.update_convs(4))

lemma syscall_quiet:
  assumes "syscall act s = (r, s')"
    and "\<And>f. act (s\<lparr>fs_faults := f\<rparr>) = (r, s') \<Longrightarrow> quiet V (s\<lparr>fs_faults := f\<rparr>) s'"
  shows "quiet V s s'"
  using assms(1)
proof (cases rule: syscall_cases [where V = V])
  case (call f)
  from quiet_trans [OF quiet_frame(1) assms(2) [OF call]] show ?thesis .
qed

lemma resolve_cong: "entry s' = entry s \<Longrightarrow> resolve fuel s' p = resolve fuel s p"
proof (induction fuel s p rule: resolve.induct)
  case (1 fuel s p)
  then show ?case
    by (subst (1 2) resolve.simps) (auto split: option.splits node.splits nat.splits)
qed

lemma resolve_frame [simp]: "resolve fuel (s\<lparr>fs_faults := f\<rparr>) p = resolve fuel s p"
  by (rule resolve_cong) simp

named_theorems quiet_calls "calls that change no entry"

lemma fs_metadata_quiet [quiet_calls]: "fs_metadata p s = (r, s') \<Longrightarrow> quiet V s s'"
  unfolding fs_metadata_def by (erule syscall_quiet) auto

lemma fs_symlink_metadata_quiet [quiet_calls]: "fs_symlink_metadata p s = (r, s') \<Longrightarrow> quiet V s s'"
  unfolding fs_symlink_metadata_def by (erule syscall_quiet) auto

lemma open_node_quiet: "open_node p n s = (r, s') \<Longrightarrow> quiet V s s'"
  by (auto simp: open_node_def split: node.splits list.splits)

lemma file_open_quiet [quiet_calls]: "file_open p s = (r, s') \<Longrightarrow> quiet V s s'"
  unfolding file_open_def
  by (erule syscall_quiet) (auto split: sum.splits prod.splits dest: open_node_quiet)

lemma sync_all_quiet [quiet_calls]: "sync_all h s = (r, s') \<Longrightarrow> quiet V s s'"
  unfolding sync_all_def by (erule syscall_quiet) auto

lemma current_dir_quiet [quiet_calls]: "current_dir s = (r, s') \<Longrightarrow> quiet V s s'"
  unfolding current_dir_def by (erule syscall_quiet) auto

text \<open>What their results say about the entries.\<close>

lemma fs_metadata_Ok:
  "fs_metadata p s = (Ok m, s') \<Longrightarrow> \<exists>q n. resolve LINK_LIMIT s p = Ok (q, n) \<and> m = node_metadata n"
  unfolding fs_metadata_def
  by (erule syscall_cases [where V = "\<lambda>_. True"]) (auto split: sum.splits)

lemma fs_metadata_NotFound:
  "fs_metadata p s = (Err e, s') \<Longrightarrow> io_kind e = NotFound \<Longrightarrow> \<exists>e'. resolve LINK_LIMIT s p = Err e'"
  unfolding fs_metadata_def
  by (erule syscall_cases [where V = "\<lambda>_. True"]) (auto split: sum.splits)

lemma fs_symlink_metadata_Ok:
  "fs_symlink_metadata p s = (Ok m, s') \<Longrightarrow> \<exists>n. entry s p = Some n \<and> m = node_metadata n"
  unfolding fs_symlink_metadata_def
  by (erule syscall_cases [where V = "\<lambda>_. True"]) (auto split: option.splits)

lemma fs_symlink_metadata_NotFound:
  "fs_symlink_metadata p s = (Err e, s') \<Longrightarrow> io_kind e = NotFound \<Longrightarrow> entry s p = None"
  unfolding fs_symlink_metadata_def
  by (erule syscall_cases [where V = "\<lambda>_. True"]) (auto split: option.splits)

lemma resolve_file:
  "entry s p = Some (FileNode bs t) \<Longrightarrow> resolve fuel s p = Ok (p, FileNode bs t)"
  by (simp add: resolve.simps)

lemma resolve_dir: "entry s p = Some DirNode \<Longrightarrow> resolve fuel s p = Ok (p, DirNode)"
  by (simp add: resolve.simps)

lemma resolve_absent: "entry s p = None \<Longrightarrow> resolve fuel s p = Err (errno ENOENT)"
  by (simp add: resolve.simps)

text \<open>Opening a regular file gives a reader over its content; the answers of its reads are the next
  script.\<close>

lemma file_open_file:
  assumes "file_open p s = (Ok h, s')" "entry s p = Some (FileNode bs t)"
  shows "fh_path h = p \<and> rd_content (fh_reader h) = bs \<and> rd_pos (fh_reader h) = 0
    \<and> rd_script (fh_reader h) \<in> insert [] (set (fs_scripts s))"
  using assms unfolding file_open_def
  by (auto elim!: syscall_cases [where V = "\<lambda>_. True"] split: list.splits
      simp: resolve_file open_node_def file_reader_def)

lemma file_open_NotFound:
  "file_open p s = (Err e, s') \<Longrightarrow> io_kind e = NotFound \<Longrightarrow> \<exists>e'. resolve LINK_LIMIT s p = Err e'"
  unfolding file_open_def
  by (erule syscall_cases [where V = "\<lambda>_. True"])
     (auto simp: open_node_def split: sum.splits prod.splits node.splits list.splits)

lemma fs_remove_file_Ok:
  assumes "fs_remove_file p s = (Ok u, s')" "V p"
  shows "(\<exists>n. entry s p = Some n \<and> n \<noteq> DirNode) \<and> installs V [(p, None)] s s'"
  using assms(1) unfolding fs_remove_file_def
proof (cases rule: syscall_cases [where V = V])
  case (call f)
  then obtain n where "entry s p = Some n" "n \<noteq> DirNode"
    and s': "s' = record_event (Update [(p, None)]) (s\<lparr>fs_faults := f\<rparr>)"
    by (auto split: option.splits node.splits)
  moreover have "installs V [(p, None)] (s\<lparr>fs_faults := f\<rparr>) s'"
    unfolding s' by (rule installs_update) (use assms(2) in simp_all)
  ultimately show ?thesis using quiet_installs [OF quiet_frame(1)] by blast
qed simp

lemma fs_remove_file_Err:
  "fs_remove_file p s = (Err e, s') \<Longrightarrow>
     quiet V s s' \<and> (io_kind e = NotFound \<longrightarrow> entry s p = None)"
  unfolding fs_remove_file_def
  by (erule syscall_cases [where V = V]) (auto split: option.splits node.splits)

lemma fs_create_dir_Ok:
  assumes "fs_create_dir p s = (Ok u, s')" "V p"
  shows "entry s p = None \<and> installs V [(p, Some DirNode)] s s'"
  using assms(1) unfolding fs_create_dir_def
proof (cases rule: syscall_cases [where V = V])
  case (call f)
  then have n: "entry s p = None"
    and s': "s' = record_event (Update [(p, Some DirNode)]) (s\<lparr>fs_faults := f\<rparr>)"
    by (auto split: option.splits sum.splits prod.splits node.splits)
  moreover have "installs V [(p, Some DirNode)] (s\<lparr>fs_faults := f\<rparr>) s'"
    unfolding s' by (rule installs_update) (use assms(2) in simp_all)
  ultimately show ?thesis using quiet_installs [OF quiet_frame(1)] by blast
qed simp

lemma fs_create_dir_Err:
  "fs_create_dir p s = (Err e, s') \<Longrightarrow>
     quiet V s s' \<and> (io_kind e = AlreadyExists \<longrightarrow> entry s p \<noteq> None)"
  unfolding fs_create_dir_def
  by (erule syscall_cases [where V = V])
     (auto split: option.splits sum.splits prod.splits node.splits)

lemma sync_all_Ok:
  assumes "sync_all h s = (Ok u, s')" "dir_part p = fh_path h"
  shows "after_power_loss s' p = {entry s p}"
  using assms unfolding sync_all_def
  by (auto elim!: syscall_cases [where V = "\<lambda>_. True"] simp: power_loss_synced)

end
