(* ===== verification/UnixApi.thy ===== *)
theory UnixApi
  imports FileSystem
begin

text \<open>
  The crates behind the Unix operations: \<open>atomic-write-file\<close> (open, write, commit, drop of a writer that
  stages its bytes in the target's directory under a name of its own), \<open>rustix\<close> (rename that does not
  replace) and \<open>getrandom\<close>. They are a record of parameters; the locale states what their documentation
  promises and the store relies on. The interpretation at the end is a temporary file and a rename.
\<close>

section \<open>Interface\<close>

text \<open>The name behind the last separator. The staging names of the writer are private: in the target's
  directory, beginning with a dot.\<close>

definition base_part :: "path \<Rightarrow> string" where
  "base_part p = rev (takeWhile (\<lambda>c. c \<noteq> CHR ''/'') (rev p))"

definition staging_path :: "path \<Rightarrow> path \<Rightarrow> bool" where
  "staging_path dest p \<longleftrightarrow> dir_part p = dir_part dest \<and> take 1 (base_part p) = ''.''"

definition observable :: "path \<Rightarrow> path \<Rightarrow> bool" where
  "observable dest p \<longleftrightarrow> p = dest \<or> \<not> staging_path dest p"

record 'w unix_lib =
  awf_open :: "nat \<Rightarrow> bool \<Rightarrow> bool \<Rightarrow> path \<Rightarrow> 'w syscall"
  awf_write_all :: "('w \<times> fs) write_all"
  awf_commit :: "'w \<Rightarrow> unit syscall"
  awf_drop :: "'w \<Rightarrow> fs \<Rightarrow> fs"
  rename_noreplace :: "path \<Rightarrow> path \<Rightarrow> fs \<Rightarrow> (nat, unit) result \<times> fs"
  getrandom_fill :: "nat \<Rightarrow> fs \<Rightarrow> (getrandom_error, bytes) result \<times> fs"

locale unix_api =
  fixes U :: "'w unix_lib" and staged :: "'w \<Rightarrow> bytes" and target :: "'w \<Rightarrow> path"
  assumes open_Ok: "awf_open U mode pm po p s = (Ok w, s') \<Longrightarrow>
      quiet (observable p) s s' \<and> staged w = [] \<and> target w = p"
    and open_Err: "awf_open U mode pm po p s = (Err e, s') \<Longrightarrow> quiet (observable p) s s'"
    and write_quiet: "awf_write_all U bs (w, s) = (r, w', s') \<Longrightarrow>
      quiet (observable (target w)) s s' \<and> target w' = target w"
    and write_Ok: "awf_write_all U bs (w, s) = (Ok u, w', s') \<Longrightarrow> staged w' = staged w @ bs"
    and write_Err: "awf_write_all U bs (w, s) = (Err e, w', s') \<Longrightarrow> \<exists>k. staged w' = staged w @ take k bs"
    and commit_Ok: "awf_commit U w s = (Ok u, s') \<Longrightarrow>
      \<exists>t. installs (observable (target w)) [(target w, Some (FileNode (staged w) t))] s s'"
    and commit_Err: "awf_commit U w s = (Err e, s') \<Longrightarrow>
      quiet (observable (target w)) s s'
      \<or> (\<exists>t. installs (observable (target w)) [(target w, Some (FileNode (staged w) t))] s s')"
    and drop_quiet: "quiet (observable (target w)) s (awf_drop U w s)"
    and rename_Ok: "rename_noreplace U p q s = (Ok u, s') \<Longrightarrow>
      \<exists>n. entry s p = Some n \<and> entry s q = None
        \<and> installs (\<lambda>_. True) [(q, Some n), (p, None)] s s'"
    and rename_Err: "rename_noreplace U p q s = (Err c, s') \<Longrightarrow>
      quiet (\<lambda>_. True) s s'
      \<and> (c = ENOENT \<longrightarrow> entry s p = None \<or> entry s (dir_part q) = None)
      \<and> (c = EEXIST \<longrightarrow> entry s q \<noteq> None)"
    and fill_Ok: "getrandom_fill U n s = (Ok bs, s') \<Longrightarrow> length bs = n"
    and fill_quiet: "getrandom_fill U n s = (g, s') \<Longrightarrow> quiet (\<lambda>_. True) s s'"
begin

lemma writer_sink: "byte_sink (awf_write_all U) (\<lambda>(w, s). staged w)"
proof
  fix bs ws u ws'
  assume "awf_write_all U bs ws = (Ok u, ws')"
  then show "(case ws' of (w, s) \<Rightarrow> staged w) = (case ws of (w, s) \<Rightarrow> staged w) @ bs"
    by (cases ws; cases ws') (simp add: write_Ok)
next
  fix bs ws e ws'
  assume "awf_write_all U bs ws = (Err e, ws')"
  then show "\<exists>k. (case ws' of (w, s) \<Rightarrow> staged w) = (case ws of (w, s) \<Rightarrow> staged w) @ take k bs"
    by (cases ws; cases ws') (simp add: write_Err)
qed

end

sublocale unix_api \<subseteq> writer: byte_sink "awf_write_all U" "\<lambda>(w, s). staged w"
  by (rule writer_sink)

text \<open>A quiet run of every path is quiet for any observer.\<close>

lemma visible_filter_nil:
  "visible_updates (\<lambda>_. True) evs = [] \<Longrightarrow> visible_updates V evs = []"
  by (induction V evs rule: visible_updates.induct) (auto simp: Let_def split: if_splits)

lemma quiet_all:
  assumes "quiet (\<lambda>_. True) s s'"
  shows "quiet V s s'"
proof -
  obtain ext where ext: "fs_log s' = ext @ fs_log s"
    using assms by (auto simp: quiet_def grows_def suffix_def)
  with assms have "visible_updates (\<lambda>_. True) ext = []"
    by (simp add: quiet_def visible_def visible_append)
  from visible_filter_nil [OF this, of V] assms ext show ?thesis
    by (simp add: quiet_def visible_def visible_append)
qed

section \<open>A temporary file and a rename\<close>

record temp_writer =
  tw_target :: path
  tw_bytes :: bytes

definition temp_path :: "path \<Rightarrow> path" where
  "temp_path p = take (length p - length (base_part p)) p @ ''.'' @ base_part p @ ''.tmp''"

definition temp_open :: "path \<Rightarrow> temp_writer syscall" where
  "temp_open p = syscall (\<lambda>s.
     if entry s (temp_path p) \<noteq> None then (Err (errno EEXIST), s)
     else if entry s (dir_part p) \<noteq> Some DirNode then (Err (errno ENOENT), s)
     else (Ok \<lparr>tw_target = p, tw_bytes = []\<rparr>,
           record_event (Update [(temp_path p, Some (FileNode [] None))]) s))"

definition temp_write :: "(temp_writer \<times> fs) write_all" where
  "temp_write bs ws =
     (case ws of (w, s) \<Rightarrow>
        (case syscall (\<lambda>s. (Ok (), s)) s of
           (Err e, s) \<Rightarrow> (Err e, w, s)
         | (Ok _, s) \<Rightarrow>
             (let w = w\<lparr>tw_bytes := tw_bytes w @ bs\<rparr>
              in (Ok (), w, record_event
                   (Update [(temp_path (tw_target w), Some (FileNode (tw_bytes w) None))]) s))))"

definition temp_drop :: "temp_writer \<Rightarrow> fs \<Rightarrow> fs" where
  "temp_drop w s = record_event (Update [(temp_path (tw_target w), None)]) s"

definition temp_commit :: "temp_writer \<Rightarrow> unit syscall" where
  "temp_commit w s =
     (case syscall (\<lambda>s. (Ok (), s)) s of
        (Err e, s) \<Rightarrow> (Err e, temp_drop w s)
      | (Ok _, s) \<Rightarrow>
          syscall (\<lambda>s. (Ok (), record_event (SyncDir (dir_part (tw_target w))) s))
            (record_event (Update [(tw_target w, Some (FileNode (tw_bytes w) None)),
                                   (temp_path (tw_target w), None)]) s))"

definition temp_rename :: "path \<Rightarrow> path \<Rightarrow> fs \<Rightarrow> (nat, unit) result \<times> fs" where
  "temp_rename p q s =
     (case fs_faults s of
        Some c # faults \<Rightarrow> (Err (fault_code c), s\<lparr>fs_faults := faults\<rparr>)
      | faults \<Rightarrow>
          (let s = s\<lparr>fs_faults := drop 1 faults\<rparr>
           in case entry s p of
                None \<Rightarrow> (Err ENOENT, s)
              | Some n \<Rightarrow>
                  if entry s q \<noteq> None then (Err EEXIST, s)
                  else (Ok (), record_event (Update [(q, Some n), (p, None)]) s)))"

definition temp_fill :: "nat \<Rightarrow> fs \<Rightarrow> (getrandom_error, bytes) result \<times> fs" where
  "temp_fill n s =
     (case fs_random s of
        [] \<Rightarrow> (Err 0, s)
      | Err e # rs \<Rightarrow> (Err e, s\<lparr>fs_random := rs\<rparr>)
      | Ok bs # rs \<Rightarrow> (if length bs = n then Ok bs else Err 0, s\<lparr>fs_random := rs\<rparr>))"

definition temp_lib :: "temp_writer unix_lib" where
  "temp_lib = \<lparr>awf_open = (\<lambda>_ _ _. temp_open), awf_write_all = temp_write, awf_commit = temp_commit,
     awf_drop = temp_drop, rename_noreplace = temp_rename, getrandom_fill = temp_fill\<rparr>"

lemma base_part_no_slash: "CHR ''/'' \<notin> set (base_part p)"
  by (auto simp: base_part_def dest: set_takeWhileD)

lemma base_dir_split: "take (length p - length (base_part p)) p @ base_part p = p"
proof -
  have "rev p = takeWhile (\<lambda>c. c \<noteq> CHR ''/'') (rev p) @ dropWhile (\<lambda>c. c \<noteq> CHR ''/'') (rev p)"
    by simp
  then have "p = rev (dropWhile (\<lambda>c. c \<noteq> CHR ''/'') (rev p)) @ base_part p"
    unfolding base_part_def by (metis rev_append rev_rev_ident)
  then show ?thesis by (metis append_eq_conv_conj diff_add_inverse2 length_append)
qed

lemma prefix_ends_in_slash:
  "take (length p - length (base_part p)) p = rev (dropWhile (\<lambda>c. c \<noteq> CHR ''/'') (rev p))"
proof -
  have "p = rev (dropWhile (\<lambda>c. c \<noteq> CHR ''/'') (rev p)) @ base_part p"
    unfolding base_part_def by (metis rev_append rev_rev_ident takeWhile_dropWhile_id)
  then show ?thesis by (metis append_eq_conv_conj diff_add_inverse2 length_append)
qed

lemma parts_of_temp:
  "dir_part (temp_path p) = dir_part p" "base_part (temp_path p) = ''.'' @ base_part p @ ''.tmp''"
proof -
  let ?pre = "rev (dropWhile (\<lambda>c. c \<noteq> CHR ''/'') (rev p))"
  let ?new = "''.'' @ base_part p @ ''.tmp''"
  have t: "temp_path p = ?pre @ ?new" by (simp add: temp_path_def prefix_ends_in_slash)
  have n: "CHR ''/'' \<notin> set ?new" using base_part_no_slash [of p] by auto
  have hd: "?pre = [] \<or> hd (rev ?pre) = CHR ''/''"
    using hd_dropWhile [of "\<lambda>c. c \<noteq> CHR ''/''" "rev p"] by auto
  have all: "\<And>c. c \<in> set (rev ?new) \<Longrightarrow> c \<noteq> CHR ''/''" using n by auto
  have d: "dropWhile (\<lambda>c. c \<noteq> CHR ''/'') (rev (temp_path p)) = rev ?pre"
    and k: "takeWhile (\<lambda>c. c \<noteq> CHR ''/'') (rev (temp_path p)) = rev ?new"
    unfolding t rev_append using hd all
    by (subst dropWhile_append2 takeWhile_append2; auto simp: dropWhile_eq_self_iff takeWhile_eq_Nil_iff)+
  show "base_part (temp_path p) = ?new" unfolding base_part_def k by simp
  show "dir_part (temp_path p) = dir_part p"
    unfolding dir_part_def d by simp
qed

lemma temp_staging: "staging_path p (temp_path p)"
  by (simp add: staging_path_def parts_of_temp)

lemma not_observable_temp [simp]: "\<not> observable p (temp_path p)"
proof -
  have "base_part (temp_path p) \<noteq> base_part p" by (simp add: parts_of_temp)
  then show ?thesis by (auto simp: observable_def temp_staging)
qed

lemma observable_self [simp]: "observable p p"
  by (simp add: observable_def)

lemma temp_update_quiet: "quiet (observable p) s (record_event (Update [(temp_path p, v)]) s)"
  by (rule quiet_update) simp

lemma temp_open_quiet: "temp_open p s = (r, s') \<Longrightarrow> quiet (observable p) s s'"
  unfolding temp_open_def
  by (erule syscall_quiet) (auto split: if_splits simp: temp_update_quiet)

lemma temp_open_Ok: "temp_open p s = (Ok w, s') \<Longrightarrow> tw_bytes w = [] \<and> tw_target w = p"
  unfolding temp_open_def
  by (erule syscall_cases [where V = "\<lambda>_. True"]) (auto split: if_splits)

lemma temp_write_cases:
  assumes "temp_write bs (w, s) = (r, w', s')"
  shows "quiet (observable (tw_target w)) s s' \<and> tw_target w' = tw_target w
    \<and> tw_bytes w' = (case r of Ok _ \<Rightarrow> tw_bytes w @ bs | Err _ \<Rightarrow> tw_bytes w)"
proof -
  obtain a s1 where call: "syscall (\<lambda>s. (Ok (), s)) s = (a :: unit io_result, s1)" by fastforce
  have q: "quiet (observable (tw_target w)) s s1"
    using call by (rule syscall_quiet) auto
  show ?thesis
    using assms call quiet_trans [OF q temp_update_quiet] q
    by (cases a) (auto simp: temp_write_def Let_def)
qed

lemma temp_drop_quiet: "quiet (observable (tw_target w)) s (temp_drop w s)"
  by (simp add: temp_drop_def temp_update_quiet)

lemma temp_commit_run:
  assumes "temp_commit w s = (r, s')"
  obtains (before) "quiet (observable (tw_target w)) s s'" "\<exists>e. r = Err e"
  | (after) s1 s2 f where "quiet (observable (tw_target w)) s s1"
      "s2 = record_event (Update [(tw_target w, Some (FileNode (tw_bytes w) None)),
                                   (temp_path (tw_target w), None)]) s1"
      "installs (observable (tw_target w)) [(tw_target w, Some (FileNode (tw_bytes w) None))] s s2"
      "quiet (observable (tw_target w)) s2 s'"
      "r = Ok () \<longrightarrow> s' = record_event (SyncDir (dir_part (tw_target w))) (s2\<lparr>fs_faults := f\<rparr>)"
proof -
  let ?V = "observable (tw_target w)"
  obtain a s1 where call: "syscall (\<lambda>s. (Ok (), s)) s = (a :: unit io_result, s1)" by fastforce
  have q: "quiet ?V s s1" using call by (rule syscall_quiet) auto
  show thesis
  proof (cases a)
    case (Inl e)
    with assms call have "r = Err e" "s' = temp_drop w s1" by (auto simp: temp_commit_def)
    with quiet_trans [OF q temp_drop_quiet] show thesis by (intro before) auto
  next
    case (Inr u)
    let ?us = "[(tw_target w, Some (FileNode (tw_bytes w) None)), (temp_path (tw_target w), None)]"
    let ?s2 = "record_event (Update ?us) s1"
    from Inr assms call have fin:
      "syscall (\<lambda>s. (Ok (), record_event (SyncDir (dir_part (tw_target w))) s)) ?s2 = (r, s')"
      by (simp add: temp_commit_def)
    have i: "installs ?V [(tw_target w, Some (FileNode (tw_bytes w) None))] s1 ?s2"
      by (rule installs_update) simp_all
    have q2: "quiet ?V ?s2 s'" using fin by (rule syscall_quiet) auto
    obtain f where
      "r = Ok () \<longrightarrow> s' = record_event (SyncDir (dir_part (tw_target w))) (?s2\<lparr>fs_faults := f\<rparr>)"
      using fin by (cases rule: syscall_cases [where V = ?V]) auto
    with after [OF q refl quiet_installs [OF q i] q2] show thesis by blast
  qed
qed

lemma temp_commit_cases:
  "temp_commit w s = (r, s') \<Longrightarrow> (quiet (observable (tw_target w)) s s' \<and> (\<exists>e. r = Err e))
    \<or> installs (observable (tw_target w)) [(tw_target w, Some (FileNode (tw_bytes w) None))] s s'"
  by (erule temp_commit_run) (auto intro: installs_quiet)

lemma temp_rename_cases:
  assumes "temp_rename p q s = (r, s')"
  shows "case r of
      Ok _ \<Rightarrow> \<exists>n. entry s p = Some n \<and> entry s q = None
          \<and> installs (\<lambda>_. True) [(q, Some n), (p, None)] s s'
    | Err c \<Rightarrow> quiet (\<lambda>_. True) s s' \<and> (c = ENOENT \<longrightarrow> entry s p = None)
          \<and> (c = EEXIST \<longrightarrow> entry s q \<noteq> None)"
proof -
  have call: "installs (\<lambda>_. True) [(q, Some n), (p, None)] s
      (record_event (Update [(q, Some n), (p, None)]) (s\<lparr>fs_faults := f\<rparr>))" for n f
    by (rule quiet_installs [OF quiet_frame(1) installs_update]) simp_all
  show ?thesis
    using assms
    by (auto simp: temp_rename_def Let_def call errno_defs fault_code_def
        split: list.splits option.splits if_splits)
qed

interpretation temp: unix_api temp_lib tw_bytes tw_target
proof
  fix mode pm po p s w s'
  assume "awf_open temp_lib mode pm po p s = (Ok w, s')"
  then show "quiet (observable p) s s' \<and> tw_bytes w = [] \<and> tw_target w = p"
    using temp_open_Ok temp_open_quiet by (auto simp: temp_lib_def)
next
  fix mode pm po p s e s'
  assume "awf_open temp_lib mode pm po p s = (Err e, s')"
  then show "quiet (observable p) s s'" using temp_open_quiet by (auto simp: temp_lib_def)
next
  fix bs w s r w' s'
  assume "awf_write_all temp_lib bs (w, s) = (r, w', s')"
  then show "quiet (observable (tw_target w)) s s' \<and> tw_target w' = tw_target w"
    using temp_write_cases by (auto simp: temp_lib_def)
next
  fix bs w s u w' s'
  assume "awf_write_all temp_lib bs (w, s) = (Ok u, w', s')"
  then show "tw_bytes w' = tw_bytes w @ bs"
    using temp_write_cases [of bs w s "Ok u" w' s'] by (simp add: temp_lib_def)
next
  fix bs w s e w' s'
  assume "awf_write_all temp_lib bs (w, s) = (Err e, w', s')"
  then show "\<exists>k. tw_bytes w' = tw_bytes w @ take k bs"
    using temp_write_cases [of bs w s "Err e" w' s'] by (auto simp: temp_lib_def intro: exI [of _ 0])
next
  fix w s u s'
  assume "awf_commit temp_lib w s = (Ok u, s')"
  then show "\<exists>t. installs (observable (tw_target w)) [(tw_target w, Some (FileNode (tw_bytes w) t))] s s'"
    using temp_commit_cases [of w s "Ok u" s'] by (auto simp: temp_lib_def)
next
  fix w s e s'
  assume "awf_commit temp_lib w s = (Err e, s')"
  then show "quiet (observable (tw_target w)) s s'
      \<or> (\<exists>t. installs (observable (tw_target w)) [(tw_target w, Some (FileNode (tw_bytes w) t))] s s')"
    using temp_commit_cases [of w s "Err e" s'] by (auto simp: temp_lib_def)
next
  fix w s
  show "quiet (observable (tw_target w)) s (awf_drop temp_lib w s)"
    by (simp add: temp_lib_def temp_drop_quiet)
next
  fix p q s u s'
  assume "rename_noreplace temp_lib p q s = (Ok u, s')"
  then show "\<exists>n. entry s p = Some n \<and> entry s q = None
      \<and> installs (\<lambda>_. True) [(q, Some n), (p, None)] s s'"
    using temp_rename_cases [of p q s "Ok u" s'] by (simp add: temp_lib_def)
next
  fix p q s c s'
  assume "rename_noreplace temp_lib p q s = (Err c, s')"
  then show "quiet (\<lambda>_. True) s s'
      \<and> (c = ENOENT \<longrightarrow> entry s p = None \<or> entry s (dir_part q) = None)
      \<and> (c = EEXIST \<longrightarrow> entry s q \<noteq> None)"
    using temp_rename_cases [of p q s "Err c" s'] by (simp add: temp_lib_def)
next
  fix n s bs s'
  assume "getrandom_fill temp_lib n s = (Ok bs, s')"
  then show "length bs = n"
    by (auto simp: temp_lib_def temp_fill_def split: list.splits sum.splits if_splits)
next
  fix n s g s'
  assume "getrandom_fill temp_lib n s = (g, s')"
  then show "quiet (\<lambda>_. True) s s'"
    by (auto simp: temp_lib_def temp_fill_def split: list.splits sum.splits)
qed

end
