(* ===== verification/BlobFiles.thy ===== *)
theory BlobFiles
  imports UnixApi
begin

text \<open>
  The blob operations on Unix: \<open>src/filesystem/mod.rs\<close> and the loading half of \<open>src/format.rs\<close>, each
  function as a transformer of the file system that returns the result the code returns. The writers,
  the non-replacing rename and the random source are the parameter \<open>U\<close>, the checksum \<open>C\<close>. The stage
  hooks of the test configuration are not part of the model.
\<close>

definition io_err :: "store_operation \<Rightarrow> io_error \<Rightarrow> 'a store_result" where
  "io_err operation source = Err (Io operation source)"

lemma io_err_simps [simp]:
  "io_err operation e = Err e' \<longleftrightarrow> e' = Io operation e" "io_err operation e \<noteq> Ok a"
  by (auto simp: io_err_def)

section \<open>Directories\<close>

definition ensure_namespace_available :: "store_config \<Rightarrow> fs \<Rightarrow> unit store_result \<times> fs" where
  "ensure_namespace_available cfg s =
     (case fs_metadata (cfg_namespace cfg) s of
        (Ok m, s) \<Rightarrow> (if md_type m = IsDir then Ok () else Err NamespacePathIsNotDirectory, s)
      | (Err source, s) \<Rightarrow> (io_err InspectNamespace source, s))"

definition sync_directory ::
  "path \<Rightarrow> store_operation \<Rightarrow> store_operation \<Rightarrow> fs \<Rightarrow> unit store_result \<times> fs" where
  "sync_directory p open_operation sync_operation s =
     (case file_open p s of
        (Err source, s) \<Rightarrow> (io_err open_operation source, s)
      | (Ok directory, s) \<Rightarrow>
          (case sync_all directory s of
             (Err source, s) \<Rightarrow> (io_err sync_operation source, s)
           | (Ok _, s) \<Rightarrow> (Ok (), s)))"

definition initialize_platform ::
  "path \<Rightarrow> path \<Rightarrow> blob_format_identity \<Rightarrow> u64 \<Rightarrow> nat \<Rightarrow> fs \<Rightarrow> store_config store_result \<times> fs" where
  "initialize_platform root namespace_component format maximum max_concurrent_operations s =
   (case (if is_absolute root then (Ok root, s)
          else case current_dir s of
            (Err source, s) \<Rightarrow> (io_err ResolveCurrentDirectory source, s)
          | (Ok current_directory, s) \<Rightarrow> (Ok (path_join current_directory root), s)) of
      (Err e, s) \<Rightarrow> (Err e, s)
    | (Ok root, s) \<Rightarrow>
   case fs_metadata root s of
      (Err source, s) \<Rightarrow>
        (if io_kind source = NotFound then Err RootDoesNotExist else io_err InspectRoot source, s)
    | (Ok m, s) \<Rightarrow>
   if md_type m \<noteq> IsDir then (Err RootIsNotDirectory, s) else
   let namespace = path_join root namespace_component;
       config = \<lparr>cfg_namespace = namespace, cfg_format = format, cfg_maximum = maximum,
                 cfg_max_concurrent_operations = max_concurrent_operations\<rparr>
   in case fs_create_dir namespace s of
      (Ok _, s) \<Rightarrow>
        (case sync_directory root OpenRootDirectory SyncRootDirectory s of
           (Err e, s) \<Rightarrow> (Err e, s)
         | (Ok _, s) \<Rightarrow> (Ok config, s))
    | (Err source, s) \<Rightarrow>
        if io_kind source = AlreadyExists then
          (case fs_metadata namespace s of
             (Err source, s) \<Rightarrow> (io_err InspectNamespace source, s)
           | (Ok m, s) \<Rightarrow>
               (if md_type m \<noteq> IsDir then Err NamespacePathIsNotDirectory else Ok config, s))
        else (io_err CreateNamespace source, s))"

section \<open>Saving\<close>

text \<open>The loop over the three sections of a complete save.\<close>

fun write_sections :: "'s write_all \<Rightarrow> bytes list \<Rightarrow> 's \<Rightarrow> unit store_result \<times> 's" where
  "write_sections write [] s = (Ok (), s)"
| "write_sections write (section # rest) s =
     (case write section s of
        (Err source, s) \<Rightarrow> (io_err WriteEnvelope source, s)
      | (Ok _, s) \<Rightarrow> write_sections write rest s)"

text \<open>Open options of both saves: mode \<open>0o600\<close>, neither mode nor owner of the old file preserved.\<close>

definition open_atomic_writer :: "'w unix_lib \<Rightarrow> path \<Rightarrow> fs \<Rightarrow> 'w store_result \<times> fs" where
  "open_atomic_writer U p s =
     (case awf_open U 384 False False p s of
        (Err source, s) \<Rightarrow> (io_err OpenAtomicWriter source, s)
      | (Ok w, s) \<Rightarrow> (Ok w, s))"

definition commit_writer :: "'w unix_lib \<Rightarrow> 'w \<Rightarrow> fs \<Rightarrow> unit store_result \<times> fs" where
  "commit_writer U w s =
     (case awf_commit U w s of
        (Err source, s) \<Rightarrow> (Err (AtomicCommit source), s)
      | (Ok _, s) \<Rightarrow> (Ok (), s))"

definition save_blob ::
  "crc32c_lib \<Rightarrow> 'w unix_lib \<Rightarrow> store_config \<Rightarrow> path \<Rightarrow> bytes \<Rightarrow> fs \<Rightarrow> unit store_result \<times> fs" where
  "save_blob C U cfg p payload s =
     (case envelope_parts C (cfg_format cfg) payload (cfg_maximum cfg) of
        Err e \<Rightarrow> (Err e, s)
      | Ok (header, checksum) \<Rightarrow>
          (case open_atomic_writer U p s of
             (Err e, s) \<Rightarrow> (Err e, s)
           | (Ok w, s) \<Rightarrow>
               (case write_sections (awf_write_all U) [header, payload, checksum] (w, s) of
                  (Err e, w, s) \<Rightarrow> (Err e, awf_drop U w s)
                | (Ok _, w, s) \<Rightarrow> commit_writer U w s)))"

definition save_blob_from_receiver ::
  "crc32c_lib \<Rightarrow> 'w unix_lib \<Rightarrow> store_config \<Rightarrow> path \<Rightarrow> u64 \<Rightarrow> save_stream_message list \<Rightarrow> fs
     \<Rightarrow> unit store_result \<times> save_stream_message list \<times> fs" where
  "save_blob_from_receiver C U cfg p declared_len chunks s =
     (case envelope_header (cfg_format cfg) declared_len (cfg_maximum cfg) of
        Err e \<Rightarrow> (Err e, chunks, s)
      | Ok _ \<Rightarrow>
          (case open_atomic_writer U p s of
             (Err e, s) \<Rightarrow> (Err e, chunks, s)
           | (Ok w, s) \<Rightarrow>
               (case write_stream_envelope C (awf_write_all U) cfg declared_len chunks (w, s) of
                  (Err e, chunks, w, s) \<Rightarrow> (Err e, chunks, awf_drop U w s)
                | (Ok _, chunks, w, s) \<Rightarrow>
                    (case commit_writer U w s of (result, s) \<Rightarrow> (result, chunks, s)))))"

section \<open>Clearing and inspecting\<close>

definition clear_blob :: "store_config \<Rightarrow> path \<Rightarrow> fs \<Rightarrow> unit store_result \<times> fs" where
  "clear_blob cfg p s =
     (case fs_remove_file p s of
        (Ok _, s) \<Rightarrow> sync_directory (cfg_namespace cfg) OpenNamespaceDirectory SyncNamespaceDirectory s
      | (Err source, s) \<Rightarrow>
          if io_kind source = NotFound then ensure_namespace_available cfg s
          else (io_err RemoveBlob source, s))"

definition inspect_blob :: "store_config \<Rightarrow> path \<Rightarrow> fs \<Rightarrow> blob_inspection store_result \<times> fs" where
  "inspect_blob cfg p s =
     (case fs_symlink_metadata p s of
        (Ok m, s) \<Rightarrow>
          (if md_type m = IsFile
           then Ok \<lparr>bi_state = Present, bi_size = Some (md_len m), bi_modified = md_modified m\<rparr>
           else Err UnexpectedFileType, s)
      | (Err source, s) \<Rightarrow>
          if io_kind source = NotFound then
            (case ensure_namespace_available cfg s of
               (Err e, s) \<Rightarrow> (Err e, s)
             | (Ok _, s) \<Rightarrow> (Ok \<lparr>bi_state = Absent, bi_size = None, bi_modified = None\<rparr>, s))
          else (io_err InspectBlob source, s))"

section \<open>Quarantine\<close>

definition random_identifier :: "'w unix_lib \<Rightarrow> fs \<Rightarrow> string store_result \<times> fs" where
  "random_identifier U s =
     (case getrandom_fill U 32 s of
        (Err source, s) \<Rightarrow> (Err (IdentifierGeneration source), s)
      | (Ok bs, s) \<Rightarrow> (Ok (hex_encode bs), s))"

definition sync_quarantine_namespace ::
  "store_config \<Rightarrow> quarantine_info \<Rightarrow> fs \<Rightarrow> unit store_result \<times> fs" where
  "sync_quarantine_namespace cfg quarantine s =
     (case file_open (cfg_namespace cfg) s of
        (Err source, s) \<Rightarrow> (Err (QuarantineNamespaceSync quarantine source), s)
      | (Ok directory, s) \<Rightarrow>
          (case sync_all directory s of
             (Err source, s) \<Rightarrow> (Err (QuarantineNamespaceSync quarantine source), s)
           | (Ok _, s) \<Rightarrow> (Ok (), s)))"

definition quarantine_path :: "store_config \<Rightarrow> string \<Rightarrow> string \<Rightarrow> path" where
  "quarantine_path cfg hash identifier' =
     path_join (cfg_namespace cfg)
       (hash @ filename_suffix (cfg_format cfg) @ ''.quarantine-v1.'' @ identifier')"

text \<open>The loop draws identifiers until one does not collide; it may run forever.\<close>

partial_function (option) quarantine_loop ::
  "'w unix_lib \<Rightarrow> store_config \<Rightarrow> path \<Rightarrow> string \<Rightarrow> fs \<Rightarrow> (quarantine_info store_result \<times> fs) option" where
  "quarantine_loop U cfg p hash s =
     (case random_identifier U s of
        (Err e, s1) \<Rightarrow> Some (Err e, s1)
      | (Ok identifier', s1) \<Rightarrow>
          (let destination = quarantine_path cfg hash identifier'
           in case rename_noreplace U p destination s1 of
                (Ok _, s2) \<Rightarrow>
                  (let quarantine = \<lparr>qi_identifier = identifier', diagnostic_path = destination\<rparr>
                   in case sync_quarantine_namespace cfg quarantine s2 of
                        (Err e, s3) \<Rightarrow> Some (Err e, s3)
                      | (Ok _, s3) \<Rightarrow> Some (Ok quarantine, s3))
              | (Err error, s2) \<Rightarrow>
                  if error = ENOENT then
                    (case ensure_namespace_available cfg s2 of
                       (Err e, s3) \<Rightarrow> Some (Err e, s3)
                     | (Ok _, s3) \<Rightarrow> Some (Err QuarantineSourceMissing, s3))
                  else if error = EEXIST then quarantine_loop U cfg p hash s2
                  else Some (Err (QuarantineCommit (from_raw_os_error error)), s2)))"

definition quarantine_blob ::
  "'w unix_lib \<Rightarrow> store_config \<Rightarrow> path \<Rightarrow> fs \<Rightarrow> (quarantine_info store_result \<times> fs) option" where
  "quarantine_blob U cfg p s =
     (case Option.bind (file_stem p) to_str of
        None \<Rightarrow> Some (Err UnexpectedFileType, s)
      | Some hash \<Rightarrow> quarantine_loop U cfg p hash s)"

definition cleanup_stale_files :: "string \<Rightarrow> store_config \<Rightarrow> nat \<Rightarrow> fs \<Rightarrow> cleanup_report store_result \<times> fs" where
  "cleanup_stale_files OS cfg minimum_age s = (Err (CleanupUnsupported OS), s)"

section \<open>Loading\<close>

definition load_blob ::
  "crc32c_lib \<Rightarrow> store_config \<Rightarrow> path \<Rightarrow> fs \<Rightarrow> bytes option store_result \<times> fs" where
  "load_blob C cfg p s =
     (case file_open p s of
        (Ok file, s) \<Rightarrow>
          (map_ok Some (fst (decode_reader C (cfg_format cfg) (fh_reader file) (cfg_maximum cfg))), s)
      | (Err source, s) \<Rightarrow>
          if io_kind source = NotFound then
            (case ensure_namespace_available cfg s of
               (Err e, s) \<Rightarrow> (Err e, s)
             | (Ok _, s) \<Rightarrow> (Ok None, s))
          else (io_err OpenBlob source, s))"

text \<open>The sending loop: the receiver takes \<open>accepts\<close> chunks before it disappears.\<close>

function send_payload :: "u64 \<Rightarrow> nat \<Rightarrow> reader \<Rightarrow> unit store_result \<times> bytes list" where
  "send_payload remaining accepts r =
     (if remaining = 0 then (Ok (), [])
      else case read_section (chunk_request remaining) Payload r of
        (Err e, r) \<Rightarrow> (Err e, [])
      | (Ok chunk, r) \<Rightarrow>
          (case accepts of
             0 \<Rightarrow> (Err StreamCancelled, [])
           | Suc accepts \<Rightarrow>
               (case send_payload (remaining - of_nat (chunk_request remaining)) accepts r of
                  (result, sent) \<Rightarrow> (result, chunk # sent))))"
  by pat_completeness auto
termination
proof (relation "measure (\<lambda>(remaining, accepts, r). unat remaining)", goal_cases)
  case (2 remaining)
  then show ?case
    using chunk_request_bounds(1,2) [of remaining] by (simp add: unat_remaining)
qed simp

declare send_payload.simps [simp del]

definition file_seek :: "nat \<Rightarrow> file_handle \<Rightarrow> file_handle syscall" where
  "file_seek pos h = syscall (\<lambda>s. (Ok (h\<lparr>fh_reader := seek_start pos (fh_reader h)\<rparr>), s))"

definition load_blob_into_sender ::
  "crc32c_lib \<Rightarrow> store_config \<Rightarrow> path \<Rightarrow> nat \<Rightarrow> bool \<Rightarrow> fs
     \<Rightarrow> blob_metadata option store_result \<times> bytes list \<times> fs" where
  "load_blob_into_sender C cfg p accepts acknowledged s =
     (case file_open p s of
        (Err source, s) \<Rightarrow>
          if io_kind source = NotFound then
            (case ensure_namespace_available cfg s of
               (Err e, s) \<Rightarrow> (Err e, [], s)
             | (Ok _, s) \<Rightarrow> (Ok None, [], s))
          else (io_err OpenBlob source, [], s)
      | (Ok file, s) \<Rightarrow>
          (case validate_envelope_reader C (cfg_format cfg) (fh_reader file) (cfg_maximum cfg) of
             (Err e, r) \<Rightarrow> (Err e, [], s)
           | (Ok m, r) \<Rightarrow>
               (case file_seek HEADER_LEN (file\<lparr>fh_reader := r\<rparr>) s of
                  (Err source, s) \<Rightarrow> (io_err ReadEnvelope source, [], s)
                | (Ok file, s) \<Rightarrow>
                    (case send_payload (payload_len m) accepts (fh_reader file) of
                       (Err e, sent) \<Rightarrow> (Err e, sent, s)
                     | (Ok _, sent) \<Rightarrow>
                         if acknowledged then (Ok (Some m), sent, s)
                         else (Err StreamCancelled, sent, s)))))"

end
