(* ===== verification/SaveProps.thy ===== *)
theory SaveProps
  imports BlobFiles
begin

text \<open>
  Saving on Unix. Both saves leave the canonical entry old or new: at every point at which the process can
  be interrupted, after every failure, and after a power loss; no other entry an application can see
  changes. A save that succeeds installs exactly the envelope of its payload.
\<close>

section \<open>The writer\<close>

context byte_sink
begin

lemma write_sections_Ok:
  "write_sections write_all sections s = (Ok u, s') \<Longrightarrow> contents s' = contents s @ concat sections"
proof (induction sections arbitrary: s)
  case (Cons section' rest)
  then show ?case
    by (auto simp: write_Ok split: prod.splits sum.splits)
qed simp

end

lemma write_sections_keeps:
  assumes "\<And>bs s r s'. write bs s = (r, s') \<Longrightarrow> R s s'" "\<And>s. R s s"
    and "\<And>a b c. R a b \<Longrightarrow> R b c \<Longrightarrow> R a c"
  shows "write_sections write sections s = (r, s') \<Longrightarrow> R s s'"
proof (induction sections arbitrary: s)
  case (Cons section' rest)
  then show ?case
    by (auto split: prod.splits sum.splits dest: assms(1) intro: assms(3))
qed (use assms(2) in simp)

lemma write_sections_Err:
  "write_sections write sections s = (Err e, s') \<Longrightarrow> \<exists>source. e = Io WriteEnvelope source"
  by (induction sections arbitrary: s) (auto split: prod.splits sum.splits)

section \<open>Outcome of a save\<close>

definition save_outcome ::
  "crc32c_lib \<Rightarrow> store_config \<Rightarrow> path \<Rightarrow> bytes \<Rightarrow> fs \<Rightarrow> unit store_result \<Rightarrow> fs \<Rightarrow> bool" where
  "save_outcome C cfg p payload s r s' \<longleftrightarrow>
     (quiet (observable p) s s' \<and> (\<exists>e. r = Err e))
     \<or> (\<exists>bs t. encode_envelope C (cfg_format cfg) payload (cfg_maximum cfg) = Ok bs
          \<and> installs (observable p) [(p, Some (FileNode bs t))] s s'
          \<and> (r = Ok () \<or> (\<exists>source. r = Err (AtomicCommit source))))"

context unix_api
begin

lemma open_atomic_writer_cases:
  assumes "open_atomic_writer U p s = (r, s')"
  shows "quiet (observable p) s s'
    \<and> (case r of Ok w \<Rightarrow> staged w = [] \<and> target w = p | Err e \<Rightarrow> \<exists>source. e = Io OpenAtomicWriter source)"
  using assms open_Ok open_Err
  by (fastforce simp: open_atomic_writer_def io_err_def split: prod.splits sum.splits)

lemma commit_writer_cases:
  assumes "commit_writer U w s = (r, s')"
  shows "(quiet (observable (target w)) s s' \<and> (\<exists>source. r = Err (AtomicCommit source)))
    \<or> (\<exists>t. installs (observable (target w)) [(target w, Some (FileNode (staged w) t))] s s')
       \<and> (r = Ok () \<or> (\<exists>source. r = Err (AtomicCommit source)))"
  using assms commit_Ok commit_Err
  by (fastforce simp: commit_writer_def split: prod.splits sum.splits)

text \<open>Writes keep the target and are not observable.\<close>

definition write_step :: "'w \<times> fs \<Rightarrow> 'w \<times> fs \<Rightarrow> bool" where
  "write_step a b \<longleftrightarrow> target (fst b) = target (fst a) \<and> quiet (observable (target (fst a))) (snd a) (snd b)"

lemma write_step_write: "awf_write_all U bs a = (r, b) \<Longrightarrow> write_step a b"
  using write_quiet by (cases a; cases b) (auto simp: write_step_def)

lemma write_step_refl: "write_step a a"
  by (simp add: write_step_def)

lemma write_step_trans: "write_step a b \<Longrightarrow> write_step b c \<Longrightarrow> write_step a c"
  by (auto simp: write_step_def intro: quiet_trans)

lemma save_blob_outcome:
  assumes "save_blob C U cfg p payload s = (r, s')"
  shows "save_outcome C cfg p payload s r s'"
proof (cases "envelope_parts C (cfg_format cfg) payload (cfg_maximum cfg)")
  case (Inl e)
  with assms show ?thesis by (auto simp: save_blob_def save_outcome_def)
next
  case (Inr parts)
  obtain header checksum where parts: "parts = (header, checksum)" by (cases parts)
  obtain o1 s1 where op: "open_atomic_writer U p s = (o1, s1)" by fastforce
  note o = open_atomic_writer_cases [OF op]
  show ?thesis
  proof (cases o1)
    case (Inl e)
    with assms Inr parts op o show ?thesis by (auto simp: save_blob_def save_outcome_def)
  next
    case w: (Inr w)
    obtain r2 w2 s2 where wr:
      "write_sections (awf_write_all U) [header, payload, checksum] (w, s1) = (r2, w2, s2)"
      by (cases "write_sections (awf_write_all U) [header, payload, checksum] (w, s1)") auto
    have step: "write_step (w, s1) (w2, s2)"
      by (rule write_sections_keeps [where R = write_step, OF write_step_write write_step_refl
            write_step_trans wr])
    with o w have t: "target w2 = p" and q2: "quiet (observable p) s s2"
      by (auto simp: write_step_def intro: quiet_trans)
    show ?thesis
    proof (cases r2)
      case (Inl e)
      with assms Inr parts op w wr have "r = Err e" "s' = awf_drop U w2 s2"
        by (auto simp: save_blob_def)
      with quiet_trans [OF q2 drop_quiet [of w2 s2, unfolded t]] show ?thesis
        by (simp add: save_outcome_def)
    next
      case ok: (Inr u)
      with assms Inr parts op w wr have c: "commit_writer U w2 s2 = (r, s')"
        by (simp add: save_blob_def)
      have "staged w2 = header @ payload @ checksum"
        using writer.write_sections_Ok [OF wr [unfolded ok]] o w by simp
      moreover have "encode_envelope C (cfg_format cfg) payload (cfg_maximum cfg)
          = Ok (header @ payload @ checksum)"
        using Inr parts by (simp add: encode_envelope_def)
      ultimately show ?thesis
        using commit_writer_cases [OF c] q2 t
        by (auto simp: save_outcome_def intro: quiet_trans quiet_installs)
    qed
  qed
qed

lemma save_stream_outcome:
  assumes "crc32c_api C" "save_blob_from_receiver C U cfg p declared ms s = (r, left, s')"
  shows "(quiet (observable p) s s' \<and> (\<exists>e. r = Err e))
    \<or> (\<exists>chunks rest. ms = map Chunk chunks @ Complete # rest \<and> length (concat chunks) = unat declared
        \<and> save_outcome C cfg p (concat chunks) s r s')"
proof (cases "envelope_header (cfg_format cfg) declared (cfg_maximum cfg)")
  case (Inl e)
  with assms(2) show ?thesis by (auto simp: save_blob_from_receiver_def)
next
  case (Inr header)
  obtain o1 s1 where op: "open_atomic_writer U p s = (o1, s1)" by fastforce
  note o = open_atomic_writer_cases [OF op]
  show ?thesis
  proof (cases o1)
    case (Inl e)
    with assms(2) Inr op o show ?thesis by (auto simp: save_blob_from_receiver_def)
  next
    case w: (Inr w)
    obtain r2 rest w2 s2 where wr:
      "write_stream_envelope C (awf_write_all U) cfg declared ms (w, s1) = (r2, rest, w2, s2)"
      by (cases "write_stream_envelope C (awf_write_all U) cfg declared ms (w, s1)") auto
    have step: "write_step (w, s1) (w2, s2)"
      by (rule write_stream_envelope_keeps [where R = write_step, OF wr write_step_write
            write_step_refl write_step_trans])
    with o w have t: "target w2 = p" and q2: "quiet (observable p) s s2"
      by (auto simp: write_step_def intro: quiet_trans)
    show ?thesis
    proof (cases r2)
      case (Inl e)
      with assms(2) Inr op w wr have "r = Err e" "s' = awf_drop U w2 s2"
        by (auto simp: save_blob_from_receiver_def)
      with quiet_trans [OF q2 drop_quiet [of w2 s2, unfolded t]] show ?thesis by simp
    next
      case ok: (Inr u)
      with assms(2) Inr op w wr have c: "commit_writer U w2 s2 = (r, s')"
        by (simp add: save_blob_from_receiver_def split: prod.splits)
      from write_stream_envelope_Ok [OF writer_sink assms(1) wr [unfolded ok]] o w
      obtain chunks bs where "ms = map Chunk chunks @ Complete # rest"
        "length (concat chunks) = unat declared"
        "encode_envelope C (cfg_format cfg) (concat chunks) (cfg_maximum cfg) = Ok bs"
        "staged w2 = bs" by auto
      moreover from this have "save_outcome C cfg p (concat chunks) s r s'"
        using commit_writer_cases [OF c] q2 t
        by (auto simp: save_outcome_def intro: quiet_trans quiet_installs)
      ultimately show ?thesis by blast
    qed
  qed
qed

end

section \<open>Properties\<close>

text \<open>The outcome in terms of the entries of the file system.\<close>

definition old_or_new ::
  "crc32c_lib \<Rightarrow> store_config \<Rightarrow> path \<Rightarrow> bytes \<Rightarrow> fs \<Rightarrow> unit store_result \<Rightarrow> fs \<Rightarrow> bool" where
  "old_or_new C cfg p payload s r s' \<longleftrightarrow>
     (entry s' p = entry s p \<and> (\<exists>e. r = Err e)
      \<or> (\<exists>bs t. encode_envelope C (cfg_format cfg) payload (cfg_maximum cfg) = Ok bs
            \<and> entry s' p = Some (FileNode bs t)
            \<and> (r = Ok () \<or> (\<exists>source. r = Err (AtomicCommit source)))))
     \<and> (\<forall>q. q \<noteq> p \<longrightarrow> observable p q \<longrightarrow> entry s' q = entry s q)"

text \<open>Every state an interruption or a power loss can leave.\<close>

definition crash_safe :: "path \<Rightarrow> fs \<Rightarrow> fs \<Rightarrow> bool" where
  "crash_safe p s s' \<longleftrightarrow>
     (\<forall>evs q. interrupted s s' evs \<longrightarrow> observable p q \<longrightarrow>
        entry_at (fs_base s) evs q = entry s q \<or> q = p \<and> entry_at (fs_base s) evs q = entry s' p)
     \<and> (\<forall>q. observable p q \<longrightarrow>
          after_power_loss s' q \<subseteq> (if q = p then insert (entry s' p) else id) (after_power_loss s q))"

lemma quiet_crash_safe:
  assumes "quiet (observable p) s s'"
  shows "crash_safe p s s'"
  unfolding crash_safe_def
  using interrupted_quiet [OF assms] power_loss_quiet [OF assms]
  by auto (metis observable_self subsetD)

lemma installs_crash_safe:
  assumes "installs (observable p) [(p, v)] s s'"
  shows "crash_safe p s s'"
  unfolding crash_safe_def
proof (intro conjI allI impI)
  fix evs q
  assume *: "interrupted s s' evs" "observable p q"
  show "entry_at (fs_base s) evs q = entry s q \<or> q = p \<and> entry_at (fs_base s) evs q = entry s' p"
    using interrupted_installs [OF assms *] installs_entry [OF assms *(2)] by (auto split: if_splits)
next
  fix q
  assume q: "observable p q"
  have "entry s q \<in> after_power_loss s q" by (rule entry_after_power_loss)
  then show "after_power_loss s' q \<subseteq> (if q = p then insert (entry s' p) else id) (after_power_loss s q)"
    using power_loss_installs [OF assms q] installs_entry [OF assms q] by (auto split: if_splits)
qed

lemma installs_self:
  assumes "installs (observable p) [(p, v)] s s'"
  shows "entry s' p = v" "q \<noteq> p \<Longrightarrow> observable p q \<Longrightarrow> entry s' q = entry s q"
  using installs_entry [OF assms] by simp_all

lemma save_outcome_entries:
  assumes "save_outcome C cfg p payload s r s'"
  shows "old_or_new C cfg p payload s r s' \<and> crash_safe p s s'"
  using assms unfolding save_outcome_def
proof
  assume q: "quiet (observable p) s s' \<and> (\<exists>e. r = Err e)"
  then show ?thesis
    using quiet_entry quiet_crash_safe by (auto simp: old_or_new_def)
qed (auto simp: old_or_new_def installs_self intro: installs_crash_safe)

text \<open>C1. A complete save is atomic, whatever faults the calls meet: the canonical file is the old one
  and the result an error, or it is the complete envelope of the payload and the result success or an
  ambiguous commit error; no other observable entry changes. The same holds at every point at which the
  process can be interrupted, and a power loss adds no possibility other than the new file.\<close>

theorem save_blob_atomic:
  assumes "unix_api U staged target" "save_blob C U cfg p payload s = (r, s')"
  shows "old_or_new C cfg p payload s r s' \<and> crash_safe p s s'"
  by (rule save_outcome_entries [OF unix_api.save_blob_outcome [OF assms]])

text \<open>A store for evaluation: the namespace exists and is empty.\<close>

definition demo_fs :: fs where
  "demo_fs = \<lparr>fs_base = [''/store'' \<mapsto> DirNode, ''/store/blobs'' \<mapsto> DirNode], fs_log = [],
     fs_cwd = None, fs_faults = [], fs_scripts = [], fs_random = []\<rparr>"

definition demo_path :: path where
  "demo_path = ''/store/blobs/k.blob''"

definition demo_saved :: fs where
  "demo_saved = demo_fs\<lparr>fs_log :=
     [SyncDir ''/store/blobs'',
      Update [(demo_path, Some (FileNode golden_valid None)), (''/store/blobs/.k.blob.tmp'', None)],
      Update [(''/store/blobs/.k.blob.tmp'', Some (FileNode golden_valid None))],
      Update [(''/store/blobs/.k.blob.tmp'', Some (FileNode (golden_header @ [0x61,0x62,0x63]) None))],
      Update [(''/store/blobs/.k.blob.tmp'', Some (FileNode golden_header None))],
      Update [(''/store/blobs/.k.blob.tmp'', Some (FileNode [] None))]]\<rparr>"

lemma demo_parts:
  "dir_part demo_path = ''/store/blobs''" "temp_path demo_path = ''/store/blobs/.k.blob.tmp''"
  by (simp_all add: dir_part_def temp_path_def base_part_def demo_path_def Let_def)

lemma demo_entries [simp]:
  "entry demo_fs demo_path = None" "entry demo_fs ''/store/blobs'' = Some DirNode"
  "entry demo_fs ''/store/blobs/.k.blob.tmp'' = None"
  by (simp_all add: entry_def demo_fs_def demo_path_def)

lemma golden_parts:
  "envelope_parts castagnoli golden_format [0x61,0x62,0x63] 67108864
     = Ok (golden_header, [0xb7,0xba,0x8c,0x0f])"
  by (simp add: envelope_parts_def envelope_header_def u64_try_from_def
      golden_format_def golden_header_def to_be_bytes_def upt_rec castagnoli_eval)

lemma demo_save:
  "save_blob castagnoli temp_lib golden_config demo_path [0x61,0x62,0x63] demo_fs = (Ok (), demo_saved)"
  by (simp add: save_blob_def golden_config_def golden_parts open_atomic_writer_def temp_lib_def
      temp_open_def temp_write_def temp_commit_def commit_writer_def syscall_def demo_parts
      demo_fs_def [THEN arg_cong [where f = fs_faults]] demo_fs_def [THEN arg_cong [where f = fs_log]]
      record_event_def Let_def demo_saved_def
      golden_valid_def)

theorem save_blob_atomic_witness:
  "old_or_new castagnoli golden_config demo_path [0x61,0x62,0x63] demo_fs (Ok ()) demo_saved
   \<and> crash_safe demo_path demo_fs demo_saved"
  by (rule save_blob_atomic [OF temp.unix_api_axioms demo_save])

text \<open>C20. A streaming save is atomic too: an observable entry changes only when the messages are chunks
  of the declared total length followed by the completion, and then the canonical entry is the old one
  or the envelope of their concatenation; the success of the save implies the latter.\<close>

theorem streaming_save_atomic:
  assumes "unix_api U staged target" "crc32c_api C"
    and "save_blob_from_receiver C U cfg p declared ms s = (r, left, s')"
  shows "crash_safe p s s'
    \<and> ((\<exists>chunks rest. ms = map Chunk chunks @ Complete # rest \<and> length (concat chunks) = unat declared
          \<and> old_or_new C cfg p (concat chunks) s r s')
       \<or> (\<exists>e. r = Err e) \<and> (\<forall>q. observable p q \<longrightarrow> entry s' q = entry s q))"
  using unix_api.save_stream_outcome [OF assms] save_outcome_entries quiet_crash_safe
    quiet_entry by blast

text \<open>A streaming save of the same payload.\<close>

lemma demo_stream_save:
  "save_blob_from_receiver castagnoli temp_lib golden_config demo_path 3
     [Chunk [0x61,0x62,0x63], Complete] demo_fs = (Ok (), [], demo_saved)"
  by (simp add: save_blob_from_receiver_def golden_config_def write_stream_envelope_def
      envelope_header_def golden_format_def open_atomic_writer_def temp_lib_def
      temp_open_def temp_write_def temp_commit_def commit_writer_def syscall_def demo_parts
      demo_fs_def [THEN arg_cong [where f = fs_faults]] demo_fs_def [THEN arg_cong [where f = fs_log]]
      record_event_def Let_def demo_saved_def to_be_bytes_def upt_rec castagnoli_eval
      golden_valid_def golden_header_def)

theorem streaming_save_atomic_witness:
  "\<exists>chunks. length (concat chunks) = 3
     \<and> old_or_new castagnoli golden_config demo_path (concat chunks) demo_fs (Ok ()) demo_saved"
  using streaming_save_atomic [OF temp.unix_api_axioms castagnoli.crc32c_api_axioms demo_stream_save]
  by auto

end
