(* ===== verification/LoadProps.thy ===== *)
theory LoadProps
  imports SaveProps
begin

text \<open>
  Loading on Unix. A complete load returns the payload whose envelope the canonical file is, and a
  streaming load sends nothing before the whole envelope has been validated; what it then sends is the
  payload in bounded chunks, a prefix of it when the receiver or a read fails.
\<close>

section \<open>Readers keep their content\<close>

lemma read_call_content: "read_call n r = (a, r') \<Longrightarrow> rd_content r' = rd_content r"
  by (cases a) (auto dest: read_call_Ok read_call_Err)

lemma read_exact_content: "read_exact n r = (a, r') \<Longrightarrow> rd_content r' = rd_content r"
proof (induction n r arbitrary: a rule: read_exact.induct)
  case (1 n r)
  show ?case
  proof (cases "n = 0")
    case True
    with "1.prems" show ?thesis by simp
  next
    case False
    obtain c r1 where call: "read_call n r = (c, r1)" by fastforce
    note rc = read_call_content [OF call]
    show ?thesis
    proof (cases c)
      case (Inl e)
      with "1.prems" False call rc "1.IH"(1) [OF False call [symmetric] Inl] show ?thesis
        by (auto simp: read_exact.simps [of n r] split: if_splits)
    next
      case (Inr got)
      with "1.prems" False call rc "1.IH"(2) [OF False call [symmetric] Inr] show ?thesis
        by (fastforce simp: read_exact.simps [of n r] split: if_splits prod.splits sum.splits)
    qed
  qed
qed

lemma read_section_content: "read_section n sec r = (a, r') \<Longrightarrow> rd_content r' = rd_content r"
  by (auto simp: read_section_def split: prod.splits sum.splits if_splits dest: read_exact_content)

lemma read_trailing_content: "read_trailing r = (a, r') \<Longrightarrow> rd_content r' = rd_content r"
  by (auto simp: read_trailing_def split: prod.splits sum.splits if_splits dest: read_call_content)

lemma validate_payload_content:
  "validate_payload C remaining actual r = (a, r') \<Longrightarrow> rd_content r' = rd_content r"
proof (induction C remaining actual r rule: validate_payload.induct)
  case (1 C remaining actual r)
  show ?case
  proof (cases "remaining = 0")
    case False
    obtain c r1 where c: "read_section (chunk_request remaining) Payload r = (c, r1)" by fastforce
    with "1.prems" False "1.IH" [OF False c [symmetric]] read_section_content [OF c] show ?thesis
      by (cases c) (auto simp: validate_payload.simps [of C remaining])
  qed (use "1.prems" in simp)
qed

lemma read_header_content: "read_header f r maximum = (a, r') \<Longrightarrow> rd_content r' = rd_content r"
  by (auto simp: read_header_def Let_def split: prod.splits sum.splits if_splits
      dest!: read_section_content)

lemma read_tail_content: "read_tail c r actual v = (a, r') \<Longrightarrow> rd_content r' = rd_content r"
  by (auto simp: read_tail_def Let_def split: prod.splits sum.splits if_splits
      dest!: read_trailing_content)

lemma validate_content:
  "validate_envelope_reader C f r maximum = (a, r') \<Longrightarrow> rd_content r' = rd_content r"
  by (auto simp: validate_split split: prod.splits sum.splits
      dest!: read_header_content validate_payload_content read_section_content read_tail_content)

section \<open>The sending loop\<close>

text \<open>What was sent is always a prefix of the bytes behind the header, in chunks of at most
  \<open>STREAM_CHUNK_SIZE\<close>, and all of them when the loop succeeds.\<close>

lemma send_payload_sent:
  "send_payload remaining accepts r = (res, sent) \<Longrightarrow>
     concat sent = take (length (concat sent)) (take (unat remaining) (rd_rest r))
     \<and> length sent \<le> accepts
     \<and> (\<forall>chunk \<in> set sent. chunk \<noteq> [] \<and> length chunk \<le> STREAM_CHUNK_SIZE)
     \<and> (res = Ok () \<longrightarrow> concat sent = take (unat remaining) (rd_rest r)
          \<and> unat remaining \<le> length (rd_rest r))"
proof (induction remaining accepts r arbitrary: res sent rule: send_payload.induct)
  case (1 remaining accepts r)
  show ?case
  proof (cases "remaining = 0")
    case True
    with "1.prems" have "sent = [] \<and> res = Ok ()" by (simp add: send_payload.simps [of 0])
    with True show ?thesis by simp
  next
    case False
    let ?q = "chunk_request remaining"
    note q = chunk_request_bounds [OF False]
    obtain c r1 where c: "read_section ?q Payload r = (c, r1)" by fastforce
    show ?thesis
    proof (cases c)
      case (Inl e)
      with "1.prems" False c show ?thesis by (auto simp: send_payload.simps [of remaining])
    next
      case (Inr chunk)
      note rs = read_section_Ok [OF c [unfolded Inr]]
      show ?thesis
      proof (cases accepts)
        case 0
        with "1.prems" False c Inr show ?thesis by (auto simp: send_payload.simps [of remaining])
      next
        case (Suc n)
        obtain res' sent' where rec: "send_payload (remaining - of_nat ?q) n r1 = (res', sent')"
          by fastforce
        with "1.prems" False c Inr Suc have s: "sent = chunk # sent'" "res = res'"
          by (auto simp: send_payload.simps [of remaining])
        note ih = "1.IH" [OF False c [symmetric] Inr Suc rec, unfolded unat_remaining [OF False]]
        have sp: "take (unat remaining) (rd_rest r) = chunk @ take (unat remaining - ?q) (rd_rest r1)"
          using q(2) rs take_add [of ?q "unat remaining - ?q" "rd_rest r"] by simp
        have len: "length chunk = ?q" "unat remaining - ?q \<le> length (rd_rest r1)
            \<Longrightarrow> unat remaining \<le> length (rd_rest r)" using rs q(2) by auto
        from ih s sp len q Suc show ?thesis by auto
      qed
    qed
  qed
qed

lemma send_payload_clean:
  "no_faults r \<Longrightarrow> unat remaining \<le> length (rd_rest r) \<Longrightarrow> unat remaining \<le> accepts * STREAM_CHUNK_SIZE
     \<Longrightarrow> fst (send_payload remaining accepts r) = Ok ()"
proof (induction remaining accepts r rule: send_payload.induct)
  case (1 remaining accepts r)
  show ?case
  proof (cases "remaining = 0")
    case True
    then show ?thesis by (simp add: send_payload.simps [of 0])
  next
    case False
    let ?q = "chunk_request remaining"
    note q = chunk_request_bounds [OF False]
    show ?thesis
    proof (cases rule: read_section_clean [OF "1.prems"(1), of ?q Payload])
      case (1 r1)
      with q "1.prems"(2) show ?thesis by simp
    next
      case (2 r1)
      from False have "0 < unat remaining" by (simp add: unat_gt_0)
      with "1.prems"(3) obtain n where n: "accepts = Suc n" by (cases accepts) auto
      have "unat remaining - ?q \<le> length (rd_rest r1)" using "1.prems"(2) 2(3) by simp
      moreover have "unat remaining - ?q \<le> n * STREAM_CHUNK_SIZE"
        using "1.prems"(3) n by (auto simp: chunk_request_def min_def)
      ultimately have "fst (send_payload (remaining - of_nat ?q) n r1) = Ok ()"
        using "1.IH" [OF False 2(4) [symmetric] refl n 2(2)] unat_remaining [OF False] by simp
      with False 2(4) n show ?thesis
        by (cases "send_payload (remaining - of_nat ?q) n r1") (simp add: send_payload.simps [of remaining])
    qed
  qed
qed

section \<open>Loading and the namespace\<close>

lemma md_type_dir [simp]: "md_type (node_metadata n) = IsDir \<longleftrightarrow> n = DirNode"
  by (cases n) simp_all

lemma md_type_file: "md_type (node_metadata n) = IsFile \<longleftrightarrow> (\<exists>bs t. n = FileNode bs t)"
  by (cases n) simp_all

definition namespace_ready :: "store_config \<Rightarrow> fs \<Rightarrow> bool" where
  "namespace_ready cfg s \<longleftrightarrow> (\<exists>q. resolve LINK_LIMIT s (cfg_namespace cfg) = Ok (q, DirNode))"

lemma ensure_namespace_available_Ok:
  "ensure_namespace_available cfg s = (Ok u, s') \<Longrightarrow> namespace_ready cfg s"
  by (auto simp: ensure_namespace_available_def namespace_ready_def
      split: prod.splits sum.splits if_splits dest: fs_metadata_Ok)

lemma ensure_namespace_available_quiet [quiet_calls]:
  "ensure_namespace_available cfg s = (r, s') \<Longrightarrow> quiet V s s'"
  by (auto simp: ensure_namespace_available_def split: prod.splits sum.splits
      dest: fs_metadata_quiet)

lemma load_blob_quiet: "load_blob C cfg p s = (r, s') \<Longrightarrow> quiet V s s'"
  by (auto simp: load_blob_def split: prod.splits sum.splits if_splits
      dest: quiet_calls intro: quiet_trans)

lemma load_blob_file:
  assumes "crc32c_api C" "wf_format (cfg_format cfg)"
    and "load_blob C cfg p s = (Ok res, s')" "entry s p = Some (FileNode bs t)"
  shows "\<exists>payload. res = Some payload
    \<and> encode_envelope C (cfg_format cfg) payload (cfg_maximum cfg) = Ok bs"
proof -
  have tag: "length (domain_tag (cfg_format cfg)) = 8" using assms(2) by (simp add: wf_format_def config_consts)
  obtain o1 s1 where o: "file_open p s = (o1, s1)" by fastforce
  show ?thesis
  proof (cases o1)
    case (Inl e)
    have "io_kind e \<noteq> NotFound"
      using file_open_NotFound [OF o [unfolded Inl]] resolve_file [OF assms(4)] by auto
    with assms(3) o Inl show ?thesis by (simp add: load_blob_def)
  next
    case (Inr h)
    note h = file_open_file [OF o [unfolded Inr] assms(4)]
    from assms(3) o Inr obtain payload r' where
      "decode_reader C (cfg_format cfg) (fh_reader h) (cfg_maximum cfg) = (Ok payload, r')"
      and res: "res = Some payload"
      by (cases "decode_reader C (cfg_format cfg) (fh_reader h) (cfg_maximum cfg)")
         (auto simp: load_blob_def map_ok_eq_Ok)
    from accepted_is_encoding(1) [OF assms(1) tag this(1)] h res show ?thesis
      by (simp add: rd_rest_def)
  qed
qed

lemma load_blob_absent:
  assumes "load_blob C cfg p s = (Ok res, s')" "entry s p = None"
  shows "res = None \<and> namespace_ready cfg s"
proof -
  obtain o1 s1 where o: "file_open p s = (o1, s1)" by fastforce
  have e: "\<exists>e. o1 = Err e"
    using o resolve_absent [OF assms(2)] unfolding file_open_def
    by (auto elim!: syscall_cases [where V = "\<lambda>_. True"])
  with assms(1) o obtain u s2 where "res = None" "ensure_namespace_available cfg s1 = (Ok u, s2)"
    by (auto simp: load_blob_def split: if_splits prod.splits sum.splits)
  then have "namespace_ready cfg s1" using ensure_namespace_available_Ok by blast
  moreover have "entry s1 = entry s"
    using quiet_entry [OF file_open_quiet [OF o, of "\<lambda>_. True"]] by auto
  then have "resolve LINK_LIMIT s1 q = resolve LINK_LIMIT s q" for q by (rule resolve_cong)
  ultimately show ?thesis using \<open>res = None\<close> by (simp add: namespace_ready_def)
qed

text \<open>What is at the end of the links of the canonical path, if anything is.\<close>

lemma file_open_resolved:
  assumes "file_open p s = (Ok h, s')"
  obtains (regular) q bs t where "resolve LINK_LIMIT s p = Ok (q, FileNode bs t)" "rd_rest (fh_reader h) = bs"
  | (directory) q where "resolve LINK_LIMIT s p = Ok (q, DirNode)" "rd_rest (fh_reader h) = []"
proof -
  obtain q n where "resolve LINK_LIMIT s p = Ok (q, n)"
    "\<exists>f. open_node q n (s\<lparr>fs_faults := f\<rparr>) = (Ok h, s')"
    using assms unfolding file_open_def
    by (auto intro: exI elim!: syscall_cases [where V = "\<lambda>_. True"] split: sum.splits prod.splits) metis
  then show thesis using regular directory
    by (cases n; cases "fs_scripts s") (auto simp: open_node_def file_reader_def rd_rest_def)
qed

lemma resolve_not_found: "resolve fuel s p = Err e \<Longrightarrow> io_kind e = NotFound \<Longrightarrow> e = errno ENOENT"
  by (induction fuel s p rule: resolve.induct)
     (auto simp: resolve.simps [of _ _ p for p] from_raw_os_error_def decode_errno_def errno_defs
        split: option.splits node.splits nat.splits)

lemma load_blob_None:
  assumes "load_blob C cfg p s = (Ok None, s')"
  shows "namespace_ready cfg s \<and> resolve LINK_LIMIT s p = Err (errno ENOENT)"
proof -
  obtain e s1 u s2 where o: "file_open p s = (Err e, s1)" "io_kind e = NotFound"
    and n: "ensure_namespace_available cfg s1 = (Ok u, s2)"
    using assms by (auto simp: load_blob_def map_ok_eq_Ok split: prod.splits sum.splits if_splits)
  have "entry s1 = entry s" using quiet_entry [OF file_open_quiet [OF o(1), of "\<lambda>_. True"]] by auto
  then have "resolve LINK_LIMIT s1 q = resolve LINK_LIMIT s q" for q by (rule resolve_cong)
  with ensure_namespace_available_Ok [OF n] have "namespace_ready cfg s" by (simp add: namespace_ready_def)
  moreover have "resolve LINK_LIMIT s p = Err e"
    using o(1) unfolding file_open_def
  proof (cases rule: syscall_cases [where V = "\<lambda>_. True"])
    case (fault c)
    with o(2) show ?thesis by simp
  next
    case (call f)
    with o(2) show ?thesis
      by (auto simp: open_node_def split: sum.splits prod.splits node.splits list.splits)
  qed
  ultimately show ?thesis using resolve_not_found o(2) by metis
qed

lemma load_blob_Some:
  assumes "crc32c_api C" "wf_format (cfg_format cfg)" "load_blob C cfg p s = (Ok (Some payload), s')"
  shows "\<exists>q bs t. resolve LINK_LIMIT s p = Ok (q, FileNode bs t)
    \<and> encode_envelope C (cfg_format cfg) payload (cfg_maximum cfg) = Ok bs"
proof -
  have tag: "length (domain_tag (cfg_format cfg)) = 8" using assms(2) by (simp add: wf_format_def)
  from assms(3) obtain h s1 r' where o: "file_open p s = (Ok h, s1)"
    and d: "decode_reader C (cfg_format cfg) (fh_reader h) (cfg_maximum cfg) = (Ok payload, r')"
    by (cases "decode_reader C (cfg_format cfg) (fh_reader (projr (fst (file_open p s)))) (cfg_maximum cfg)")
       (auto simp: load_blob_def map_ok_eq_Ok split: prod.splits sum.splits if_splits)
  note e = accepted_is_encoding(1) [OF assms(1) tag d]
  from o show ?thesis
  proof (cases rule: file_open_resolved)
    case (directory q)
    with e length_envelope_header [OF _ tag] show ?thesis by (fastforce simp: encode_envelope_Ok)
  qed (use e in auto)
qed

section \<open>Loading without faults\<close>

definition calm :: "fs \<Rightarrow> bool" where
  "calm s \<longleftrightarrow> fs_faults s = [] \<and> (\<forall>sc \<in> set (fs_scripts s). \<forall>a \<in> set sc. \<exists>k. a = ShortRead k)"

lemma file_open_calm:
  assumes "calm s" "entry s p = Some (FileNode bs t)"
  obtains h s' where "file_open p s = (Ok h, s')" "rd_rest (fh_reader h) = bs"
    "rd_content (fh_reader h) = bs" "no_faults (fh_reader h)" "fs_faults s' = []"
proof (cases "fs_scripts s")
  case Nil
  with assms show thesis
    by (intro that) (auto simp: file_open_def syscall_def resolve_file open_node_def calm_def
        file_reader_def rd_rest_def no_faults_def)
next
  case (Cons sc scs)
  with assms show thesis
    by (intro that) (auto simp: file_open_def syscall_def resolve_file open_node_def calm_def
        file_reader_def rd_rest_def no_faults_def)
qed

lemma load_blob_calm_file:
  assumes "crc32c_api C" "wf_config cfg" "calm s" "entry s p = Some (FileNode bs t)"
  shows "fst (load_blob C cfg p s) =
    map_ok Some (parse_envelope C (cfg_format cfg) (cfg_maximum cfg) bs)"
proof -
  have tag: "length (domain_tag (cfg_format cfg)) = 8" and room: "room_for_overhead (cfg_maximum cfg)"
    using assms(2) by (auto simp: wf_config_def wf_format_def config_consts)
  obtain h s' where h: "file_open p s = (Ok h, s')" "rd_rest (fh_reader h) = bs"
    "no_faults (fh_reader h)" by (rule file_open_calm [OF assms(3,4)])
  have "cfg_maximum cfg \<le> - 1" by simp
  from crc32c_api.decode_parse [OF assms(1) tag h(3) room this] h show ?thesis
    by (simp add: load_blob_def decode_reader_def)
qed

lemma load_blob_calm_absent:
  assumes "calm s" "entry s p = None" "entry s (cfg_namespace cfg) = Some DirNode"
  shows "fst (load_blob C cfg p s) = Ok None"
  using assms
  by (simp add: load_blob_def file_open_def syscall_def resolve_absent calm_def
      ensure_namespace_available_def fs_metadata_def resolve_dir)

section \<open>Streaming load\<close>

lemma file_seek_Ok:
  "file_seek pos h s = (Ok h', s') \<Longrightarrow> fh_reader h' = seek_start pos (fh_reader h)"
  by (auto simp: file_seek_def elim!: syscall_cases [where V = "\<lambda>_. True"])

text \<open>Anything but a validated file sends nothing.\<close>

lemma load_stream_cases:
  assumes "load_blob_into_sender C cfg p accepts acknowledged s = (r, sent, s')"
  obtains (unsent) "sent = []" "\<forall>m. r \<noteq> Ok (Some m)"
  | (sending) h s1 m rd res where "file_open p s = (Ok h, s1)"
      "validate_envelope_reader C (cfg_format cfg) (fh_reader h) (cfg_maximum cfg) = (Ok m, rd)"
      "send_payload (payload_len m) accepts (seek_start HEADER_LEN rd) = (res, sent)"
      "r = (case res of Err e \<Rightarrow> Err e
                      | Ok _ \<Rightarrow> if acknowledged then Ok (Some m) else Err StreamCancelled)"
proof -
  obtain o1 s1 where o: "file_open p s = (o1, s1)" by fastforce
  show thesis
  proof (cases o1)
    case (Inl e)
    with assms o have "sent = [] \<and> (\<forall>m. r \<noteq> Ok (Some m))"
      by (auto simp: load_blob_into_sender_def split: if_splits prod.splits sum.splits)
    then show thesis using unsent by blast
  next
    case h: (Inr h)
    obtain v rd where v: "validate_envelope_reader C (cfg_format cfg) (fh_reader h) (cfg_maximum cfg) = (v, rd)"
      by fastforce
    show thesis
    proof (cases v)
      case (Inl e)
      with assms o h v show thesis by (intro unsent) (auto simp: load_blob_into_sender_def)
    next
      case m: (Inr m)
      obtain k s2 where k: "file_seek HEADER_LEN (h\<lparr>fh_reader := rd\<rparr>) s1 = (k, s2)" by fastforce
      show thesis
      proof (cases k)
        case (Inl e)
        with assms o h v m k show thesis by (intro unsent) (auto simp: load_blob_into_sender_def)
      next
        case (Inr h2)
        obtain res sent2 where sp:
          "send_payload (payload_len m) accepts (seek_start HEADER_LEN rd) = (res, sent2)" by fastforce
        with assms o h v m k Inr file_seek_Ok [OF k [unfolded Inr]] have "sent = sent2"
          "r = (case res of Err e \<Rightarrow> Err e
                      | Ok _ \<Rightarrow> if acknowledged then Ok (Some m) else Err StreamCancelled)"
          by (auto simp: load_blob_into_sender_def split: sum.splits if_splits)
        with o h v m sp show thesis by (intro sending) auto
      qed
    qed
  qed
qed

lemma validate_no_faults_payload:
  "no_faults r \<Longrightarrow> validate_payload C remaining actual r = (a, r') \<Longrightarrow> no_faults r'"
proof (induction C\<equiv>C remaining actual r arbitrary: a r' rule: validate_payload.induct)
  case (1 remaining actual r)
  show ?case
  proof (cases "remaining = 0")
    case False
    let ?q = "chunk_request remaining"
    show ?thesis
    proof (cases rule: read_section_clean [OF "1.prems"(1), of ?q Payload])
      case (1 r1)
      with "1.prems" False show ?thesis by (auto simp: validate_payload.simps [of C remaining])
    next
      case (2 r1)
      with "1.hyps" [OF False 2(4) [symmetric] refl 2(2)] "1.prems" False show ?thesis
        by (auto simp: validate_payload.simps [of C remaining])
    qed
  qed (use "1.prems" in \<open>simp add: validate_payload.simps [of C 0]\<close>)
qed

lemma validate_no_faults:
  assumes "no_faults r" "validate_envelope_reader C f r maximum = (a, r')"
  shows "no_faults r'"
proof -
  obtain r1 where h: "read_header f r maximum = (parse_header f maximum (rd_rest r), r1)" "no_faults r1"
    using read_header_clean [OF assms(1)] by blast
  show ?thesis
  proof (cases "parse_header f maximum (rd_rest r)")
    case (Inl e)
    with h assms(2) show ?thesis by (auto simp: validate_split)
  next
    case (Inr hd)
    then obtain hh d where ph: "parse_header f maximum (rd_rest r) = Ok (hh, d)" by (cases hd) auto
    obtain v r2 where v: "validate_payload C d (crc32c_of C hh) r1 = (v, r2)" by fastforce
    then have n2: "no_faults r2"
      using validate_no_faults_payload [OF h(2)] by blast
    show ?thesis
    proof (cases v)
      case (Inl e)
      with h ph v n2 assms(2) show ?thesis by (auto simp: validate_split)
    next
      case (Inr actual)
      obtain c r3 where c: "read_section 4 Checksum r2 = (c, r3)" by fastforce
      have n3: "no_faults r3" by (rule read_section_clean [OF n2, of 4 Checksum]) (use c in auto)
      show ?thesis
      proof (cases c)
        case (Inl e)
        with h ph v Inr c n3 assms(2) show ?thesis by (auto simp: validate_split)
      next
        case (Inr checksum)
        have "no_faults (snd (read_tail checksum r3 actual \<lparr>payload_len = d\<rparr>))"
          by (rule read_call_no_faults [OF n3, of 1]) (simp add: read_tail_def read_trailing_def)
        with h ph v \<open>v = Inr actual\<close> c Inr assms(2) show ?thesis by (auto simp: validate_split)
      qed
    qed
  qed
qed

lemma encoded_payload_position:
  assumes "encode_envelope C f q maximum = Ok bs" "length (domain_tag f) = 8"
  shows "take (length q) (drop HEADER_LEN bs) = q"
  using assms length_envelope_header [OF _ assms(2)]
  by (auto simp: encode_envelope_Ok config_consts)

lemma load_stream_sent:
  assumes "crc32c_api C" "wf_format (cfg_format cfg)" "entry s p = Some (FileNode bs t)"
    and "load_blob_into_sender C cfg p accepts acknowledged s = (r, sent, s')"
    and "sent \<noteq> [] \<or> r = Ok (Some m)"
  shows "\<exists>payload. encode_envelope C (cfg_format cfg) payload (cfg_maximum cfg) = Ok bs
    \<and> prefix (concat sent) payload
    \<and> (\<forall>chunk \<in> set sent. chunk \<noteq> [] \<and> length chunk \<le> STREAM_CHUNK_SIZE)
    \<and> (r = Ok (Some m) \<longrightarrow> acknowledged \<and> concat sent = payload \<and> unat (payload_len m) = length payload)"
  using assms(4)
proof (cases rule: load_stream_cases)
  case (sending h s1 m' rd res)
  have tag: "length (domain_tag (cfg_format cfg)) = 8"
    using assms(2) by (simp add: wf_format_def)
  note h = file_open_file [OF sending(1) assms(3)]
  from accepted_is_encoding(2) [OF assms(1) tag sending(2)] h obtain q where
    q: "encode_envelope C (cfg_format cfg) q (cfg_maximum cfg) = Ok bs" "length q = unat (payload_len m')"
    by (auto simp: rd_rest_def)
  have "rd_rest (seek_start HEADER_LEN rd) = drop HEADER_LEN bs"
    using validate_content [OF sending(2)] h by (simp add: rd_rest_def seek_start_def)
  then have rest: "take (unat (payload_len m')) (rd_rest (seek_start HEADER_LEN rd)) = q"
    using encoded_payload_position [OF q(1) tag] q(2) by simp
  note sp = send_payload_sent [OF sending(3), unfolded rest]
  from sp have "prefix (concat sent) q" by (metis take_is_prefix)
  moreover have "acknowledged \<and> concat sent = q \<and> unat (payload_len m) = length q" if "r = Ok (Some m)"
    using that sending(4) sp q(2) by (auto split: sum.splits if_splits)
  ultimately show ?thesis using q(1) sp by blast
qed (use assms(5) in auto)

text \<open>Without faults, a stored payload the receiver takes and acknowledges is loaded.\<close>

lemma load_stream_complete:
  assumes "crc32c_api C" "wf_format (cfg_format cfg)" "calm s" "entry s p = Some (FileNode bs t)"
    and "encode_envelope C (cfg_format cfg) payload (cfg_maximum cfg) = Ok bs"
    and "length payload \<le> accepts * STREAM_CHUNK_SIZE"
  shows "fst (load_blob_into_sender C cfg p accepts True s) = Ok (Some \<lparr>payload_len = of_nat (length payload)\<rparr>)"
proof -
  have tag: "length (domain_tag (cfg_format cfg)) = 8" using assms(2) by (simp add: wf_format_def)
  let ?m = "\<lparr>payload_len = of_nat (length payload)\<rparr> :: blob_metadata"
  obtain h s1 where h: "file_open p s = (Ok h, s1)" "rd_rest (fh_reader h) = bs" "rd_content (fh_reader h) = bs"
    "no_faults (fh_reader h)" "fs_faults s1 = []" by (rule file_open_calm [OF assms(3,4)])
  have "fst (validate_envelope_reader C (cfg_format cfg) (fh_reader h) (cfg_maximum cfg)) = Ok ?m"
    using crc32c_api.validate_parse [OF assms(1) tag h(4)] assms(5) h(2)
    by (simp add: crc32c_api.parse_iff_encode [OF assms(1) tag, symmetric])
  then obtain rd where v: "validate_envelope_reader C (cfg_format cfg) (fh_reader h) (cfg_maximum cfg) = (Ok ?m, rd)"
    by (metis prod.collapse)
  let ?k = "seek_start HEADER_LEN rd"
  have rest: "rd_rest ?k = drop HEADER_LEN bs"
    using validate_content [OF v] h(3) by (simp add: rd_rest_def seek_start_def)
  have "no_faults ?k" using validate_no_faults [OF h(4) v] by (simp add: no_faults_def seek_start_def)
  moreover have n: "unat (of_nat (length payload) :: u64) = length payload"
    using assms(5) by (auto simp: encode_envelope_Ok)
  moreover have "length payload \<le> length (rd_rest ?k)"
    using encoded_payload_position [OF assms(5) tag] rest by (metis length_take min.cobounded1 min_def)
  ultimately have "fst (send_payload (of_nat (length payload)) accepts ?k) = Ok ()"
    using send_payload_clean [of ?k "of_nat (length payload)" accepts] assms(6) by simp
  then obtain sent where "send_payload (of_nat (length payload)) accepts ?k = (Ok (), sent)"
    by (metis prod.collapse)
  with h(1,5) v show ?thesis by (simp add: load_blob_into_sender_def file_seek_def syscall_def)
qed

section \<open>Properties\<close>

text \<open>C35. A complete load changes no entry, and whatever faults its calls meet it never returns anything
  but the truth: a payload only when the canonical path leads to the file that is its envelope, always so
  for a regular canonical file; \<open>None\<close> only when the namespace is a directory and the canonical path leads
  nowhere, because its entry is absent or a link that dangles. An absent entry gives \<open>None\<close>.\<close>

theorem load_blob_correct:
  assumes "crc32c_api C" "wf_format (cfg_format cfg)" "load_blob C cfg p s = (Ok res, s')"
  shows "(\<forall>q. entry s' q = entry s q)
    \<and> (\<forall>bs t. entry s p = Some (FileNode bs t) \<longrightarrow>
         (\<exists>payload. res = Some payload
            \<and> encode_envelope C (cfg_format cfg) payload (cfg_maximum cfg) = Ok bs))
    \<and> (entry s p = None \<longrightarrow> res = None \<and> namespace_ready cfg s)
    \<and> (\<forall>payload. res = Some payload \<longrightarrow> (\<exists>q bs t. resolve LINK_LIMIT s p = Ok (q, FileNode bs t)
         \<and> encode_envelope C (cfg_format cfg) payload (cfg_maximum cfg) = Ok bs))
    \<and> (res = None \<longrightarrow> namespace_ready cfg s \<and> resolve LINK_LIMIT s p = Err (errno ENOENT)
         \<and> (entry s p = None \<or> (\<exists>target. entry s p = Some (SymlinkNode target))))"
proof -
  have "entry s p = None \<or> (\<exists>target. entry s p = Some (SymlinkNode target))"
    if "resolve LINK_LIMIT s p = Err (errno ENOENT)"
    using that by (auto simp: resolve.simps [of _ s p] split: option.splits node.splits)
  moreover have "namespace_ready cfg s \<and> resolve LINK_LIMIT s p = Err (errno ENOENT)" if "res = None"
    using load_blob_None assms(3) that by simp
  moreover have "\<exists>q bs t. resolve LINK_LIMIT s p = Ok (q, FileNode bs t)
      \<and> encode_envelope C (cfg_format cfg) payload (cfg_maximum cfg) = Ok bs" if "res = Some payload" for payload
    using load_blob_Some [OF assms(1,2)] assms(3) that by simp
  ultimately show ?thesis
    using quiet_entry [OF load_blob_quiet [OF assms(3), of "\<lambda>_. True"]] load_blob_file [OF assms]
      load_blob_absent [OF assms(3)] by simp
qed

lemma golden_config_wf: "wf_config golden_config"
  by (simp add: wf_config_def golden_config_def wf_format_def golden_format_def validate_suffix_def
      config_consts suffix_byte_def is_ascii_lowercase_def room_for_overhead_def)

lemma demo_saved_entry: "entry demo_saved demo_path = Some (FileNode golden_valid None)"
  by (simp add: entry_def demo_saved_def demo_path_def)

lemma demo_calm: "calm demo_saved" "calm demo_fs"
  by (simp_all add: calm_def demo_saved_def demo_fs_def)

theorem load_blob_correct_witness:
  "\<exists>s'. load_blob castagnoli golden_config demo_path demo_saved = (Ok (Some [0x61,0x62,0x63]), s')
     \<and> (\<forall>q. entry s' q = entry demo_saved q)"
proof -
  obtain r s' where l: "load_blob castagnoli golden_config demo_path demo_saved = (r, s')" by fastforce
  have "r = Ok (Some [0x61,0x62,0x63])"
    using load_blob_calm_file [OF castagnoli.crc32c_api_axioms golden_config_wf demo_calm(1)
        demo_saved_entry] l golden_parse
    by (simp add: golden_config_def)
  with l load_blob_correct [OF castagnoli.crc32c_api_axioms _ l [unfolded \<open>r = _\<close>]]
  show ?thesis using golden_config_wf by (auto simp: wf_config_def)
qed

text \<open>A dangling link at the canonical path is loaded as an absent blob, although the path has an entry.\<close>

definition dangling_fs :: fs where
  "dangling_fs = demo_fs\<lparr>fs_base := (fs_base demo_fs)(demo_path \<mapsto> SymlinkNode ''nowhere'')\<rparr>"

lemma dangling_link_loads_as_absent:
  "entry dangling_fs demo_path = Some (SymlinkNode ''nowhere'')
   \<and> fst (load_blob castagnoli golden_config demo_path dangling_fs) = Ok None"
  by code_simp

lemma load_after_save:
  assumes "unix_api U staged target" "crc32c_api C" "wf_config cfg"
    and "save_blob C U cfg p payload s = (Ok (), s1)"
  shows "(load_blob C cfg p s1 = (Ok res, s2) \<longrightarrow> res = Some payload)
    \<and> (calm s1 \<longrightarrow> fst (load_blob C cfg p s1) = Ok (Some payload))"
proof -
  have fmt: "wf_format (cfg_format cfg)" "length (domain_tag (cfg_format cfg)) = 8"
    using assms(3) by (auto simp: wf_config_def wf_format_def config_consts)
  from save_outcome_entries [OF unix_api.save_blob_outcome [OF assms(1,4)]] obtain bs t where
    bs: "encode_envelope C (cfg_format cfg) payload (cfg_maximum cfg) = Ok bs"
    and e: "entry s1 p = Some (FileNode bs t)" by (auto simp: old_or_new_def)
  note parse = crc32c_api.parse_iff_encode [OF assms(2) fmt(2)]
  have "res = Some payload" if "load_blob C cfg p s1 = (Ok res, s2)"
    using load_blob_file [OF assms(2) fmt(1) that e] bs by (auto simp: parse [symmetric])
  moreover have "fst (load_blob C cfg p s1) = Ok (Some payload)" if "calm s1"
    using load_blob_calm_file [OF assms(2,3) that e] bs by (simp add: parse [symmetric])
  ultimately show ?thesis by blast
qed

text \<open>C2. Save then load: after a save that succeeded, a load of the same key can only return the saved
  payload or fail with an error, and without I/O faults it returns the payload.\<close>

theorem save_load_roundtrip:
  assumes "unix_api U staged target" "crc32c_api C" "wf_config cfg"
    and "save_blob C U cfg p payload s = (Ok (), s1)"
  shows "(load_blob C cfg p s1 = (Ok res, s2) \<longrightarrow> res = Some payload)
    \<and> (calm s1 \<longrightarrow> fst (load_blob C cfg p s1) = Ok (Some payload))"
  by (rule load_after_save [OF assms])

theorem save_load_roundtrip_witness:
  "fst (load_blob castagnoli golden_config demo_path demo_saved) = Ok (Some [0x61,0x62,0x63])"
  using save_load_roundtrip [OF temp.unix_api_axioms castagnoli.crc32c_api_axioms golden_config_wf
      demo_save] demo_calm by blast

text \<open>C19. A streaming load sends a chunk only after the whole envelope of the canonical file has been
  validated: whatever faults its calls meet and whenever the receiver disappears, the bytes sent are a
  prefix of the payload whose envelope the file is, in nonempty chunks of at most 64 KiB. It reports
  success only when all of the payload was sent and the receiver acknowledged it, with its length.\<close>

theorem streaming_load_validates_first:
  assumes "crc32c_api C" "wf_format (cfg_format cfg)" "entry s p = Some (FileNode bs t)"
    and "load_blob_into_sender C cfg p accepts acknowledged s = (r, sent, s')"
    and "sent \<noteq> [] \<or> r = Ok (Some m)"
  shows "\<exists>payload. encode_envelope C (cfg_format cfg) payload (cfg_maximum cfg) = Ok bs
    \<and> prefix (concat sent) payload
    \<and> (\<forall>chunk \<in> set sent. chunk \<noteq> [] \<and> length chunk \<le> STREAM_CHUNK_SIZE)
    \<and> (r = Ok (Some m) \<longrightarrow> acknowledged \<and> concat sent = payload \<and> unat (payload_len m) = length payload)"
  by (rule load_stream_sent [OF assms])

lemma demo_validate:
  "validate_envelope_reader castagnoli golden_format (file_reader golden_valid []) 67108864 =
     (Ok \<lparr>payload_len = 3\<rparr>, \<lparr>rd_content = golden_valid, rd_pos = 25, rd_script = []\<rparr>)"
  by (simp add: validate_envelope_reader_def read_section_def read_exact.simps read_call_def
      file_reader_def rd_rest_def golden_valid_def golden_header_def golden_format_def config_consts
      Let_def validate_payload.simps chunk_request_def STREAM_CHUNK_SIZE_def read_trailing_def castagnoli_eval)

lemma demo_stream_load:
  "load_blob_into_sender castagnoli golden_config demo_path 1 True demo_saved
     = (Ok (Some \<lparr>payload_len = 3\<rparr>), [[0x61,0x62,0x63]], demo_saved)"
proof -
  have f: "fs_faults demo_saved = []" "fs_scripts demo_saved = []"
    by (simp_all add: demo_saved_def demo_fs_def)
  have o: "file_open demo_path demo_saved
      = (Ok \<lparr>fh_path = demo_path, fh_reader = file_reader golden_valid []\<rparr>, demo_saved)"
    by (simp add: file_open_def syscall_def resolve_file [OF demo_saved_entry] open_node_def f)
  have sp: "send_payload 3 (Suc 0) \<lparr>rd_content = golden_valid, rd_pos = 18, rd_script = []\<rparr>
      = (Ok (), [[0x61,0x62,0x63]])"
    by (simp add: send_payload.simps read_section_def read_exact.simps read_call_def rd_rest_def
        golden_valid_def golden_header_def chunk_request_def STREAM_CHUNK_SIZE_def Let_def)
  show ?thesis
    by (simp add: load_blob_into_sender_def o golden_config_def demo_validate file_seek_def
        syscall_def f seek_start_def config_consts sp)
qed

theorem streaming_load_validates_first_witness:
  "\<exists>payload. encode_envelope castagnoli golden_format payload 67108864 = Ok golden_valid
    \<and> prefix [0x61,0x62,0x63] payload \<and> payload = [0x61,0x62,0x63]"
  using streaming_load_validates_first [OF castagnoli.crc32c_api_axioms _ demo_saved_entry
      demo_stream_load, of "\<lparr>payload_len = 3\<rparr>"] golden_config_wf
  by (auto simp: wf_config_def golden_config_def)

end
