(* ===== verification/BlobProps.thy ===== *)
theory BlobProps
  imports LoadProps
begin

text \<open>
  The remaining operations on Unix: clearing, inspecting, quarantining and the initialization of the
  namespace, each with the entries it changes on every branch.
\<close>

section \<open>Clearing\<close>

lemma sync_directory_quiet [quiet_calls]:
  "sync_directory p o1 o2 s = (r, s') \<Longrightarrow> quiet V s s'"
  by (auto simp: sync_directory_def split: prod.splits sum.splits
      dest: quiet_calls intro: quiet_trans)

lemma file_open_dir:
  assumes "file_open d s = (Ok h, s')" "entry s d = Some DirNode"
  shows "fh_path h = d"
  using assms unfolding file_open_def
  by (auto elim!: syscall_cases [where V = "\<lambda>_. True"] simp: resolve_dir open_node_def)

lemma sync_directory_durable:
  assumes "sync_directory d o1 o2 s = (Ok u, s')" "entry s d = Some DirNode" "dir_part p = d"
  shows "after_power_loss s' p = {entry s p}"
proof -
  from assms(1) obtain h s1 where h: "file_open d s = (Ok h, s1)" and y: "sync_all h s1 = (Ok (), s')"
    by (auto simp: sync_directory_def split: prod.splits sum.splits)
  have "after_power_loss s' p = {entry s1 p}"
    using sync_all_Ok [OF y] file_open_dir [OF h assms(2)] assms(3) by simp
  then show ?thesis using quiet_entry [OF file_open_quiet [OF h, of "\<lambda>_. True"]] by simp
qed

lemma clear_blob_cases:
  assumes "clear_blob cfg p s = (r, s')"
  obtains (removed) n where "entry s p = Some n" "n \<noteq> DirNode" "installs (\<lambda>_. True) [(p, None)] s s'"
      "r = Ok () \<Longrightarrow> entry s (cfg_namespace cfg) = Some DirNode \<Longrightarrow> p \<noteq> cfg_namespace cfg \<Longrightarrow>
        dir_part p = cfg_namespace cfg \<Longrightarrow> after_power_loss s' p = {None}"
  | (absent) "entry s p = None" "quiet (\<lambda>_. True) s s'" "r = Ok () \<Longrightarrow> namespace_ready cfg s"
  | (failed) e where "quiet (\<lambda>_. True) s s'" "r = Err e"
proof -
  obtain o1 s1 where o: "fs_remove_file p s = (o1, s1)" by fastforce
  show thesis
  proof (cases o1)
    case (Inr u)
    note rm = fs_remove_file_Ok [OF o [unfolded Inr], of "\<lambda>_. True", simplified]
    from assms o Inr have sy:
      "sync_directory (cfg_namespace cfg) OpenNamespaceDirectory SyncNamespaceDirectory s1 = (r, s')"
      by (simp add: clear_blob_def)
    have i: "installs (\<lambda>_. True) [(p, None)] s s'"
      using rm installs_quiet sync_directory_quiet [OF sy] by blast
    have "after_power_loss s' p = {None}" if "r = Ok ()" "entry s (cfg_namespace cfg) = Some DirNode"
      "p \<noteq> cfg_namespace cfg" "dir_part p = cfg_namespace cfg"
      using sync_directory_durable [OF sy [unfolded that(1)], of p] that rm
        installs_entry [OF conjunct2 [OF rm]] by simp
    with rm i show thesis using removed by blast
  next
    case (Inl e)
    note rm = fs_remove_file_Err [OF o [unfolded Inl], of "\<lambda>_. True"]
    show thesis
    proof (cases "io_kind e = NotFound")
      case True
      with assms o Inl have en: "ensure_namespace_available cfg s1 = (r, s')"
        by (simp add: clear_blob_def)
      have "entry s1 q = entry s q" for q using quiet_entry rm by blast
      then have "resolve LINK_LIMIT s1 q = resolve LINK_LIMIT s q" for q
        by (intro resolve_cong) auto
      then have "r = Ok () \<Longrightarrow> namespace_ready cfg s"
        using ensure_namespace_available_Ok [of cfg s1 "()" s'] en by (auto simp: namespace_ready_def)
      with True rm show thesis
        using absent quiet_trans ensure_namespace_available_quiet [OF en] by blast
    next
      case False
      with assms o Inl rm show thesis by (intro failed) (auto simp: clear_blob_def io_err_def)
    qed
  qed
qed

text \<open>C36. Clearing is atomic and idempotent: it changes at most the canonical entry, and only from
  present to absent, at every interruption point; when it reports success the entry is absent, the
  absence is already synchronized if the file was there, and otherwise the namespace is a directory; a
  directory in the blob's place is never removed.\<close>

theorem clear_blob_correct:
  assumes "clear_blob cfg p s = (r, s')"
  shows "(\<forall>q. q \<noteq> p \<longrightarrow> entry s' q = entry s q)
    \<and> (entry s' p = entry s p \<or> entry s' p = None \<and> entry s p \<noteq> Some DirNode)
    \<and> (\<forall>evs q. interrupted s s' evs \<longrightarrow>
         entry_at (fs_base s) evs q = entry s q \<or> q = p \<and> entry_at (fs_base s) evs q = None)
    \<and> (r = Ok () \<longrightarrow> entry s' p = None \<and> (entry s p = None \<longrightarrow> namespace_ready cfg s))
    \<and> (r = Ok () \<longrightarrow> entry s p \<noteq> None \<longrightarrow> entry s (cfg_namespace cfg) = Some DirNode
         \<longrightarrow> p \<noteq> cfg_namespace cfg \<longrightarrow> dir_part p = cfg_namespace cfg
         \<longrightarrow> after_power_loss s' p = {None})"
  using assms
proof (cases rule: clear_blob_cases)
  case (removed n)
  have e: "entry s' q = (if q = p then None else entry s q)" for q
    using installs_entry [OF removed(3), of q] by simp
  have "entry_at (fs_base s) evs q = entry s q \<or> q = p \<and> entry_at (fs_base s) evs q = None"
    if "interrupted s s' evs" for evs q
    using interrupted_installs [OF removed(3) that, of q] e [of q] by (cases "q = p") auto
  with removed(1,2,4) e show ?thesis by auto
next
  case absent
  then show ?thesis using quiet_entry interrupted_quiet by (auto split: if_splits)
next
  case (failed e)
  then show ?thesis using quiet_entry interrupted_quiet by auto
qed

definition demo_cleared :: fs where
  "demo_cleared = demo_saved\<lparr>fs_log :=
     SyncDir ''/store/blobs'' # Update [(demo_path, None)] # fs_log demo_saved\<rparr>"

lemma demo_saved_simps [simp]:
  "fs_faults demo_saved = []" "fs_scripts demo_saved = []" "fs_random demo_saved = []"
  "entry demo_saved ''/store/blobs'' = Some DirNode"
  "entry demo_saved demo_path = Some (FileNode golden_valid None)"
  "cfg_namespace golden_config = ''/store/blobs''"
  by (simp_all add: demo_saved_def demo_fs_def entry_def demo_path_def golden_config_def)

lemma record_event_frame [simp]:
  "fs_faults (record_event ev s) = fs_faults s" "fs_scripts (record_event ev s) = fs_scripts s"
  "fs_random (record_event ev s) = fs_random s"
  by (simp_all add: record_event_def)

lemma demo_path_simps [simp]:
  "demo_path \<noteq> ''/store/blobs''" "''/store/blobs'' \<noteq> demo_path" "dir_part demo_path = ''/store/blobs''"
  by (simp_all add: demo_parts) (simp_all add: demo_path_def)

lemma demo_clear: "clear_blob golden_config demo_path demo_saved = (Ok (), demo_cleared)"
  by (simp add: clear_blob_def fs_remove_file_def syscall_def sync_directory_def file_open_def
      resolve_dir open_node_def sync_all_def)
     (simp add: demo_cleared_def record_event_def)

theorem clear_blob_correct_witness:
  "entry demo_cleared demo_path = None \<and> after_power_loss demo_cleared demo_path = {None}"
  using clear_blob_correct [OF demo_clear] by simp

section \<open>Inspecting\<close>

lemma inspect_blob_facts:
  assumes "inspect_blob cfg p s = (r, s')"
  shows "(\<forall>q. entry s' q = entry s q)
    \<and> (\<forall>i. r = Ok i \<longrightarrow> bi_state i = Present \<longrightarrow> (\<exists>bs t. entry s p = Some (FileNode bs t)
         \<and> bi_size i = Some (of_nat (length bs)) \<and> bi_modified i = t))
    \<and> (\<forall>i. r = Ok i \<longrightarrow> bi_state i = Absent \<longrightarrow>
         entry s p = None \<and> namespace_ready cfg s \<and> bi_size i = None \<and> bi_modified i = None)
    \<and> (r = Err UnexpectedFileType \<longrightarrow>
         (\<exists>n. entry s p = Some n \<and> (\<forall>bs t. n \<noteq> FileNode bs t)))"
proof -
  obtain o1 s1 where o: "fs_symlink_metadata p s = (o1, s1)" by fastforce
  have q: "quiet V s s1" for V by (rule fs_symlink_metadata_quiet [OF o])
  show ?thesis
  proof (cases o1)
    case (Inr m)
    obtain n where n: "entry s p = Some n" "m = node_metadata n"
      using fs_symlink_metadata_Ok [OF o [unfolded Inr]] by blast
    from assms o Inr n have "s' = s1"
      "r = (if md_type m = IsFile
            then Ok \<lparr>bi_state = Present, bi_size = Some (md_len m), bi_modified = md_modified m\<rparr>
            else Err UnexpectedFileType)" by (auto simp: inspect_blob_def)
    with n quiet_entry [OF q, of "\<lambda>_. True"] show ?thesis
      by (cases n) (auto simp: md_type_file)
  next
    case (Inl e)
    show ?thesis
    proof (cases "io_kind e = NotFound")
      case True
      then have a: "entry s p = None" using fs_symlink_metadata_NotFound [OF o [unfolded Inl]] by simp
      obtain r2 s2 where en: "ensure_namespace_available cfg s1 = (r2, s2)" by fastforce
      with assms o Inl True have r: "s' = s2"
        "r = (case r2 of Err e \<Rightarrow> Err e
              | Ok _ \<Rightarrow> Ok \<lparr>bi_state = Absent, bi_size = None, bi_modified = None\<rparr>)"
        by (auto simp: inspect_blob_def split: sum.splits)
      have e1: "entry s1 x = entry s x" for x using quiet_entry [OF q, of "\<lambda>_. True"] by simp
      then have "resolve LINK_LIMIT s1 x = resolve LINK_LIMIT s x" for x
        by (intro resolve_cong) auto
      then have "\<exists>u. r2 = Ok u \<Longrightarrow> namespace_ready cfg s"
        using ensure_namespace_available_Ok [of cfg s1 "()" s2] en by (auto simp: namespace_ready_def)
      moreover have "entry s2 x = entry s x" for x
        using e1 quiet_entry [OF ensure_namespace_available_quiet [OF en], of "\<lambda>_. True"] by simp
      moreover have "r2 = Err e' \<Longrightarrow> e' \<noteq> UnexpectedFileType" for e'
        using en by (auto simp: ensure_namespace_available_def split: prod.splits sum.splits if_splits)
      ultimately show ?thesis using r a by (auto split: sum.splits)
    next
      case False
      with assms o Inl quiet_entry [OF q, of "\<lambda>_. True"] show ?thesis
        by (auto simp: inspect_blob_def)
    qed
  qed
qed

text \<open>Inspection reads the directory entry only: it changes nothing and opens no file, reports a
  regular file with the length of its content and its modification time, reports absence only for a
  missing entry in an available namespace, and calls every other kind of entry unexpected.\<close>

theorem inspect_blob_correct:
  assumes "inspect_blob cfg p s = (r, s')"
  shows "(\<forall>q. entry s' q = entry s q)
    \<and> (\<forall>i. r = Ok i \<longrightarrow> bi_state i = Present \<longrightarrow> (\<exists>bs t. entry s p = Some (FileNode bs t)
         \<and> bi_size i = Some (of_nat (length bs)) \<and> bi_modified i = t))
    \<and> (\<forall>i. r = Ok i \<longrightarrow> bi_state i = Absent \<longrightarrow>
         entry s p = None \<and> namespace_ready cfg s \<and> bi_size i = None \<and> bi_modified i = None)
    \<and> (r = Err UnexpectedFileType \<longrightarrow>
         (\<exists>n. entry s p = Some n \<and> (\<forall>bs t. n \<noteq> FileNode bs t)))"
  by (rule inspect_blob_facts [OF assms])

lemma demo_inspect:
  "inspect_blob golden_config demo_path demo_saved =
     (Ok \<lparr>bi_state = Present, bi_size = Some 25, bi_modified = None\<rparr>, demo_saved)"
  by (simp add: inspect_blob_def fs_symlink_metadata_def syscall_def golden_valid_def golden_header_def)

theorem inspect_blob_correct_witness:
  "\<exists>bs t. entry demo_saved demo_path = Some (FileNode bs t) \<and> Some 25 = Some (of_nat (length bs) :: u64)"
  using inspect_blob_correct [OF demo_inspect] by simp

section \<open>Quarantine\<close>

text \<open>The canonical entry moved, untouched, to a path that did not exist.\<close>

definition moved :: "path \<Rightarrow> path \<Rightarrow> fs \<Rightarrow> fs \<Rightarrow> bool" where
  "moved p q s s' \<longleftrightarrow> (\<exists>n. entry s p = Some n \<and> entry s q = None
     \<and> (\<forall>x. entry s' x = (if x = q then Some n else if x = p then None else entry s x))
     \<and> (\<forall>evs x. interrupted s s' evs \<longrightarrow>
          entry_at (fs_base s) evs x = entry s x \<or> entry_at (fs_base s) evs x = entry s' x))"

definition quarantine_outcome ::
  "store_config \<Rightarrow> path \<Rightarrow> string \<Rightarrow> fs \<Rightarrow> quarantine_info store_result \<Rightarrow> fs \<Rightarrow> bool" where
  "quarantine_outcome cfg p hash s r s' \<longleftrightarrow>
     (\<exists>q n. (r = Ok q \<or> (\<exists>source. r = Err (QuarantineNamespaceSync q source)))
        \<and> is_hex_name (qi_identifier q) \<and> diagnostic_path q = quarantine_path cfg hash (qi_identifier q)
        \<and> entry s p = Some n \<and> entry s (diagnostic_path q) = None
        \<and> installs (\<lambda>_. True) [(diagnostic_path q, Some n), (p, None)] s s')
     \<or> (quiet (\<lambda>_. True) s s' \<and> (\<exists>e. r = Err e \<and> (\<forall>q source. e \<noteq> QuarantineNamespaceSync q source)
          \<and> (e = QuarantineSourceMissing \<longrightarrow> namespace_ready cfg s
               \<and> (entry s p = None \<or> (\<exists>i. is_hex_name i
                    \<and> entry s (dir_part (quarantine_path cfg hash i)) = None)))))"

lemma sync_quarantine_namespace_cases:
  assumes "sync_quarantine_namespace cfg q s = (r, s')"
  shows "quiet V s s' \<and> (r = Ok () \<or> (\<exists>source. r = Err (QuarantineNamespaceSync q source)))"
  using assms by (auto simp: sync_quarantine_namespace_def split: prod.splits sum.splits
      dest: quiet_calls intro: quiet_trans)

lemma quiet_same_entries: "quiet (\<lambda>_. True) s s' \<Longrightarrow> entry s' = entry s"
  using quiet_entry [of "\<lambda>_. True" s s'] by auto

lemma quiet_namespace_ready:
  assumes "quiet (\<lambda>_. True) s s'"
  shows "namespace_ready cfg s' = namespace_ready cfg s"
  using resolve_cong [OF quiet_same_entries [OF assms]] by (simp add: namespace_ready_def)

context unix_api
begin

lemma random_identifier_cases:
  assumes "random_identifier U s = (r, s')"
  shows "quiet (\<lambda>_. True) s s' \<and> (case r of Ok i \<Rightarrow> is_hex_name i | Err e \<Rightarrow> \<exists>source. e = IdentifierGeneration source)"
  using assms fill_Ok fill_quiet is_hex_name_encode
  by (fastforce simp: random_identifier_def split: prod.splits sum.splits)

end

lemma quarantine_outcome_quiet:
  assumes q: "quiet (\<lambda>_. True) s s1" and "quarantine_outcome cfg p hash s1 r s'"
  shows "quarantine_outcome cfg p hash s r s'"
  using assms(2) quiet_trans [OF q] quiet_installs [OF q]
  unfolding quarantine_outcome_def quiet_same_entries [OF q] quiet_namespace_ready [OF q]
  by blast

lemma quarantine_failed:
  "quiet (\<lambda>_. True) s s' \<Longrightarrow> e \<noteq> QuarantineSourceMissing \<Longrightarrow>
     (\<And>q source. e \<noteq> QuarantineNamespaceSync q source) \<Longrightarrow> quarantine_outcome cfg p hash s (Err e) s'"
  by (auto simp: quarantine_outcome_def)

lemma ensure_namespace_available_Err:
  "ensure_namespace_available cfg s = (Err e, s') \<Longrightarrow>
     e = NamespacePathIsNotDirectory \<or> (\<exists>source. e = Io InspectNamespace source)"
  by (auto simp: ensure_namespace_available_def split: prod.splits sum.splits if_splits)

lemma quarantine_loop_outcome:
  assumes "quarantine_loop U cfg p hash s = Some y"
  shows "unix_api U staged target \<Longrightarrow> quarantine_outcome cfg p hash s (fst y) (snd y)"
  using assms
proof (induction rule: quarantine_loop.raw_induct [rotated, consumes 1, case_names step])
  case (step loop U cfg p hash s y)
  note api = step.prems
  obtain ri s1 where ri: "random_identifier U s = (ri, s1)" by fastforce
  note r = unix_api.random_identifier_cases [OF api ri]
  show ?case
  proof (cases ri)
    case (Inl e)
    with step.hyps ri r show ?thesis by (auto intro!: quarantine_failed)
  next
    case i: (Inr i)
    let ?d = "quarantine_path cfg hash i"
    obtain ro s2 where ro: "rename_noreplace U p ?d s1 = (ro, s2)" by fastforce
    have "quarantine_outcome cfg p hash s1 (fst y) (snd y)"
    proof (cases ro)
      case (Inr u)
      let ?q = "\<lparr>qi_identifier = i, diagnostic_path = ?d\<rparr>"
      from unix_api.rename_Ok [OF api ro [unfolded Inr]] obtain n where
        n: "entry s1 p = Some n" "entry s1 ?d = None"
        "installs (\<lambda>_. True) [(?d, Some n), (p, None)] s1 s2" by blast
      obtain sy s3 where sy: "sync_quarantine_namespace cfg ?q s2 = (sy, s3)" by fastforce
      note c = sync_quarantine_namespace_cases [OF sy, of "\<lambda>_. True"]
      from step.hyps ri i ro Inr sy have
        "y = (case sy of Err e \<Rightarrow> (Err e, s3) | Ok _ \<Rightarrow> (Ok ?q, s3))"
        by (auto split: sum.splits)
      with n c r i installs_quiet [OF n(3)] show ?thesis
        unfolding quarantine_outcome_def
        by (intro disjI1 exI [of _ ?q] exI [of _ n]) (auto split: sum.splits)
    next
      case (Inl c)
      note rn = unix_api.rename_Err [OF api ro [unfolded Inl]]
      then have q: "quiet (\<lambda>_. True) s1 s2" by blast
      consider "c = ENOENT" | "c \<noteq> ENOENT" "c = EEXIST" | "c \<noteq> ENOENT" "c \<noteq> EEXIST" by blast
      then show ?thesis
      proof cases
        case 1
        obtain en s3 where en: "ensure_namespace_available cfg s2 = (en, s3)" by fastforce
        have q3: "quiet (\<lambda>_. True) s1 s3"
          by (rule quiet_trans [OF q ensure_namespace_available_quiet [OF en]])
        from step.hyps ri i ro Inl 1 en have
          y: "y = (case en of Err e \<Rightarrow> (Err e, s3) | Ok _ \<Rightarrow> (Err QuarantineSourceMissing, s3))"
          by (auto split: sum.splits)
        show ?thesis
        proof (cases en)
          case (Inl e)
          with y q3 ensure_namespace_available_Err [OF en [unfolded Inl]] show ?thesis
            by (auto intro!: quarantine_failed)
        next
          case (Inr u)
          from ensure_namespace_available_Ok [OF en [unfolded Inr]] quiet_namespace_ready [OF q]
          have "namespace_ready cfg s1" by simp
          moreover have "is_hex_name i" using r i by simp
          ultimately show ?thesis using y Inr q3 rn 1 by (auto simp: quarantine_outcome_def)
        qed
      next
        case 2
        with step.hyps ri i ro Inl have "loop U cfg p hash s2 = Some y" by simp
        from quarantine_outcome_quiet [OF q step.IH [OF this api]] show ?thesis .
      next
        case 3
        with step.hyps ri i ro Inl have "y = (Err (QuarantineCommit (errno c)), s2)" by simp
        with q show ?thesis by (auto intro!: quarantine_failed)
      qed
    qed
    with quarantine_outcome_quiet r show ?thesis by blast
  qed
qed

lemma installs_moved:
  assumes "installs (\<lambda>_. True) [(q, Some n), (p, None)] s s'" "entry s p = Some n" "entry s q = None"
  shows "moved p q s s'"
proof -
  have "entry s' x = (if x = q then Some n else if x = p then None else entry s x)" for x
    using installs_entry [OF assms(1), of x] by simp
  moreover have "entry_at (fs_base s) evs x = entry s x \<or> entry_at (fs_base s) evs x = entry s' x"
    if "interrupted s s' evs" for evs x
    using interrupted_installs [OF assms(1) that, of x] by simp
  ultimately show ?thesis using assms(2,3) by (simp add: moved_def)
qed

lemma dir_part_join:
  assumes "plain_name q" "d \<noteq> []" "last d \<noteq> CHR ''/''"
  shows "dir_part (path_join d q) = d"
proof -
  have "\<And>c. c \<in> set (rev q) \<Longrightarrow> c \<noteq> CHR ''/''" using assms(1) by (auto simp: plain_name_def)
  then have "dropWhile (\<lambda>c. c \<noteq> CHR ''/'') (rev q @ CHR ''/'' # rev d) = CHR ''/'' # rev d"
    by (subst dropWhile_append2) auto
  then show ?thesis
    using assms(2,3) by (simp add: path_join_plain [OF assms(1)] dir_part_def Let_def)
qed

lemma dir_part_quarantine:
  assumes "wf_format (cfg_format cfg)" "is_hex_name hash" "CHR ''/'' \<notin> set i"
    and "cfg_namespace cfg \<noteq> []" "last (cfg_namespace cfg) \<noteq> CHR ''/''"
  shows "dir_part (quarantine_path cfg hash i) = cfg_namespace cfg"
  unfolding quarantine_path_def
  using plain_name_hex [OF assms(1,2), of "''.quarantine-v1.'' @ i"] assms(3-5)
  by (intro dir_part_join) auto

text \<open>C37. Quarantining moves the canonical file, its bytes untouched, to a fresh diagnostic path in the
  namespace: success, and equally the error of the synchronization after the move, report the path and
  leave the complete old file there and nothing at the canonical path; every other error leaves all
  entries as they were, and a missing source is reported only when the entry is missing while the
  namespace is available. An interruption sees the state before or after the move.\<close>

theorem quarantine_blob_correct:
  assumes "unix_api U staged target" "blake3_api B" "wf_format (cfg_format cfg)" "length h = 32"
    and "cfg_namespace cfg \<noteq> []" "last (cfg_namespace cfg) \<noteq> CHR ''/''"
    and "quarantine_blob U cfg (path_join (cfg_namespace cfg) (blob_file B (cfg_format cfg) h)) s
           = Some (r, s')" (is "quarantine_blob U cfg ?p s = _")
  shows "(\<forall>q. r = Ok q \<or> (\<exists>source. r = Err (QuarantineNamespaceSync q source)) \<longrightarrow>
            is_hex_name (qi_identifier q)
            \<and> diagnostic_path q = quarantine_path cfg (blake3_to_hex B h) (qi_identifier q)
            \<and> moved ?p (diagnostic_path q) s s')
    \<and> (\<forall>e. r = Err e \<longrightarrow> (\<forall>q source. e \<noteq> QuarantineNamespaceSync q source) \<longrightarrow> entry s' = entry s)
    \<and> (r = Err QuarantineSourceMissing \<longrightarrow> namespace_ready cfg s
         \<and> entry s ?p = None)"
proof -
  have stem: "file_stem ?p = Some (blake3_to_hex B h)"
    by (rule blake3_api.blob_file_stem [OF assms(2,3,4)])
  have hex: "is_hex_name (blake3_to_hex B h)" by (rule blake3_api.to_hex_shape [OF assms(2,4)])
  from assms(7) stem hex have "quarantine_loop U cfg ?p (blake3_to_hex B h) s = Some (r, s')"
    by (simp add: quarantine_blob_def)
  from quarantine_loop_outcome [OF this assms(1)]
  have o: "quarantine_outcome cfg ?p (blake3_to_hex B h) s r s'" by simp
  have "dir_part (quarantine_path cfg (blake3_to_hex B h) i) = cfg_namespace cfg" if "is_hex_name i" for i
    by (rule dir_part_quarantine [OF assms(3) hex is_hex_name_chars(2) [OF that] assms(5,6)])
  moreover have "entry s (cfg_namespace cfg) \<noteq> None" if "namespace_ready cfg s"
    using that resolve_absent by (fastforce simp: namespace_ready_def)
  ultimately show ?thesis
    using o unfolding quarantine_outcome_def
    by (auto intro: installs_moved simp: quiet_same_entries)
qed

text \<open>A canonical file to quarantine, and one identifier from the random source.\<close>

definition zero_path :: path where
  "zero_path = path_join ''/store/blobs'' (blob_file padded_digest golden_format (replicate 32 0))"

definition ones_path :: path where
  "ones_path = quarantine_path golden_config (hex_encode (replicate 32 0)) (hex_encode (replicate 32 1))"

definition zero_fs :: fs where
  "zero_fs = demo_fs\<lparr>fs_base := (fs_base demo_fs)(zero_path \<mapsto> FileNode [7] None),
     fs_random := [Ok (replicate 32 1)]\<rparr>"

lemma golden_wf: "wf_format golden_format"
  using golden_config_wf by (simp add: wf_config_def golden_config_def)

lemma quarantine_lengths: "length zero_path = 82" "length ones_path = 161"
proof -
  have z: "is_hex_name (hex_encode (replicate 32 (0 :: u8)))" by (rule is_hex_name_encode) simp
  have o: "CHR ''/'' \<notin> set (hex_encode (replicate 32 (1 :: u8)))"
    by (rule is_hex_name_chars(2) [OF is_hex_name_encode]) simp
  have n: "plain_name (hex_encode (replicate 32 (0 :: u8)) @ filename_suffix golden_format @ tail)"
    if "CHR ''/'' \<notin> set tail" for tail
    using plain_name_hex [OF golden_wf z that] .
  show "length zero_path = 82"
    using n [of "[]"] by (simp add: zero_path_def blob_file_def padded_digest_def path_join_plain)
      (simp add: golden_format_def)
  show "length ones_path = 161"
    using n [of "''.quarantine-v1.'' @ hex_encode (replicate 32 (1 :: u8))"] o
    by (simp add: ones_path_def quarantine_path_def path_join_plain golden_config_def)
       (simp add: golden_format_def)
qed

lemma zero_entries [simp]:
  "entry zero_fs zero_path = Some (FileNode [7] None)" "entry zero_fs ones_path = None"
  "entry zero_fs ''/store/blobs'' = Some DirNode" "fs_faults zero_fs = []"
  "fs_random zero_fs = [Ok (replicate 32 1)]"
  "zero_path \<noteq> ''/store/blobs''" "ones_path \<noteq> ''/store/blobs''" "ones_path \<noteq> zero_path"
  "''/store/blobs'' \<noteq> zero_path" "''/store/blobs'' \<noteq> ones_path"
proof -
  have ne: "length x \<noteq> length y \<Longrightarrow> x \<noteq> y" for x y :: path by auto
  have "zero_path \<noteq> ''/store/blobs''" "ones_path \<noteq> ''/store/blobs''" "ones_path \<noteq> ''/store''"
    "zero_path \<noteq> ''/store''" "ones_path \<noteq> zero_path"
    by (rule ne; simp add: quarantine_lengths)+
  then show "entry zero_fs zero_path = Some (FileNode [7] None)" "entry zero_fs ones_path = None"
    "entry zero_fs ''/store/blobs'' = Some DirNode" "fs_faults zero_fs = []"
    "fs_random zero_fs = [Ok (replicate 32 1)]"
    "zero_path \<noteq> ''/store/blobs''" "ones_path \<noteq> ''/store/blobs''" "ones_path \<noteq> zero_path"
    "''/store/blobs'' \<noteq> zero_path" "''/store/blobs'' \<noteq> ones_path"
    by (auto simp: zero_fs_def demo_fs_def entry_def)
qed

definition zero_moved :: fs where
  "zero_moved = zero_fs\<lparr>fs_random := [], fs_log := [SyncDir ''/store/blobs'',
     Update [(ones_path, Some (FileNode [7] None)), (zero_path, None)]]\<rparr>"

lemma demo_quarantine:
  "quarantine_blob temp_lib golden_config zero_path zero_fs =
     Some (Ok \<lparr>qi_identifier = hex_encode (replicate 32 1), diagnostic_path = ones_path\<rparr>, zero_moved)"
proof -
  have "file_stem zero_path = Some (hex_encode (replicate 32 0))"
    unfolding zero_path_def
    by (subst padded_digest.blob_file_stem [OF golden_wf]) (simp_all add: padded_digest_def)
  then have stem: "Option.bind (file_stem zero_path) to_str = Some (hex_encode (replicate 32 0))"
    by (simp add: is_hex_name_encode del: replicate.simps)
  have ri: "random_identifier temp_lib zero_fs =
      (Ok (hex_encode (replicate 32 1)), zero_fs\<lparr>fs_random := []\<rparr>)"
    by (simp add: random_identifier_def temp_lib_def temp_fill_def del: replicate.simps)
  have rn: "rename_noreplace temp_lib zero_path ones_path (zero_fs\<lparr>fs_random := []\<rparr>)
      = (Ok (), record_event (Update [(ones_path, Some (FileNode [7] None)), (zero_path, None)])
           (zero_fs\<lparr>fs_random := []\<rparr>))"
    by (simp add: temp_lib_def temp_rename_def Let_def)
       (simp add: zero_fs_def demo_fs_def record_event_def)
  have sy: "sync_quarantine_namespace golden_config q
      (record_event (Update [(ones_path, Some (FileNode [7] None)), (zero_path, None)])
           (zero_fs\<lparr>fs_random := []\<rparr>)) = (Ok (), zero_moved)" for q
    by (simp add: sync_quarantine_namespace_def file_open_def syscall_def resolve_dir open_node_def
        sync_all_def) (simp add: zero_moved_def record_event_def zero_fs_def demo_fs_def)
  show ?thesis
    by (simp only: quarantine_blob_def stem option.case quarantine_loop.simps [of _ _ _ _ zero_fs] ri
        prod.case sum.case Let_def ones_path_def [symmetric] rn sy)
qed

theorem quarantine_blob_correct_witness:
  "moved zero_path ones_path zero_fs zero_moved"
proof -
  have "quarantine_blob temp_lib golden_config
     (path_join (cfg_namespace golden_config) (blob_file padded_digest (cfg_format golden_config) (replicate 32 0)))
     zero_fs = Some (Ok \<lparr>qi_identifier = hex_encode (replicate 32 1), diagnostic_path = ones_path\<rparr>, zero_moved)"
    using demo_quarantine by (simp add: zero_path_def golden_config_def)
  from quarantine_blob_correct [OF temp.unix_api_axioms padded_digest.blake3_api_axioms _ _ _ _ this]
  show ?thesis using golden_config_wf by (simp add: wf_config_def zero_path_def golden_config_def)
qed

section \<open>Termination of the quarantine loop\<close>

text \<open>The runs of the loop so far: the identifiers that collided, in the order they were drawn.\<close>

inductive collisions ::
  "'w unix_lib \<Rightarrow> store_config \<Rightarrow> path \<Rightarrow> string \<Rightarrow> fs \<Rightarrow> string list \<Rightarrow> fs \<Rightarrow> bool"
  for U cfg p hash where
  no_collision: "collisions U cfg p hash s [] s"
| collision: "random_identifier U s = (Ok i, s1) \<Longrightarrow>
    rename_noreplace U p (quarantine_path cfg hash i) s1 = (Err EEXIST, s2) \<Longrightarrow>
    collisions U cfg p hash s2 ids s' \<Longrightarrow> collisions U cfg p hash s (i # ids) s'"

inductive_simps collisions_Cons: "collisions U cfg p hash s (i # ids) s'"

lemma bounded_collisions_return:
  "(\<And>ids s'. collisions U cfg p hash s ids s' \<Longrightarrow> length ids < n) \<Longrightarrow>
     \<exists>y. quarantine_loop U cfg p hash s = Some y"
proof (induction n arbitrary: s)
  case 0
  then show ?case using no_collision by blast
next
  case (Suc n)
  obtain ri s1 where ri: "random_identifier U s = (ri, s1)" by fastforce
  show ?case
  proof (cases "\<exists>i s2. ri = Ok i \<and> rename_noreplace U p (quarantine_path cfg hash i) s1 = (Err EEXIST, s2)")
    case True
    then obtain i s2 where i: "ri = Ok i"
      "rename_noreplace U p (quarantine_path cfg hash i) s1 = (Err EEXIST, s2)" by blast
    have "length ids < n" if "collisions U cfg p hash s2 ids s'" for ids s'
      using Suc.prems [OF collision [OF ri [unfolded i(1)] i(2) that]] by simp
    from Suc.IH [OF this] ri i show ?thesis
      by (simp add: quarantine_loop.simps [of U cfg p hash s] Let_def errno_defs)
  next
    case False
    show ?thesis
    proof (cases ri)
      case (Inl e)
      with ri show ?thesis by (simp add: quarantine_loop.simps [of U cfg p hash s])
    next
      case (Inr i)
      obtain ro s2 where ro: "rename_noreplace U p (quarantine_path cfg hash i) s1 = (ro, s2)"
        by fastforce
      have "ro \<noteq> Err EEXIST" using False Inr ro by auto
      with ri Inr ro show ?thesis
        by (cases ro) (auto simp: quarantine_loop.simps [of U cfg p hash s] Let_def
            split: prod.split sum.split)
    qed
  qed
qed

lemma collisions_exist:
  assumes "collisions U cfg p hash s ids s'" "unix_api U staged target"
  shows "\<forall>i \<in> set ids. is_hex_name i \<and> entry s (quarantine_path cfg hash i) \<noteq> None"
  using assms(1)
proof (induction rule: collisions.induct)
  case (collision s i s1 s2 ids s')
  note r = unix_api.random_identifier_cases [OF assms(2) collision.hyps(1)]
  note rn = unix_api.rename_Err [OF assms(2) collision.hyps(2)]
  have "entry s1 = entry s" "entry s2 = entry s1" using r rn quiet_same_entries by auto
  with collision.IH r rn show ?case by auto
qed simp

text \<open>C31. The quarantine loop returns: when the random source does not repeat an identifier, it collides at
  most once with each of the finitely many quarantine files of the digest, and then ends.\<close>

theorem quarantine_loop_returns:
  assumes "unix_api U staged target"
    and "finite {i. is_hex_name i \<and> entry s (quarantine_path cfg hash i) \<noteq> None}"
    and "\<And>ids s'. collisions U cfg p hash s ids s' \<Longrightarrow> distinct ids"
  shows "\<exists>y. quarantine_loop U cfg p hash s = Some y"
proof (rule bounded_collisions_return)
  fix ids s' assume c: "collisions U cfg p hash s ids s'"
  let ?Q = "{i. is_hex_name i \<and> entry s (quarantine_path cfg hash i) \<noteq> None}"
  have "set ids \<subseteq> ?Q" using collisions_exist [OF c assms(1)] by auto
  from card_mono [OF assms(2) this] distinct_card [OF assms(3) [OF c]]
  show "length ids < Suc (card ?Q)" by simp
qed

lemma zero_no_collisions:
  assumes "collisions temp_lib golden_config zero_path (hex_encode (replicate 32 0)) zero_fs ids s'"
  shows "distinct ids"
proof (cases ids)
  case (Cons i rest)
  have "random_identifier temp_lib zero_fs = (Ok (hex_encode (replicate 32 1)), zero_fs\<lparr>fs_random := []\<rparr>)"
    by (simp add: random_identifier_def temp_lib_def temp_fill_def del: replicate.simps)
  with assms Cons have False
    by (auto simp: collisions_Cons ones_path_def [symmetric])
       (simp add: temp_lib_def temp_rename_def)
  then show ?thesis ..
qed simp

theorem quarantine_loop_returns_witness:
  "\<exists>y. quarantine_loop temp_lib golden_config zero_path (hex_encode (replicate 32 0)) zero_fs = Some y"
proof -
  have inj: "inj_on (quarantine_path golden_config (hex_encode (replicate 32 0))) {i. is_hex_name i}"
  proof (rule inj_onI)
    fix i j
    assume "i \<in> {i. is_hex_name i}" "j \<in> {i. is_hex_name i}"
    then have n: "CHR ''/'' \<notin> set (''.quarantine-v1.'' @ i)" "CHR ''/'' \<notin> set (''.quarantine-v1.'' @ j)"
      using is_hex_name_chars by auto
    have z: "is_hex_name (hex_encode (replicate 32 (0 :: u8)))" by (rule is_hex_name_encode) simp
    assume "quarantine_path golden_config (hex_encode (replicate 32 0)) i
      = quarantine_path golden_config (hex_encode (replicate 32 0)) j"
    from path_join_inj [OF _ _ this [unfolded quarantine_path_def]]
    show "i = j" using plain_name_hex [OF golden_wf z n(1)] plain_name_hex [OF golden_wf z n(2)]
      by (simp add: golden_config_def)
  qed
  have "finite {q. entry zero_fs q \<noteq> None}"
    by (rule finite_subset [of _ "{''/store'', ''/store/blobs'', zero_path}"])
       (auto simp: zero_fs_def demo_fs_def entry_def split: if_splits)
  then have "finite (quarantine_path golden_config (hex_encode (replicate 32 0)) -` {q. entry zero_fs q \<noteq> None}
      \<inter> {i. is_hex_name i})"
    by (rule finite_vimage_IntI [OF _ inj])
  then have fin: "finite {i. is_hex_name i
      \<and> entry zero_fs (quarantine_path golden_config (hex_encode (replicate 32 0)) i) \<noteq> None}"
    by (rule finite_subset [rotated]) auto
  show ?thesis
    by (rule quarantine_loop_returns [OF temp.unix_api_axioms fin zero_no_collisions])
qed

section \<open>Initialization\<close>

definition initialized ::
  "path \<Rightarrow> path \<Rightarrow> blob_format_identity \<Rightarrow> u64 \<Rightarrow> nat \<Rightarrow> store_config \<Rightarrow> bool" where
  "initialized root namespace_component format maximum conc cfg \<longleftrightarrow>
     cfg_namespace cfg = path_join root namespace_component \<and> cfg_format cfg = format
     \<and> cfg_maximum cfg = maximum \<and> cfg_max_concurrent_operations cfg = conc"

text \<open>The root after resolution against the current directory.\<close>

definition resolved_root :: "path \<Rightarrow> fs \<Rightarrow> path \<Rightarrow> bool" where
  "resolved_root root s absolute \<longleftrightarrow>
     (if is_absolute root then absolute = root
      else \<exists>d. fs_cwd s = Some d \<and> absolute = path_join d root)"

lemma current_dir_Ok: "current_dir s = (Ok d, s') \<Longrightarrow> fs_cwd s = Some d"
  unfolding current_dir_def
  by (erule syscall_cases [where V = "\<lambda>_. True"]) (auto split: option.splits)

definition is_directory :: "path \<Rightarrow> fs \<Rightarrow> bool" where
  "is_directory p s \<longleftrightarrow> (\<exists>q. resolve LINK_LIMIT s p = Ok (q, DirNode))"

lemma initialize_cases:
  assumes "initialize_platform root ns format maximum conc s = (r, s')"
  obtains (failed) e where "r = Err e" "quiet (\<lambda>_. True) s s'"
  | (existing) absolute cfg where "resolved_root root s absolute" "is_directory absolute s"
      "initialized absolute ns format maximum conc cfg" "is_directory (cfg_namespace cfg) s"
      "r = Ok cfg" "quiet (\<lambda>_. True) s s'"
  | (created) absolute cfg s1 s2 where "resolved_root root s absolute" "is_directory absolute s"
      "initialized absolute ns format maximum conc cfg" "entry s (cfg_namespace cfg) = None"
      "installs (\<lambda>_. True) [(cfg_namespace cfg, Some DirNode)] s s1" "r = Ok cfg \<or> (\<exists>e. r = Err e)"
      "sync_directory absolute OpenRootDirectory SyncRootDirectory s1 = (s2, s')"
      "r = map_ok (\<lambda>_. cfg) s2"
proof -
  let ?rr = "if is_absolute root then (Ok root, s)
          else case current_dir s of
            (Err source, s) \<Rightarrow> (io_err ResolveCurrentDirectory source, s)
          | (Ok current_directory, s) \<Rightarrow> (Ok (path_join current_directory root), s)"
  obtain o1 s1 where o1: "?rr = (o1, s1)" by fastforce
  have q1: "quiet (\<lambda>_. True) s s1"
    using o1 by (auto split: if_splits prod.splits sum.splits dest: current_dir_quiet)
  have e1: "resolve LINK_LIMIT s1 = resolve LINK_LIMIT s"
    using resolve_cong [OF quiet_same_entries [OF q1]] by auto
  show thesis
  proof (cases o1)
    case (Inl e)
    have "initialize_platform root ns format maximum conc s = (Err e, s1)"
      unfolding initialize_platform_def o1 Inl by simp
    with assms q1 show thesis by (intro failed) auto
  next
    case a: (Inr absolute)
    have rr: "resolved_root root s absolute"
      using o1 a current_dir_Ok by (auto simp: resolved_root_def split: if_splits prod.splits sum.splits)
    obtain o2 s2 where o2: "fs_metadata absolute s1 = (o2, s2)" by fastforce
    have q2: "quiet (\<lambda>_. True) s s2" by (rule quiet_trans [OF q1 fs_metadata_quiet [OF o2]])
    show thesis
    proof (cases "\<exists>m. o2 = Ok m \<and> md_type m = IsDir")
      case False
      have "\<exists>e. initialize_platform root ns format maximum conc s = (Err e, s2)"
        unfolding initialize_platform_def o1 a using o2 False by (auto simp: io_err_def split: sum.splits)
      with assms q2 show thesis using failed by auto
    next
      case True
      then obtain m where m: "o2 = Ok m" "md_type m = IsDir" by blast
      have dir: "is_directory absolute s"
        using fs_metadata_Ok [OF o2 [unfolded m(1)]] m(2) e1 by (auto simp: is_directory_def)
      let ?ns = "path_join absolute ns"
      let ?cfg = "\<lparr>cfg_namespace = ?ns, cfg_format = format, cfg_maximum = maximum,
                    cfg_max_concurrent_operations = conc\<rparr>"
      have ini: "initialized absolute ns format maximum conc ?cfg" by (simp add: initialized_def)
      obtain o3 s3 where o3: "fs_create_dir ?ns s2 = (o3, s3)" by fastforce
      have run: "initialize_platform root ns format maximum conc s = (case (o3, s3) of
          (Ok _, s) \<Rightarrow> (case sync_directory absolute OpenRootDirectory SyncRootDirectory s of
               (Err e, s) \<Rightarrow> (Err e, s) | (Ok _, s) \<Rightarrow> (Ok ?cfg, s))
        | (Err source, s) \<Rightarrow> if io_kind source = AlreadyExists then
            (case fs_metadata ?ns s of (Err source, s) \<Rightarrow> (io_err InspectNamespace source, s)
             | (Ok m, s) \<Rightarrow> (if md_type m \<noteq> IsDir then Err NamespacePathIsNotDirectory else Ok ?cfg, s))
          else (io_err CreateNamespace source, s))"
        unfolding initialize_platform_def o1 a using o2 m o3 by (simp add: Let_def)
      show thesis
      proof (cases o3)
        case (Inr u)
        note cr = fs_create_dir_Ok [OF o3 [unfolded Inr], of "\<lambda>_. True", simplified]
        obtain sy s4 where sy: "sync_directory absolute OpenRootDirectory SyncRootDirectory s3 = (sy, s4)"
          by fastforce
        with run assms Inr have "s' = s4" "r = map_ok (\<lambda>_. ?cfg) sy" by (auto split: sum.splits)
        with rr dir ini cr sy quiet_installs [OF q2] quiet_same_entries [OF q2] show thesis
          by (intro created [of absolute ?cfg s3 sy]) (auto simp: map_ok_def split: sum.splits)
      next
        case (Inl e)
        have q3: "quiet (\<lambda>_. True) s s3"
          using quiet_trans [OF q2] fs_create_dir_Err [OF o3 [unfolded Inl], of "\<lambda>_. True"] by blast
        show thesis
        proof (cases "io_kind e = AlreadyExists")
          case False
          with run assms Inl q3 show thesis by (intro failed) (auto simp: io_err_def)
        next
          case True
          obtain o4 s4 where o4: "fs_metadata ?ns s3 = (o4, s4)" by fastforce
          have q4: "quiet (\<lambda>_. True) s s4" by (rule quiet_trans [OF q3 fs_metadata_quiet [OF o4]])
          show thesis
          proof (cases "\<exists>m. o4 = Ok m \<and> md_type m = IsDir")
            case False
            with run assms Inl True o4 have "\<exists>e. r = Err e \<and> s' = s4"
              by (auto simp: io_err_def split: sum.splits)
            with q4 show thesis using failed by auto
          next
            case isdir: True
            have "resolve LINK_LIMIT s3 = resolve LINK_LIMIT s"
              using resolve_cong [OF quiet_same_entries [OF q3]] by auto
            then have "is_directory ?ns s"
              using isdir o4 fs_metadata_Ok [of ?ns s3] by (auto simp: is_directory_def)
            with run assms Inl True o4 q4 isdir rr dir ini show thesis
              by (intro existing [of absolute ?cfg]) auto
          qed
        qed
      qed
    qed
  qed
qed

text \<open>C38. Opening a namespace either fails and changes nothing but, at most, having created the empty
  namespace directory, or returns the configuration it was asked for, with the namespace a child of the
  existing root and itself an existing directory; a namespace it created survives a power loss when the
  root is the directory that was synchronized.\<close>

theorem initialize_platform_correct:
  assumes "initialize_platform root ns format maximum conc s = (r, s')"
  shows "(\<exists>e. r = Err e) \<and> entry s' = entry s
    \<or> (\<exists>absolute cfg. resolved_root root s absolute \<and> is_directory absolute s
        \<and> initialized absolute ns format maximum conc cfg \<and> (r = Ok cfg \<or> (\<exists>e. r = Err e))
        \<and> (is_directory (cfg_namespace cfg) s \<and> r = Ok cfg \<and> entry s' = entry s
           \<or> entry s (cfg_namespace cfg) = None
             \<and> entry s' = (entry s)(cfg_namespace cfg \<mapsto> DirNode)
             \<and> (r = Ok cfg \<longrightarrow> entry s absolute = Some DirNode \<longrightarrow>
                  dir_part (cfg_namespace cfg) = absolute \<longrightarrow>
                  after_power_loss s' (cfg_namespace cfg) = {Some DirNode})))"
  using assms
proof (cases rule: initialize_cases)
  case (failed e)
  then show ?thesis using quiet_same_entries by blast
next
  case (existing absolute cfg)
  then show ?thesis using quiet_same_entries by blast
next
  case (created absolute cfg s1 s2)
  let ?ns = "cfg_namespace cfg"
  have e1: "entry s1 = (entry s)(?ns \<mapsto> DirNode)"
    using installs_entry [OF created(5)] by (auto simp: fun_eq_iff)
  moreover have "entry s' = entry s1" by (rule quiet_same_entries [OF sync_directory_quiet [OF created(7)]])
  moreover have "after_power_loss s' ?ns = {Some DirNode}"
    if "r = Ok cfg" "entry s absolute = Some DirNode" "dir_part ?ns = absolute"
  proof -
    from that(1) created(8) obtain u where "s2 = Ok u" by (auto simp: map_ok_eq_Ok)
    moreover from this have "entry s1 absolute = Some DirNode" using e1 that(2) by auto
    ultimately show ?thesis
      using sync_directory_durable [of absolute OpenRootDirectory SyncRootDirectory s1 u s' ?ns]
        created(7) that(3) e1 by simp
  qed
  ultimately show ?thesis using created(1-4,6) by (intro disjI2 exI [of _ absolute] exI [of _ cfg]) auto
qed

definition empty_root :: fs where
  "empty_root = demo_fs\<lparr>fs_base := [''/store'' \<mapsto> DirNode]\<rparr>"

lemma demo_initialize:
  "initialize_platform ''/store'' ''blobs'' golden_format 67108864 2 empty_root =
     (Ok golden_config, empty_root\<lparr>fs_log := [SyncDir ''/store'', Update [(''/store/blobs'', Some DirNode)]]\<rparr>)"
proof -
  have j: "path_join ''/store'' ''blobs'' = ''/store/blobs''" "is_absolute ''/store''"
    "dir_part ''/store/blobs'' = ''/store''"
    by (simp_all add: path_join_def is_absolute_def dir_part_def)
  have e: "entry empty_root ''/store'' = Some DirNode" "entry empty_root ''/store/blobs'' = None"
    "fs_faults empty_root = []"
    by (simp_all add: empty_root_def entry_def demo_fs_def)
  show ?thesis
    by (simp add: initialize_platform_def j fs_metadata_def syscall_def e resolve_dir fs_create_dir_def
        sync_directory_def file_open_def open_node_def sync_all_def Let_def)
       (simp add: golden_config_def record_event_def empty_root_def demo_fs_def)
qed

theorem initialize_platform_correct_witness:
  "entry (empty_root\<lparr>fs_log := [SyncDir ''/store'', Update [(''/store/blobs'', Some DirNode)]]\<rparr>)
     ''/store/blobs'' = Some DirNode"
  using initialize_platform_correct [OF demo_initialize]
  by (auto simp: initialized_def golden_config_def is_directory_def resolve_absent entry_def empty_root_def
      demo_fs_def)

end
