(* ===== verification/Operations.thy ===== *)
theory Operations
  imports BlobProps
begin

text \<open>
  \<open>src/engine/operation.rs\<close>: the operations a client submits, the result kinds, what a worker does with an
  operation and how its result or an error reaches the client. A reply channel is a number; the two ends
  of a stream that belong to the client are what the operation carries: the messages a streaming save
  receives, and how many chunks the receiver of a streaming load takes and whether it acknowledges.
\<close>

section \<open>Operations and results\<close>

type_synonym key = bytes
type_synonym reply = nat

datatype operation =
    LoadOp reply
  | LoadStreamOp "(nat \<times> bool) option" reply
  | SaveOp bytes reply
  | SaveStreamOp u64 "save_stream_message list" reply
  | ClearOp reply
  | InspectOp reply
  | QuarantineOp reply

datatype blocking_result =
    LoadResult "bytes option store_result"
  | LoadStreamResult "blob_metadata option store_result"
  | SaveResult "unit store_result"
  | SaveStreamResult "unit store_result"
  | ClearResult "unit store_result"
  | InspectResult "blob_inspection store_result"
  | QuarantineResult "quarantine_info store_result"

text \<open>What a reply channel carries.\<close>

datatype reply_value =
    LoadReply "bytes option store_result"
  | LoadStreamReply "blob_metadata option store_result"
  | UnitReply "unit store_result"
  | InspectReply "blob_inspection store_result"
  | QuarantineReply "quarantine_info store_result"
  | CleanupReply "cleanup_report store_result"

fun reply_of :: "operation \<Rightarrow> reply" where
  "reply_of (LoadOp sender) = sender"
| "reply_of (LoadStreamOp _ sender) = sender"
| "reply_of (SaveOp _ sender) = sender"
| "reply_of (SaveStreamOp _ _ sender) = sender"
| "reply_of (ClearOp sender) = sender"
| "reply_of (InspectOp sender) = sender"
| "reply_of (QuarantineOp sender) = sender"

text \<open>The outer option is \<open>None\<close> when the operation does not return; the inner one is \<open>None\<close> when it
  panics, which happens to a streaming load whose channel ends were already taken. The byte strings are
  the chunks a streaming load sent.\<close>

definition run_owned_operation ::
  "crc32c_lib \<Rightarrow> 'w unix_lib \<Rightarrow> store_config \<Rightarrow> path \<Rightarrow> operation \<Rightarrow> fs
     \<Rightarrow> ((operation \<times> blocking_result) option \<times> bytes list \<times> fs) option" where
  "run_owned_operation C U cfg p operation s =
     (case operation of
        LoadOp sender \<Rightarrow>
          (case load_blob C cfg p s of (result, s) \<Rightarrow>
             Some (Some (LoadOp sender, LoadResult result), [], s))
      | LoadStreamOp channels sender \<Rightarrow>
          (case channels of
             None \<Rightarrow> Some (None, [], s)
           | Some (accepts, acknowledged) \<Rightarrow>
               (case load_blob_into_sender C cfg p accepts acknowledged s of (result, sent, s) \<Rightarrow>
                  Some (Some (LoadStreamOp None sender, LoadStreamResult result), sent, s)))
      | SaveOp payload sender \<Rightarrow>
          (case save_blob C U cfg p payload s of (result, s) \<Rightarrow>
             Some (Some (SaveOp payload sender, SaveResult result), [], s))
      | SaveStreamOp declared_len chunks sender \<Rightarrow>
          (case save_blob_from_receiver C U cfg p declared_len chunks s of (result, chunks, s) \<Rightarrow>
             Some (Some (SaveStreamOp declared_len chunks sender, SaveStreamResult result), [], s))
      | ClearOp sender \<Rightarrow>
          (case clear_blob cfg p s of (result, s) \<Rightarrow>
             Some (Some (ClearOp sender, ClearResult result), [], s))
      | InspectOp sender \<Rightarrow>
          (case inspect_blob cfg p s of (result, s) \<Rightarrow>
             Some (Some (InspectOp sender, InspectResult result), [], s))
      | QuarantineOp sender \<Rightarrow>
          (case quarantine_blob U cfg p s of
             None \<Rightarrow> None
           | Some (result, s) \<Rightarrow> Some (Some (QuarantineOp sender, QuarantineResult result), [], s)))"

text \<open>\<open>None\<close> is the \<open>unreachable!\<close> of the last arm.\<close>

fun deliver :: "operation \<Rightarrow> blocking_result \<Rightarrow> (reply \<times> reply_value) option" where
  "deliver (LoadOp sender) (LoadResult result) = Some (sender, LoadReply result)"
| "deliver (LoadStreamOp _ sender) (LoadStreamResult result) = Some (sender, LoadStreamReply result)"
| "deliver (SaveOp _ sender) (SaveResult result) = Some (sender, UnitReply result)"
| "deliver (SaveStreamOp _ _ sender) (SaveStreamResult result) = Some (sender, UnitReply result)"
| "deliver (ClearOp sender) (ClearResult result) = Some (sender, UnitReply result)"
| "deliver (InspectOp sender) (InspectResult result) = Some (sender, InspectReply result)"
| "deliver (QuarantineOp sender) (QuarantineResult result) = Some (sender, QuarantineReply result)"
| "deliver _ _ = None"

fun deliver_error :: "operation \<Rightarrow> store_error \<Rightarrow> reply \<times> reply_value" where
  "deliver_error (LoadOp sender) error = (sender, LoadReply (Err error))"
| "deliver_error (LoadStreamOp _ sender) error = (sender, LoadStreamReply (Err error))"
| "deliver_error (SaveOp _ sender) error = (sender, UnitReply (Err error))"
| "deliver_error (SaveStreamOp _ _ sender) error = (sender, UnitReply (Err error))"
| "deliver_error (ClearOp sender) error = (sender, UnitReply (Err error))"
| "deliver_error (InspectOp sender) error = (sender, InspectReply (Err error))"
| "deliver_error (QuarantineOp sender) error = (sender, QuarantineReply (Err error))"

text \<open>Results of an operation's own kind: those \<open>run_owned_operation\<close> pairs it with.\<close>

fun result_matches :: "operation \<Rightarrow> blocking_result \<Rightarrow> bool" where
  "result_matches (LoadOp _) (LoadResult _) = True"
| "result_matches (LoadStreamOp _ _) (LoadStreamResult _) = True"
| "result_matches (SaveOp _ _) (SaveResult _) = True"
| "result_matches (SaveStreamOp _ _ _) (SaveStreamResult _) = True"
| "result_matches (ClearOp _) (ClearResult _) = True"
| "result_matches (InspectOp _) (InspectResult _) = True"
| "result_matches (QuarantineOp _) (QuarantineResult _) = True"
| "result_matches _ _ = False"

text \<open>They are the ones \<open>deliver\<close> has an arm for.\<close>

lemma deliver_iff: "deliver operation result = None \<longleftrightarrow> \<not> result_matches operation result"
  by (cases operation; cases result; simp)

lemma deliver_case: "(case deliver operation result of None \<Rightarrow> a | Some _ \<Rightarrow> b) = (if result_matches operation result then b else a)"
  by (cases operation; cases result; simp)

text \<open>The kinds of values the reply channel of an operation carries, by its type.\<close>

fun answers :: "operation \<Rightarrow> reply_value \<Rightarrow> bool" where
  "answers (LoadOp _) (LoadReply _) = True"
| "answers (LoadStreamOp _ _) (LoadStreamReply _) = True"
| "answers (SaveOp _ _) (UnitReply _) = True"
| "answers (SaveStreamOp _ _ _) (UnitReply _) = True"
| "answers (ClearOp _) (UnitReply _) = True"
| "answers (InspectOp _) (InspectReply _) = True"
| "answers (QuarantineOp _) (QuarantineReply _) = True"
| "answers _ _ = False"

lemma deliver_answers:
  assumes "result_matches operation' result" "reply_of operation' = reply_of operation" "result_matches operation result"
  shows "\<exists>v. deliver operation' result = Some (reply_of operation, v) \<and> answers operation v"
  using assms by (cases "(operation, result)" rule: deliver.cases; cases operation'; simp)

lemma deliver_error_answers: "\<exists>v. deliver_error operation error = (reply_of operation, v) \<and> answers operation v"
  by (cases operation) simp_all

lemma deliver_reply: "deliver operation result = Some (r, v) \<Longrightarrow> r = reply_of operation"
  by (cases "(operation, result)" rule: deliver.cases) auto

lemma deliver_error_reply [simp]: "fst (deliver_error operation error) = reply_of operation"
  by (cases operation) simp_all

lemma run_owned_operation_matches:
  "run_owned_operation C U cfg p operation s = Some (Some (operation', result), sent, s') \<Longrightarrow>
     result_matches operation' result \<and> reply_of operation' = reply_of operation \<and> result_matches operation result"
  by (cases operation)
     (auto simp: run_owned_operation_def split: prod.splits option.splits)

text \<open>The canonical file of a digest, as the worker computes it.\<close>

definition operation_path :: "blake3_lib \<Rightarrow> store_config \<Rightarrow> key \<Rightarrow> path" where
  "operation_path B cfg h = path_join (cfg_namespace cfg) (blob_file B (cfg_format cfg) h)"

end
