(* ===== verification/Scheduler.thy ===== *)
theory Scheduler
  imports Operations
begin

text \<open>
  The coordinator: \<open>src/engine/scheduler.rs\<close> with its worker pool (\<open>src/engine/workers.rs\<close>), events
  (\<open>src/engine/event.rs\<close>) and lifecycle (\<open>src/engine/lifecycle.rs\<close>). The state of \<open>run_scheduler\<close> is a
  record that each function returns updated; what the coordinator does to the outside (replies, jobs
  handed to workers, events it sends to itself) is the log \<open>out\<close>, oldest first. The registry of queues
  is an association list with distinct keys; the order in which the hash map is iterated is the parameter
  \<open>order\<close>, which may answer differently every time. The clone of the channel's sender that a queued
  operation carries is always the same channel and is left out of the records.
\<close>

section \<open>Worker pool\<close>

text \<open>The scripts say which of the next thread spawns succeed and which threads panicked when joined.\<close>

record worker_pool =
  wp_sender :: bool
  wp_handles :: nat
  wp_capacity :: nat
  wp_spawns :: "bool list"
  wp_panics :: "bool list"

definition worker_pool_new :: "nat \<Rightarrow> bool list \<Rightarrow> bool list \<Rightarrow> worker_pool" where
  "worker_pool_new capacity spawns panics =
     \<lparr>wp_sender = True, wp_handles = 0, wp_capacity = capacity, wp_spawns = spawns, wp_panics = panics\<rparr>"

function prepare :: "nat \<Rightarrow> worker_pool \<Rightarrow> unit store_result \<times> worker_pool" where
  "prepare required_workers pool =
     (if wp_handles pool < min required_workers (wp_capacity pool) then
        (case wp_spawns pool of
           False # spawns \<Rightarrow> (Err WorkerUnavailable, pool\<lparr>wp_spawns := spawns\<rparr>)
         | spawns \<Rightarrow> prepare required_workers
             (pool\<lparr>wp_spawns := drop 1 spawns, wp_handles := wp_handles pool + 1\<rparr>))
      else (Ok (), pool))"
  by pat_completeness auto
termination
  by (relation "measure (\<lambda>(required, pool). min required (wp_capacity pool) - wp_handles pool)") auto

declare prepare.simps [simp del]

text \<open>Sending a job fails only after the pool has given up its sender: it holds a receiver itself.\<close>

definition execute_ok :: "worker_pool \<Rightarrow> bool" where
  "execute_ok pool \<longleftrightarrow> wp_sender pool"

definition pool_shutdown :: "worker_pool \<Rightarrow> unit store_result \<times> worker_pool" where
  "pool_shutdown pool =
     (let panicked = True \<in> set (take (wp_handles pool) (wp_panics pool))
      in (if panicked then Err ShutdownFailure else Ok (),
          pool\<lparr>wp_sender := False, wp_handles := 0, wp_panics := drop (wp_handles pool) (wp_panics pool)\<rparr>))"

section \<open>Events and state\<close>

datatype lifecycle = Open | Closing | Closed | ShutdownFailed | Failed

type_synonym operation_outcome = "(operation \<times> blocking_result) option"
type_synonym maintenance_outcome = "(reply \<times> cleanup_report store_result) option"

datatype coordinator_event =
    Submission key operation
  | Completion key operation_outcome
  | Maintenance "nat option" reply
  | MaintenanceCompletion maintenance_outcome
  | Flush reply
  | Close reply

datatype pending_event =
    PendingSubmission key operation
  | PendingMaintenance "nat option" reply
  | PendingFlush reply
  | PendingClose reply

text \<open>The actions on an operation name its key. \<open>Refused\<close> and \<open>Delivered\<close> are the uses of \<open>deliver_error\<close> and \<open>deliver\<close>; \<open>Replied\<close> is any other
  send on a reply channel. \<open>Started\<close> hands an operation to a worker, \<open>Lost\<close> drops it with its channel.\<close>

datatype action =
    Started key operation
  | Lost key operation
  | Refused key operation store_error
  | Delivered key operation blocking_result
  | StartedMaintenance "nat option" reply
  | LostMaintenance reply
  | Replied reply reply_value
  | SentSelf coordinator_event

type_synonym 'a registry = "(key \<times> 'a list) list"

record sched =
  queues :: "operation registry"
  active :: "key list"
  pending :: "pending_event list"
  maintenance_active :: bool
  pool :: worker_pool
  lifecycle :: lifecycle
  iterations :: nat
  out :: "action list"

definition emit :: "action \<Rightarrow> sched \<Rightarrow> sched" where
  "emit a s = s\<lparr>out := out s @ [a]\<rparr>"

text \<open>The hash map operations the scheduler uses.\<close>

definition queue_of :: "'a registry \<Rightarrow> key \<Rightarrow> 'a list" where
  "queue_of qs k = (case map_of qs k of None \<Rightarrow> [] | Some q \<Rightarrow> q)"

fun set_queue :: "key \<Rightarrow> 'a list \<Rightarrow> 'a registry \<Rightarrow> 'a registry" where
  "set_queue k q [] = [(k, q)]"
| "set_queue k q ((k', q') # qs) = (if k' = k then (k, q) # qs else (k', q') # set_queue k q qs)"

definition remove_queue :: "key \<Rightarrow> 'a registry \<Rightarrow> 'a registry" where
  "remove_queue k qs = filter (\<lambda>(k', _). k' \<noteq> k) qs"

text \<open>\<open>queues.entry(key).or_default().push_back(op)\<close> and the removal of a queue that is empty.\<close>

definition push_queue :: "key \<Rightarrow> 'a \<Rightarrow> 'a registry \<Rightarrow> 'a registry" where
  "push_queue k x qs = set_queue k (queue_of qs k @ [x]) qs"

definition drop_if_empty :: "key \<Rightarrow> 'a registry \<Rightarrow> 'a registry" where
  "drop_if_empty k qs = (if map_of qs k = Some [] then remove_queue k qs else qs)"

definition queues_empty :: "'a registry \<Rightarrow> bool" where
  "queues_empty qs \<longleftrightarrow> list_all (\<lambda>(_, q). q = []) qs"

section \<open>Dispatch\<close>

definition dispatch_if_idle :: "nat \<Rightarrow> key \<Rightarrow> sched \<Rightarrow> sched" where
  "dispatch_if_idle maximum k s =
     (if k \<in> set (active s) \<or> maximum \<le> length (active s) then s
      else case queue_of (queues s) k of
        [] \<Rightarrow> s
      | operation # rest \<Rightarrow>
          (let s = s\<lparr>queues := set_queue k rest (queues s)\<rparr>
           in case prepare (length (active s) + 1) (pool s) of
                (Err error, p) \<Rightarrow>
                  emit (Refused k operation error)
                    (s\<lparr>pool := p, queues := drop_if_empty k (queues s)\<rparr>)
              | (Ok _, p) \<Rightarrow>
                  (let s = s\<lparr>pool := p, active := List.insert k (active s)\<rparr>
                   in if execute_ok p then emit (Started k operation) s
                      else emit (SentSelf (Completion k None)) (emit (Lost k operation) s))))"

text \<open>\<open>find_map\<close> over the hash map: the first key, in the order of this iteration, whose queue is not
  empty and which is not active.\<close>

type_synonym iteration_order = "nat \<Rightarrow> key list \<Rightarrow> key list"

definition find_dispatchable :: "iteration_order \<Rightarrow> sched \<Rightarrow> key option" where
  "find_dispatchable order s =
     List.find (\<lambda>k. queue_of (queues s) k \<noteq> [] \<and> k \<notin> set (active s))
       (order (iterations s) (map fst (queues s)))"

text \<open>Every round takes an operation from a queue.\<close>

definition queued_count :: "operation registry \<Rightarrow> nat" where
  "queued_count qs = sum_list (map (length \<circ> snd) qs)"

lemma queued_count_set_queue:
  "queue_of qs k = x # rest \<Longrightarrow> queued_count qs = Suc (queued_count (set_queue k rest qs))"
  by (induction qs) (auto simp: queued_count_def queue_of_def split: if_splits)

lemma queued_count_drop_if_empty: "queued_count (drop_if_empty k qs) \<le> queued_count qs"
proof -
  have "queued_count (remove_queue k qs) \<le> queued_count qs"
    by (induction qs) (auto simp: queued_count_def remove_queue_def)
  then show ?thesis by (simp add: drop_if_empty_def)
qed

lemma dispatch_if_idle_count:
  assumes "length (active s) < maximum" "k \<notin> set (active s)" "queue_of (queues s) k \<noteq> []"
  shows "queued_count (queues (dispatch_if_idle maximum k s)) < queued_count (queues s)"
proof -
  obtain x rest where q: "queue_of (queues s) k = x # rest" using assms(3) by (cases "queue_of (queues s) k") auto
  from queued_count_set_queue [OF q] have
    "queued_count (set_queue k rest (queues s)) < queued_count (queues s)" by simp
  moreover have "queued_count (drop_if_empty k (set_queue k rest (queues s))) < queued_count (queues s)"
    using queued_count_drop_if_empty [of k "set_queue k rest (queues s)"] calculation by linarith
  ultimately show ?thesis
    using assms q by (auto simp: dispatch_if_idle_def emit_def Let_def split: prod.splits sum.splits)
qed

lemma find_dispatchable_Some:
  "find_dispatchable order s = Some k \<Longrightarrow> queue_of (queues s) k \<noteq> [] \<and> k \<notin> set (active s)"
  by (auto simp: find_dispatchable_def find_Some_iff)

function dispatch_available :: "iteration_order \<Rightarrow> nat \<Rightarrow> sched \<Rightarrow> sched" where
  "dispatch_available order maximum s =
     (if length (active s) < maximum then
        (case find_dispatchable order s of
           None \<Rightarrow> s\<lparr>iterations := iterations s + 1\<rparr>
         | Some k \<Rightarrow>
             dispatch_available order maximum
               (dispatch_if_idle maximum k (s\<lparr>iterations := iterations s + 1\<rparr>)))
      else s)"
  by pat_completeness auto
termination
proof (relation "measure (\<lambda>(order, maximum, s). queued_count (queues s))", goal_cases)
  case (2 order maximum s k)
  with find_dispatchable_Some [OF 2(2)]
    dispatch_if_idle_count [of "s\<lparr>iterations := iterations s + 1\<rparr>" maximum k]
  show ?case by simp
qed simp

declare dispatch_available.simps [simp del]

section \<open>Maintenance and the pending events\<close>

definition dispatch_maintenance :: "nat option \<Rightarrow> reply \<Rightarrow> sched \<Rightarrow> sched" where
  "dispatch_maintenance minimum_age sender s =
     (case prepare 1 (pool s) of
        (Err error, p) \<Rightarrow>
          emit (SentSelf (MaintenanceCompletion None))
            (emit (Replied sender (CleanupReply (Err error))) (s\<lparr>pool := p\<rparr>))
      | (Ok _, p) \<Rightarrow>
          (let s = s\<lparr>pool := p\<rparr>
           in if execute_ok p then emit (StartedMaintenance minimum_age sender) s
              else emit (SentSelf (MaintenanceCompletion None)) (emit (LostMaintenance sender) s)))"

definition idle :: "sched \<Rightarrow> bool" where
  "idle s \<longleftrightarrow> active s = [] \<and> queues_empty (queues s)"

function advance_pending_if_ready :: "nat \<Rightarrow> sched \<Rightarrow> sched" where
  "advance_pending_if_ready maximum s =
     (if maintenance_active s then s
      else case pending s of
        [] \<Rightarrow> s
      | PendingMaintenance minimum_age sender # rest \<Rightarrow>
          if \<not> idle s then s
          else dispatch_maintenance minimum_age sender (s\<lparr>pending := rest, maintenance_active := True\<rparr>)
      | PendingSubmission k operation # rest \<Rightarrow>
          advance_pending_if_ready maximum
            (dispatch_if_idle maximum k
               (s\<lparr>pending := rest, queues := push_queue k operation (queues s)\<rparr>))
      | PendingFlush sender # rest \<Rightarrow>
          if \<not> idle s then s
          else advance_pending_if_ready maximum (emit (Replied sender (UnitReply (Ok ()))) (s\<lparr>pending := rest\<rparr>))
      | PendingClose sender # rest \<Rightarrow> s)"
  by pat_completeness auto

lemma dispatch_if_idle_pending [simp]: "pending (dispatch_if_idle maximum k s) = pending s"
  by (auto simp: dispatch_if_idle_def emit_def Let_def split: list.splits prod.splits sum.splits)

lemma emit_simps [simp]:
  "queues (emit a s) = queues s" "active (emit a s) = active s" "pending (emit a s) = pending s"
  "maintenance_active (emit a s) = maintenance_active s" "pool (emit a s) = pool s"
  "lifecycle (emit a s) = lifecycle s" "out (emit a s) = out s @ [a]"
  by (simp_all add: emit_def)

termination advance_pending_if_ready
  by (relation "measure (\<lambda>(maximum, s). length (pending s))") auto

declare advance_pending_if_ready.simps [simp del]

section \<open>Handling an event\<close>

text \<open>The body of the receive loop up to the close check. \<open>None\<close> is the panic of \<open>deliver\<close>.\<close>

definition handle_event :: "iteration_order \<Rightarrow> nat \<Rightarrow> coordinator_event \<Rightarrow> sched \<Rightarrow> sched option" where
  "handle_event order maximum event s =
     (case event of
        Submission k operation \<Rightarrow>
          Some (if lifecycle s \<noteq> Open then emit (Refused k operation StoreClosed) s
                else if maintenance_active s \<or> pending s \<noteq> []
                  then s\<lparr>pending := pending s @ [PendingSubmission k operation]\<rparr>
                else dispatch_available order maximum
                       (dispatch_if_idle maximum k (s\<lparr>queues := push_queue k operation (queues s)\<rparr>)))
      | Completion k outcome \<Rightarrow>
          (let s = s\<lparr>active := removeAll k (active s)\<rparr>;
               s = dispatch_if_idle maximum k s;
               s = dispatch_available order maximum s;
               s = (if k \<notin> set (active s) then s\<lparr>queues := drop_if_empty k (queues s)\<rparr> else s)
           in case outcome of
                None \<Rightarrow> Some (advance_pending_if_ready maximum s)
              | Some (operation, result) \<Rightarrow>
                  (case deliver operation result of
                     None \<Rightarrow> None
                   | Some _ \<Rightarrow>
                       Some (advance_pending_if_ready maximum (emit (Delivered k operation result) s))))
      | Maintenance minimum_age sender \<Rightarrow>
          Some (if lifecycle s \<noteq> Open then emit (Replied sender (CleanupReply (Err StoreClosed))) s
                else advance_pending_if_ready maximum
                       (s\<lparr>pending := pending s @ [PendingMaintenance minimum_age sender]\<rparr>))
      | MaintenanceCompletion outcome \<Rightarrow>
          (let s = s\<lparr>maintenance_active := False\<rparr>;
               s = (case outcome of None \<Rightarrow> s
                    | Some (sender, result) \<Rightarrow> emit (Replied sender (CleanupReply result)) s)
           in Some (advance_pending_if_ready maximum s))
      | Flush sender \<Rightarrow>
          Some (if lifecycle s \<noteq> Open then emit (Replied sender (UnitReply (Err StoreClosed))) s
                else advance_pending_if_ready maximum (s\<lparr>pending := pending s @ [PendingFlush sender]\<rparr>))
      | Close sender \<Rightarrow>
          (let s = (case lifecycle s of
                Open \<Rightarrow> s\<lparr>lifecycle := Closing, pending := pending s @ [PendingClose sender]\<rparr>
              | Closing \<Rightarrow> s\<lparr>pending := pending s @ [PendingClose sender]\<rparr>
              | Closed \<Rightarrow> emit (Replied sender (UnitReply (Ok ()))) s
              | _ \<Rightarrow> emit (Replied sender (UnitReply (Err ShutdownFailure))) s)
           in Some (advance_pending_if_ready maximum s)))"

text \<open>The branches that \<open>continue\<close> with the next event without the close check.\<close>

definition continues :: "coordinator_event \<Rightarrow> sched \<Rightarrow> bool" where
  "continues event s =
     (case event of
        Submission _ _ \<Rightarrow> lifecycle s \<noteq> Open \<or> maintenance_active s \<or> pending s \<noteq> []
      | Maintenance _ _ \<Rightarrow> lifecycle s \<noteq> Open
      | Flush _ \<Rightarrow> lifecycle s \<noteq> Open
      | _ \<Rightarrow> False)"

fun is_close :: "pending_event \<Rightarrow> bool" where
  "is_close (PendingClose _) = True"
| "is_close _ = False"

definition ready_to_close :: "sched \<Rightarrow> bool" where
  "ready_to_close s \<longleftrightarrow> (case pending s of [] \<Rightarrow> False | e # _ \<Rightarrow> is_close e)
     \<and> active s = [] \<and> queues_empty (queues s) \<and> \<not> maintenance_active s"

fun answer_close :: "unit store_result \<Rightarrow> sched \<Rightarrow> pending_event list \<Rightarrow> sched" where
  "answer_close result s (PendingClose sender # rest) =
     answer_close result (emit (Replied sender (UnitReply result)) (s\<lparr>pending := rest\<rparr>)) rest"
| "answer_close result s _ = s"

text \<open>What \<open>try_recv\<close> still finds in the channel after the shutdown.\<close>

fun drain_event :: "unit store_result \<Rightarrow> coordinator_event \<Rightarrow> sched \<Rightarrow> sched" where
  "drain_event result (Close sender) s = emit (Replied sender (UnitReply result)) s"
| "drain_event result (Submission k operation) s = emit (Refused k operation StoreClosed) s"
| "drain_event result (Maintenance _ sender) s = emit (Replied sender (CleanupReply (Err StoreClosed))) s"
| "drain_event result (Flush sender) s = emit (Replied sender (UnitReply (Err StoreClosed))) s"
| "drain_event result (Completion _ _) s = s"
| "drain_event result (MaintenanceCompletion _) s = s"

definition close_down :: "coordinator_event list \<Rightarrow> sched \<Rightarrow> sched" where
  "close_down rest s =
     (case pool_shutdown (pool s) of (outcome, p) \<Rightarrow>
        (let s = s\<lparr>pool := p, lifecycle := (if is_ok outcome then Closed else ShutdownFailed)\<rparr>;
             result = (if is_ok outcome then Ok () else Err ShutdownFailure);
             s = answer_close result s (pending s)
         in fold (drain_event result) rest s))"

text \<open>\<open>run_scheduler\<close> on the events the channel yields before every sender is gone. The boolean says
  whether the loop ended in the close check.\<close>

fun run_scheduler ::
  "iteration_order \<Rightarrow> nat \<Rightarrow> coordinator_event list \<Rightarrow> sched \<Rightarrow> (bool \<times> sched) option" where
  "run_scheduler order maximum [] s =
     (case pool_shutdown (pool s) of (_, p) \<Rightarrow> Some (False, s\<lparr>pool := p, lifecycle := Closed\<rparr>))"
| "run_scheduler order maximum (event # rest) s =
     (case handle_event order maximum event s of
        None \<Rightarrow> None
      | Some s' \<Rightarrow>
          if \<not> continues event s \<and> ready_to_close s' then Some (True, close_down rest s')
          else run_scheduler order maximum rest s')"

text \<open>After a panic of the coordinator, everything still queued in the channel is failed.\<close>

fun fail_event :: "coordinator_event \<Rightarrow> action list" where
  "fail_event (Submission k operation) = [Refused k operation EngineFailed]"
| "fail_event (Maintenance _ sender) = [Replied sender (CleanupReply (Err EngineFailed))]"
| "fail_event (MaintenanceCompletion outcome) =
     (case outcome of None \<Rightarrow> [] | Some (sender, _) \<Rightarrow> [Replied sender (CleanupReply (Err EngineFailed))])"
| "fail_event (Flush sender) = [Replied sender (UnitReply (Err EngineFailed))]"
| "fail_event (Close sender) = [Replied sender (UnitReply (Err ShutdownFailure))]"
| "fail_event (Completion k outcome) =
     (case outcome of None \<Rightarrow> [] | Some (operation, _) \<Rightarrow> [Refused k operation EngineFailed])"

definition fail_queued_after_coordinator_panic :: "coordinator_event list \<Rightarrow> action list" where
  "fail_queued_after_coordinator_panic events = concat (map fail_event events)"

end
