(* ===== verification/SchedulerInv.thy ===== *)
theory SchedulerInv
  imports Scheduler
begin

text \<open>
  What the functions of the coordinator do to its state: the registry as a map from keys to queues, the
  cases of a dispatch, and for every function the account of the operations it took from the backlog of
  each key and of the keys it made active.
\<close>

section \<open>The registry as a map\<close>

definition wf_registry :: "'a registry \<Rightarrow> bool" where
  "wf_registry qs \<longleftrightarrow> distinct (map fst qs)"

lemma queue_of_set_queue [simp]:
  "queue_of (set_queue k q qs) k' = (if k' = k then q else queue_of qs k')"
  by (induction qs) (auto simp: queue_of_def)

lemma queue_of_push_queue [simp]:
  "queue_of (push_queue k x qs) k' = (if k' = k then queue_of qs k @ [x] else queue_of qs k')"
  by (simp add: push_queue_def)

lemma map_of_remove_queue: "map_of (remove_queue k qs) k' = (if k' = k then None else map_of qs k')"
  by (induction qs) (auto simp: remove_queue_def)

lemma queue_of_drop_if_empty [simp]: "queue_of (drop_if_empty k qs) k' = queue_of qs k'"
  by (auto simp: drop_if_empty_def queue_of_def map_of_remove_queue split: option.splits)

lemma fst_set_queue: "fst ` set (set_queue k q qs) = insert k (fst ` set qs)"
  by (induction k q qs rule: set_queue.induct) auto

lemma wf_set_queue [simp]: "wf_registry qs \<Longrightarrow> wf_registry (set_queue k q qs)"
  unfolding wf_registry_def
  by (induction k q qs rule: set_queue.induct) (auto simp: fst_set_queue)

lemma wf_push_queue [simp]: "wf_registry qs \<Longrightarrow> wf_registry (push_queue k x qs)"
  by (simp add: push_queue_def)

lemma wf_drop_if_empty [simp]: "wf_registry qs \<Longrightarrow> wf_registry (drop_if_empty k qs)"
  by (auto simp: drop_if_empty_def remove_queue_def wf_registry_def intro: distinct_map_filter)

lemma wf_registry_Nil [simp]: "wf_registry []"
  by (simp add: wf_registry_def)

lemma queues_empty_iff:
  assumes "wf_registry qs"
  shows "queues_empty qs \<longleftrightarrow> (\<forall>k. queue_of qs k = [])"
proof
  assume e: "queues_empty qs"
  show "\<forall>k. queue_of qs k = []"
  proof
    fix k
    show "queue_of qs k = []"
      using e by (cases "map_of qs k") (auto simp: queue_of_def queues_empty_def list_all_iff dest!: map_of_SomeD)
  qed
next
  assume a: "\<forall>k. queue_of qs k = []"
  have "q = []" if "(k, q) \<in> set qs" for k q
    using map_of_is_SomeI [OF assms [unfolded wf_registry_def] that] a [rule_format, of k]
    by (simp add: queue_of_def)
  then show "queues_empty qs" by (auto simp: queues_empty_def list_all_iff)
qed

lemma queue_of_registered: "queue_of qs k \<noteq> [] \<Longrightarrow> k \<in> fst ` set qs"
  by (auto simp: queue_of_def split: option.splits dest: map_of_SomeD intro: rev_image_eqI)

section \<open>The worker pool\<close>

lemma prepare_step:
  "prepare n p =
     (if \<not> wp_handles p < min n (wp_capacity p) then (Ok (), p)
      else if \<exists>bs. wp_spawns p = False # bs then (Err WorkerUnavailable, p\<lparr>wp_spawns := tl (wp_spawns p)\<rparr>)
      else prepare n (p\<lparr>wp_spawns := drop 1 (wp_spawns p), wp_handles := wp_handles p + 1\<rparr>))"
  by (subst prepare.simps) (auto split: list.splits bool.splits)

definition pool_grows :: "nat \<Rightarrow> unit store_result \<Rightarrow> worker_pool \<Rightarrow> worker_pool \<Rightarrow> bool" where
  "pool_grows n r p p' \<longleftrightarrow> (r = Ok () \<or> r = Err WorkerUnavailable)
     \<and> wp_sender p' = wp_sender p \<and> wp_capacity p' = wp_capacity p
     \<and> wp_handles p \<le> wp_handles p' \<and> wp_handles p' \<le> max (wp_handles p) (wp_capacity p)
     \<and> (r = Ok () \<longrightarrow> min n (wp_capacity p) \<le> wp_handles p')"

lemma prepare_cases: "prepare n p = (r, p') \<Longrightarrow> pool_grows n r p p'"
proof (induction "wp_capacity p - wp_handles p" arbitrary: p rule: less_induct)
  case less
  show ?case
  proof (cases "wp_handles p < min n (wp_capacity p)")
    case False
    with less.prems show ?thesis by (auto simp: prepare_step [of n p] pool_grows_def)
  next
    case True
    show ?thesis
    proof (cases "\<exists>bs. wp_spawns p = False # bs")
      case stop: True
      with less.prems True show ?thesis by (auto simp: prepare_step [of n p] pool_grows_def)
    next
      case False
      let ?p = "p\<lparr>wp_spawns := drop 1 (wp_spawns p), wp_handles := wp_handles p + 1\<rparr>"
      have "prepare n ?p = (r, p')" using less.prems True False by (simp add: prepare_step [of n p])
      moreover have "wp_capacity ?p - wp_handles ?p < wp_capacity p - wp_handles p" using True by (simp add: diff_less_mono2)
      ultimately have "pool_grows n r ?p p'" using less.hyps by blast
      with True show ?thesis by (auto simp: pool_grows_def)
    qed
  qed
qed

section \<open>Accounting\<close>

text \<open>The operations the actions take from the backlog of a key, in order, and the keys of the started
  ones.\<close>

fun op_of :: "key \<Rightarrow> action \<Rightarrow> operation list" where
  "op_of k (Started k' operation) = (if k' = k then [operation] else [])"
| "op_of k (Refused k' operation error) = (if k' = k \<and> error = WorkerUnavailable then [operation] else [])"
| "op_of k _ = []"

definition ops_of :: "key \<Rightarrow> action list \<Rightarrow> operation list" where
  "ops_of k acts = concat (map (op_of k) acts)"

fun started_key :: "action \<Rightarrow> key list" where
  "started_key (Started k _) = [k]"
| "started_key _ = []"

definition started_keys :: "action list \<Rightarrow> key list" where
  "started_keys acts = concat (map started_key acts)"

fun pending_op :: "key \<Rightarrow> pending_event \<Rightarrow> operation list" where
  "pending_op k (PendingSubmission k' operation) = (if k' = k then [operation] else [])"
| "pending_op k _ = []"

definition backlog :: "key \<Rightarrow> sched \<Rightarrow> operation list" where
  "backlog k s = queue_of (queues s) k @ concat (map (pending_op k) (pending s))"

lemma ops_of_simps [simp]:
  "ops_of k [] = []" "ops_of k (a # acts) = op_of k a @ ops_of k acts"
  "ops_of k (acts @ acts') = ops_of k acts @ ops_of k acts'"
  by (simp_all add: ops_of_def)

lemma started_keys_simps [simp]:
  "started_keys [] = []" "started_keys (a # acts) = started_key a @ started_keys acts"
  "started_keys (acts @ acts') = started_keys acts @ started_keys acts'"
  by (simp_all add: started_keys_def)

fun maintenance_token :: "action \<Rightarrow> nat" where
  "maintenance_token (StartedMaintenance _ _) = 1"
| "maintenance_token (SentSelf (MaintenanceCompletion _)) = 1"
| "maintenance_token _ = 0"

definition maintenance_tokens :: "action list \<Rightarrow> nat" where
  "maintenance_tokens acts = sum_list (map maintenance_token acts)"

lemma maintenance_tokens_simps [simp]:
  "maintenance_tokens [] = 0" "maintenance_tokens (a # acts) = maintenance_token a + maintenance_tokens acts"
  "maintenance_tokens (acts @ acts') = maintenance_tokens acts + maintenance_tokens acts'"
  by (simp_all add: maintenance_tokens_def)

text \<open>The work that is left: what waits counts more than what is at a worker, and that more than what comes
  back.\<close>

fun pending_load :: "pending_event \<Rightarrow> nat" where
  "pending_load (PendingSubmission _ _) = 3"
| "pending_load (PendingMaintenance _ _) = 3"
| "pending_load _ = 1"

definition load :: "sched \<Rightarrow> nat" where
  "load s = 3 * queued_count (queues s) + sum_list (map pending_load (pending s))"

lemma load_frame [simp]:
  "load (emit a s) = load s" "load (s\<lparr>active := ks\<rparr>) = load s" "load (s\<lparr>maintenance_active := b\<rparr>) = load s"
  "load (s\<lparr>pool := p\<rparr>) = load s" "load (s\<lparr>lifecycle := l\<rparr>) = load s"
  "load (s\<lparr>pending := pending s @ [e]\<rparr>) = load s + pending_load e"
  "load (s\<lparr>lifecycle := l, pending := pending s @ [e]\<rparr>) = load s + pending_load e"
  by (simp_all add: load_def)

fun cost :: "action \<Rightarrow> nat" where
  "cost (Started _ _) = 2"
| "cost (StartedMaintenance _ _) = 2"
| "cost (SentSelf _) = 1"
| "cost _ = 0"

definition costs :: "action list \<Rightarrow> nat" where
  "costs acts = sum_list (map cost acts)"

lemma costs_simps [simp]:
  "costs [] = 0" "costs (a # acts) = cost a + costs acts" "costs (acts @ acts') = costs acts + costs acts'"
  by (simp_all add: costs_def)

lemma queued_count_push [simp]: "queued_count (push_queue k x qs) = Suc (queued_count qs)"
proof -
  have "queued_count (set_queue k (queue_of qs k @ [x]) qs) = Suc (queued_count qs)"
    by (induction qs) (auto simp: queued_count_def queue_of_def)
  then show ?thesis by (simp add: push_queue_def)
qed

lemma queued_count_taken:
  assumes "queue_of qs k = x # rest"
  shows "Suc (queued_count (set_queue k rest qs)) = queued_count qs"
    "Suc (queued_count (drop_if_empty k (set_queue k rest qs))) \<le> queued_count qs"
  using queued_count_set_queue [OF assms] queued_count_drop_if_empty [of k "set_queue k rest qs"] by auto

text \<open>What the dispatch of operations emits.\<close>

fun is_dispatch :: "action \<Rightarrow> bool" where
  "is_dispatch (Started _ _) = True"
| "is_dispatch (Refused _ _ _) = True"
| "is_dispatch _ = False"

lemma is_dispatch_only:
  assumes "list_all is_dispatch acts"
  shows "maintenance_tokens acts = 0" "Replied r v \<notin> set acts"
proof -
  show "maintenance_tokens acts = 0"
    using assms by (induction acts) (auto elim: is_dispatch.elims)
  show "Replied r v \<notin> set acts" using assms by (auto simp: list_all_iff)
qed

text \<open>The invariant of the state itself.\<close>

definition wf_sched :: "nat \<Rightarrow> sched \<Rightarrow> bool" where
  "wf_sched maximum s \<longleftrightarrow> wf_registry (queues s) \<and> distinct (active s) \<and> length (active s) \<le> maximum
     \<and> wp_sender (pool s) \<and> wp_capacity (pool s) = maximum
     \<and> length (active s) \<le> wp_handles (pool s) \<and> wp_handles (pool s) \<le> maximum"

text \<open>The actions that do not depend on the event: everything but the delivery of a result and the refusal
  of an operation by a closing store. An operation or a maintenance request is never lost.\<close>

fun routine :: "action \<Rightarrow> bool" where
  "routine (Started _ _) = True"
| "routine (Refused _ _ error) = (error = WorkerUnavailable)"
| "routine (StartedMaintenance _ _) = True"
| "routine (Replied _ _) = True"
| "routine (SentSelf event) = (event = MaintenanceCompletion None)"
| "routine _ = False"

text \<open>\<open>moves s acts s'\<close>: the actions explain the change of the state.\<close>

definition moves :: "nat \<Rightarrow> sched \<Rightarrow> action list \<Rightarrow> sched \<Rightarrow> bool" where
  "moves maximum s acts s' \<longleftrightarrow>
     out s' = out s @ acts \<and> (\<forall>k. backlog k s = ops_of k acts @ backlog k s')
     \<and> active s' = rev (started_keys acts) @ active s \<and> lifecycle s' = lifecycle s
     \<and> list_all routine acts \<and> load s' + costs acts \<le> load s
     \<and> (wf_sched maximum s \<longrightarrow> wf_sched maximum s')"

lemma moves_refl [simp, intro]: "moves maximum s [] s"
  by (simp add: moves_def)

lemma moves_trans:
  "moves maximum s acts s' \<Longrightarrow> moves maximum s' acts' s'' \<Longrightarrow> moves maximum s (acts @ acts') s''"
  by (auto simp: moves_def)

lemma moves_iterations [simp, intro]: "moves maximum s [] (s\<lparr>iterations := n\<rparr>)"
  by (simp add: moves_def backlog_def wf_sched_def load_def)

section \<open>Dispatching one key\<close>

lemma dispatch_if_idle_cases:
  assumes "wp_sender (pool s)"
  obtains (same) "dispatch_if_idle maximum k s = s"
      "k \<in> set (active s) \<or> maximum \<le> length (active s) \<or> queue_of (queues s) k = []"
  | (refused) operation rest p where "k \<notin> set (active s)" "length (active s) < maximum"
      "queue_of (queues s) k = operation # rest"
      "dispatch_if_idle maximum k s = emit (Refused k operation WorkerUnavailable)
         (s\<lparr>pool := p, queues := drop_if_empty k (set_queue k rest (queues s))\<rparr>)"
      "pool_grows (length (active s) + 1) (Err WorkerUnavailable) (pool s) p"
  | (started) operation rest p where "k \<notin> set (active s)" "length (active s) < maximum"
      "queue_of (queues s) k = operation # rest"
      "dispatch_if_idle maximum k s = emit (Started k operation)
         (s\<lparr>queues := set_queue k rest (queues s), pool := p, active := k # active s\<rparr>)"
      "pool_grows (length (active s) + 1) (Ok ()) (pool s) p"
proof (cases "k \<in> set (active s) \<or> maximum \<le> length (active s)")
  case True
  then show thesis by (intro same) (auto simp: dispatch_if_idle_def)
next
  case idle: False
  show thesis
  proof (cases "queue_of (queues s) k")
    case Nil
    with idle show thesis by (intro same) (auto simp: dispatch_if_idle_def)
  next
    case (Cons operation rest)
    obtain r p where p: "prepare (length (active s) + 1) (pool s) = (r, p)" by fastforce
    note pc = prepare_cases [OF p]
    show thesis
    proof (cases r)
      case (Inl e)
      with pc have "r = Err WorkerUnavailable" by (simp add: pool_grows_def)
      with idle Cons p pc show thesis
        by (intro refused [of operation rest p]) (auto simp: dispatch_if_idle_def Let_def)
    next
      case (Inr u)
      with idle Cons p pc assms show thesis
        by (intro started [of operation rest p])
           (auto simp: dispatch_if_idle_def Let_def execute_ok_def pool_grows_def)
    qed
  qed
qed

lemma dispatch_if_idle_moves:
  assumes "wp_sender (pool s)"
  shows "\<exists>acts. moves maximum s acts (dispatch_if_idle maximum k s)
    \<and> maintenance_active (dispatch_if_idle maximum k s) = maintenance_active s
    \<and> list_all is_dispatch acts"
  using assms
proof (cases rule: dispatch_if_idle_cases [where maximum = maximum and k = k])
  case same
  then show ?thesis by (auto intro: exI [of _ "[]"])
next
  case (refused operation rest p)
  have "moves maximum s [Refused k operation WorkerUnavailable] (dispatch_if_idle maximum k s)"
    using refused(3,5) queued_count_taken(2) [OF refused(3)] unfolding refused(4)
    by (auto simp: moves_def backlog_def wf_sched_def pool_grows_def load_def)
  then show ?thesis using refused(4) by (auto intro!: exI)
next
  case (started operation rest p)
  have "moves maximum s [Started k operation] (dispatch_if_idle maximum k s)"
    using started(1,2,3,5) queued_count_taken(1) [OF started(3)] unfolding started(4)
    by (auto simp: moves_def backlog_def wf_sched_def pool_grows_def load_def)
  then show ?thesis using started(4) by (auto intro!: exI)
qed

lemma dispatch_if_idle_sender:
  assumes "wp_sender (pool s)"
  shows "wp_sender (pool (dispatch_if_idle maximum k s))"
  by (rule dispatch_if_idle_cases [OF assms, of maximum k]) (use assms in \<open>auto simp: pool_grows_def\<close>)

section \<open>Dispatching what is available\<close>

lemma dispatch_available_moves:
  assumes "wp_sender (pool s)"
  shows "\<exists>acts. moves maximum s acts (dispatch_available order maximum s)
    \<and> maintenance_active (dispatch_available order maximum s) = maintenance_active s
    \<and> pending (dispatch_available order maximum s) = pending s \<and> list_all is_dispatch acts"
  using assms
proof (induction order maximum s rule: dispatch_available.induct)
  case (1 order maximum s)
  show ?case
  proof (cases "length (active s) < maximum")
    case False
    then show ?thesis
      by (intro exI [of _ "[]"]) (simp add: dispatch_available.simps [of order maximum s])
  next
    case True
    show ?thesis
    proof (cases "find_dispatchable order s")
      case None
      with True show ?thesis
        by (intro exI [of _ "[]"]) (simp add: dispatch_available.simps [of order maximum s])
    next
      case (Some k)
      let ?s1 = "s\<lparr>iterations := iterations s + 1\<rparr>"
      let ?s2 = "dispatch_if_idle maximum k ?s1"
      obtain a1 where a1: "moves maximum ?s1 a1 ?s2" "maintenance_active ?s2 = maintenance_active s" "list_all is_dispatch a1"
        using dispatch_if_idle_moves [of ?s1 maximum k] "1.prems" by auto
      have "wp_sender (pool ?s2)"
        using "1.prems" by (intro dispatch_if_idle_sender) simp
      from "1.IH" [OF True Some this] obtain a2 where
        "moves maximum ?s2 a2 (dispatch_available order maximum ?s2)"
        "maintenance_active (dispatch_available order maximum ?s2) = maintenance_active ?s2"
        "pending (dispatch_available order maximum ?s2) = pending ?s2" "list_all is_dispatch a2" by blast
      moreover have "moves maximum s ([] @ a1 @ a2) (dispatch_available order maximum ?s2)"
        by (rule moves_trans [OF moves_iterations moves_trans [OF a1(1) calculation(1)]])
      ultimately show ?thesis
        using True Some a1(2,3)
        by (intro exI [of _ "a1 @ a2"]) (auto simp: dispatch_available.simps [of order maximum s])
    qed
  qed
qed

text \<open>The hash map yields each of its keys once, in whatever order.\<close>

locale hash_order =
  fixes order :: iteration_order
  assumes order_keys: "set (order n ks) = set ks"

definition rotating_order :: iteration_order where
  "rotating_order n ks = rotate n ks"

interpretation rotating: hash_order rotating_order
  by unfold_locales (simp add: rotating_order_def)

text \<open>Work conservation: an operation waits only for its own key or for a slot.\<close>

definition work_conserving :: "nat \<Rightarrow> sched \<Rightarrow> bool" where
  "work_conserving maximum s \<longleftrightarrow>
     (\<forall>k. queue_of (queues s) k \<noteq> [] \<longrightarrow> k \<in> set (active s) \<or> maximum \<le> length (active s))"

context hash_order
begin

lemma find_dispatchable_None:
  assumes "find_dispatchable order s = None"
  shows "work_conserving maximum s"
  using assms queue_of_registered [of "queues s"]
  by (auto simp: find_dispatchable_def find_None_iff order_keys work_conserving_def)

lemma dispatch_available_conserving: "work_conserving maximum (dispatch_available order maximum s)"
proof (induction "queued_count (queues s)" arbitrary: s rule: less_induct)
  case less
  show ?case
  proof (cases "length (active s) < maximum")
    case False
    then show ?thesis by (simp add: dispatch_available.simps [of order maximum s] work_conserving_def)
  next
    case True
    show ?thesis
    proof (cases "find_dispatchable order s")
      case None
      from find_dispatchable_None [OF None, of maximum] None True show ?thesis
        by (simp add: dispatch_available.simps [of order maximum s] work_conserving_def)
    next
      case (Some k)
      let ?s1 = "s\<lparr>iterations := iterations s + 1\<rparr>"
      have "queued_count (queues (dispatch_if_idle maximum k ?s1)) < queued_count (queues s)"
        using dispatch_if_idle_count [of ?s1 maximum k] find_dispatchable_Some [OF Some] True by simp
      from less.hyps [OF this] True Some show ?thesis
        by (simp add: dispatch_available.simps [of order maximum s])
    qed
  qed
qed

end

lemma dispatch_if_idle_conserving:
  assumes "wp_sender (pool s)" "work_conserving maximum s"
  shows "work_conserving maximum
    (dispatch_if_idle maximum k (s\<lparr>pending := rest, queues := push_queue k operation (queues s)\<rparr>))"
    (is "work_conserving maximum (dispatch_if_idle maximum k ?s)")
proof -
  have p: "wp_sender (pool ?s)" using assms(1) by simp
  show ?thesis
  proof (rule dispatch_if_idle_cases [OF p, of maximum k])
    fix operation' rest' pl
    assume *: "k \<notin> set (active ?s)" "length (active ?s) < maximum"
      "queue_of (queues ?s) k = operation' # rest'"
    then have "queue_of (queues s) k = []" using assms(2) by (auto simp: work_conserving_def)
    with * have r: "rest' = []" by simp
    show "dispatch_if_idle maximum k ?s = emit (Refused k operation' WorkerUnavailable)
        (?s\<lparr>pool := pl, queues := drop_if_empty k (set_queue k rest' (queues ?s))\<rparr>) \<Longrightarrow> pool_grows (length (active ?s) + 1) (Err WorkerUnavailable) (pool ?s) pl \<Longrightarrow> ?thesis"
      using assms(2) r by (auto simp: work_conserving_def)
    show "dispatch_if_idle maximum k ?s = emit (Started k operation')
        (?s\<lparr>queues := set_queue k rest' (queues ?s), pool := pl, active := k # active ?s\<rparr>) \<Longrightarrow> pool_grows (length (active ?s) + 1) (Ok ()) (pool ?s) pl \<Longrightarrow> ?thesis"
      using assms(2) r by (auto simp: work_conserving_def)
  qed (use assms(2) in \<open>auto simp: work_conserving_def\<close>)
qed

section \<open>Advancing the pending events\<close>

definition blocked :: "sched \<Rightarrow> bool" where
  "blocked s \<longleftrightarrow> maintenance_active s \<or>
     (case pending s of
        [] \<Rightarrow> True
      | PendingSubmission _ _ # _ \<Rightarrow> False
      | PendingClose _ # _ \<Rightarrow> True
      | _ \<Rightarrow> \<not> idle s)"

definition exclusive :: "sched \<Rightarrow> bool" where
  "exclusive s \<longleftrightarrow> (maintenance_active s \<longrightarrow> idle s)"

text \<open>Everything \<open>advance_pending_if_ready\<close> does, in terms of the state before.\<close>

definition advanced :: "nat \<Rightarrow> sched \<Rightarrow> action list \<Rightarrow> sched \<Rightarrow> bool" where
  "advanced maximum s acts s' \<longleftrightarrow> moves maximum s acts s'
     \<and> (work_conserving maximum s \<longrightarrow> work_conserving maximum s')
     \<and> (exclusive s \<longrightarrow> exclusive s')
     \<and> (\<exists>done. pending s = done @ pending s' \<and> list_all (\<lambda>e. \<not> is_close e) done)
     \<and> of_bool (maintenance_active s') = of_bool (maintenance_active s) + maintenance_tokens acts"

lemma advanced_refl [simp, intro]: "advanced maximum s [] s"
  by (auto simp: advanced_def)

lemma advanced_trans:
  assumes "advanced maximum s acts s'" "advanced maximum s' acts' s''"
  shows "advanced maximum s (acts @ acts') s''"
proof -
  from assms obtain d d' where "pending s = d @ pending s'" "list_all (\<lambda>e. \<not> is_close e) d"
    "pending s' = d' @ pending s''" "list_all (\<lambda>e. \<not> is_close e) d'" by (auto simp: advanced_def)
  then have "pending s = (d @ d') @ pending s'' \<and> list_all (\<lambda>e. \<not> is_close e) (d @ d')" by simp
  with assms show ?thesis
    unfolding advanced_def by (auto intro: moves_trans)
qed

lemma advance_submission:
  assumes "wp_sender (pool s)" "pending s = PendingSubmission k operation # rest" "\<not> maintenance_active s"
  shows "\<exists>acts. advanced maximum s acts
    (dispatch_if_idle maximum k (s\<lparr>pending := rest, queues := push_queue k operation (queues s)\<rparr>))"
    (is "\<exists>acts. advanced maximum s acts (dispatch_if_idle maximum k ?s)")
proof -
  have p: "wp_sender (pool ?s)" using assms(1) by simp
  obtain acts where a: "moves maximum ?s acts (dispatch_if_idle maximum k ?s)"
    "maintenance_active (dispatch_if_idle maximum k ?s) = maintenance_active ?s" "list_all is_dispatch acts"
    using dispatch_if_idle_moves [OF p] by blast
  have "moves maximum s [] ?s"
    using assms(2) by (auto simp: moves_def backlog_def wf_sched_def load_def)
  from moves_trans [OF this a(1)] have "moves maximum s acts (dispatch_if_idle maximum k ?s)" by simp
  then have "advanced maximum s acts (dispatch_if_idle maximum k ?s)"
    using a is_dispatch_only(1) [OF a(3)] dispatch_if_idle_conserving [OF assms(1)] assms(2,3)
    by (auto simp: advanced_def exclusive_def)
  then show ?thesis ..
qed

lemma dispatch_maintenance_cases:
  assumes "wp_sender (pool s)"
  obtains (refused) error p where "dispatch_maintenance age sender s =
       emit (SentSelf (MaintenanceCompletion None))
         (emit (Replied sender (CleanupReply (Err error))) (s\<lparr>pool := p\<rparr>))"
       "pool_grows 1 (Err error) (pool s) p"
  | (started) p where "dispatch_maintenance age sender s = emit (StartedMaintenance age sender) (s\<lparr>pool := p\<rparr>)"
      "pool_grows 1 (Ok ()) (pool s) p"
proof -
  obtain r p where p: "prepare 1 (pool s) = (r, p)" by fastforce
  note pc = prepare_cases [OF p]
  show thesis
  proof (cases r)
    case (Inl e)
    with p pc show thesis
      by (intro refused [of e p]) (auto simp: dispatch_maintenance_def)
  next
    case (Inr u)
    with p pc assms show thesis
      by (intro started [of p]) (auto simp: dispatch_maintenance_def Let_def execute_ok_def pool_grows_def)
  qed
qed

lemma idle_frame [simp]:
  "idle (emit a s) = idle s" "idle (s\<lparr>pool := p\<rparr>) = idle s" "idle (s\<lparr>pending := ps\<rparr>) = idle s"
  "idle (s\<lparr>maintenance_active := b\<rparr>) = idle s"
  by (simp_all add: idle_def)

lemma advance_maintenance:
  assumes "wp_sender (pool s)" "pending s = PendingMaintenance age sender # rest" "idle s"
    "\<not> maintenance_active s"
  shows "\<exists>acts. advanced maximum s acts
    (dispatch_maintenance age sender (s\<lparr>pending := rest, maintenance_active := True\<rparr>))"
    (is "\<exists>acts. advanced maximum s acts (dispatch_maintenance age sender ?s)")
proof -
  have p: "wp_sender (pool ?s)" using assms(1) by simp
  show ?thesis
  proof (rule dispatch_maintenance_cases [OF p, of age sender])
    fix error pl
    assume d: "dispatch_maintenance age sender ?s = emit (SentSelf (MaintenanceCompletion None))
         (emit (Replied sender (CleanupReply (Err error))) (?s\<lparr>pool := pl\<rparr>))"
      "pool_grows 1 (Err error) (pool ?s) pl"
    have "advanced maximum s [Replied sender (CleanupReply (Err error)), SentSelf (MaintenanceCompletion None)]
        (dispatch_maintenance age sender ?s)"
      unfolding d(1) using d(2) assms
      by (auto simp: advanced_def moves_def backlog_def wf_sched_def work_conserving_def exclusive_def pool_grows_def load_def)
    then show ?thesis ..
  next
    fix pl
    assume d: "dispatch_maintenance age sender ?s = emit (StartedMaintenance age sender) (?s\<lparr>pool := pl\<rparr>)"
      "pool_grows 1 (Ok ()) (pool ?s) pl"
    have "advanced maximum s [StartedMaintenance age sender] (dispatch_maintenance age sender ?s)"
      unfolding d(1) using d(2) assms
      by (auto simp: advanced_def moves_def backlog_def wf_sched_def work_conserving_def exclusive_def pool_grows_def load_def)
    then show ?thesis ..
  qed
qed

lemma advance_flush:
  assumes "pending s = PendingFlush sender # rest" "\<not> maintenance_active s"
  shows "advanced maximum s [Replied sender (UnitReply (Ok ()))]
    (emit (Replied sender (UnitReply (Ok ()))) (s\<lparr>pending := rest\<rparr>))"
  using assms
  by (auto simp: advanced_def moves_def backlog_def wf_sched_def work_conserving_def exclusive_def load_def)

text \<open>Induction over the pending requests that are taken: the state waits, or the first request is taken.\<close>

lemma advance_induct [case_names waits submission maintenance flush]:
  assumes waits: "\<And>s. advance_pending_if_ready maximum s = s \<Longrightarrow> blocked s \<Longrightarrow> Q s"
    and submission: "\<And>s k operation rest. \<not> maintenance_active s \<Longrightarrow> pending s = PendingSubmission k operation # rest \<Longrightarrow>
      advance_pending_if_ready maximum s = advance_pending_if_ready maximum
        (dispatch_if_idle maximum k (s\<lparr>pending := rest, queues := push_queue k operation (queues s)\<rparr>)) \<Longrightarrow>
      Q (dispatch_if_idle maximum k (s\<lparr>pending := rest, queues := push_queue k operation (queues s)\<rparr>)) \<Longrightarrow> Q s"
    and maintenance: "\<And>s age r rest. \<not> maintenance_active s \<Longrightarrow> pending s = PendingMaintenance age r # rest \<Longrightarrow> idle s \<Longrightarrow>
      advance_pending_if_ready maximum s = dispatch_maintenance age r (s\<lparr>pending := rest, maintenance_active := True\<rparr>) \<Longrightarrow> Q s"
    and flush: "\<And>s r rest. \<not> maintenance_active s \<Longrightarrow> pending s = PendingFlush r # rest \<Longrightarrow> idle s \<Longrightarrow>
      advance_pending_if_ready maximum s
        = advance_pending_if_ready maximum (emit (Replied r (UnitReply (Ok ()))) (s\<lparr>pending := rest\<rparr>)) \<Longrightarrow>
      Q (emit (Replied r (UnitReply (Ok ()))) (s\<lparr>pending := rest\<rparr>)) \<Longrightarrow> Q s"
  shows "Q s"
proof (induction "length (pending s)" arbitrary: s rule: less_induct)
  case less
  note step = advance_pending_if_ready.simps [of maximum s]
  show ?case
  proof (cases "maintenance_active s")
    case True
    then show ?thesis by (intro waits) (simp_all add: step blocked_def)
  next
    case m: False
    show ?thesis
    proof (cases "pending s")
      case Nil
      with m show ?thesis by (intro waits) (simp_all add: step blocked_def)
    next
      case (Cons e rest)
      show ?thesis
      proof (cases e)
        case (PendingSubmission k operation)
        with submission [OF m, of k operation rest] less m Cons step show ?thesis by simp
      next
        case (PendingMaintenance age r)
        with maintenance [OF m, of age r rest] waits [of s] m Cons step show ?thesis
          by (cases "idle s") (simp_all add: blocked_def)
      next
        case (PendingFlush r)
        with flush [OF m, of r rest] waits [of s] less m Cons step show ?thesis
          by (cases "idle s") (simp_all add: blocked_def)
      next
        case (PendingClose r)
        with m Cons show ?thesis by (intro waits) (simp_all add: step blocked_def)
      qed
    qed
  qed
qed

lemma advance_pending_advanced:
  "wp_sender (pool s) \<Longrightarrow> \<exists>acts. advanced maximum s acts (advance_pending_if_ready maximum s)
     \<and> blocked (advance_pending_if_ready maximum s)"
proof (induction s rule: advance_induct [where maximum = maximum])
  case (waits s)
  then show ?case by auto
next
  case (submission s k operation rest)
  let ?s = "dispatch_if_idle maximum k (s\<lparr>pending := rest, queues := push_queue k operation (queues s)\<rparr>)"
  have "wp_sender (pool ?s)" using submission.prems by (intro dispatch_if_idle_sender) simp
  then obtain b where b: "advanced maximum ?s b (advance_pending_if_ready maximum ?s)"
    "blocked (advance_pending_if_ready maximum ?s)" using submission.IH by blast
  obtain a where a: "advanced maximum s a ?s"
    using advance_submission [OF submission.prems submission.hyps(2,1)] by blast
  from advanced_trans [OF a b(1)] b(2) submission.hyps(3) show ?case by auto
next
  case (maintenance s age r rest)
  have "maintenance_active (dispatch_maintenance age r (s\<lparr>pending := rest, maintenance_active := True\<rparr>))"
    by (auto simp: dispatch_maintenance_def Let_def split: prod.splits sum.splits)
  then show ?case
    using advance_maintenance [OF maintenance.prems maintenance.hyps(2,3,1)] maintenance.hyps(4)
    by (auto simp: blocked_def)
next
  case (flush s r rest)
  then obtain b where "advanced maximum (emit (Replied r (UnitReply (Ok ()))) (s\<lparr>pending := rest\<rparr>)) b
      (advance_pending_if_ready maximum s)" "blocked (advance_pending_if_ready maximum s)" by auto
  with advanced_trans [OF advance_flush [OF flush.hyps(2,1)]] show ?case by blast
qed

section \<open>The flush barrier\<close>

text \<open>Whenever a flush is answered, nothing is active, nothing was started before the answer, and what is
  left of the backlog are the submissions behind the flush.\<close>

definition answers_flushes :: "(key \<Rightarrow> operation list) \<Rightarrow> key list \<Rightarrow> pending_event list \<Rightarrow> action list \<Rightarrow> bool" where
  "answers_flushes before running line acts \<longleftrightarrow>
     (\<forall>a1 r a2. acts = a1 @ Replied r (UnitReply (Ok ())) # a2 \<longrightarrow>
        running = [] \<and> started_keys a1 = []
        \<and> (\<exists>front post. line = front @ PendingFlush r # post
             \<and> (\<forall>k. before k = ops_of k a1 @ concat (map (pending_op k) post))))"

lemma answers_flushes_none [simp]:
  "\<forall>r. Replied r (UnitReply (Ok ())) \<notin> set acts \<Longrightarrow> answers_flushes before running line acts"
  by (auto simp: answers_flushes_def)

lemma answers_flushes_prepend:
  assumes "answers_flushes after (rev (started_keys pre) @ running) line acts"
    and "\<forall>r. Replied r (UnitReply (Ok ())) \<notin> set pre" "\<And>k. before k = ops_of k pre @ after k"
  shows "answers_flushes before running (front @ line) (pre @ acts)"
  unfolding answers_flushes_def
proof (intro allI impI)
  fix a1 r a2
  assume "pre @ acts = a1 @ Replied r (UnitReply (Ok ())) # a2"
  then obtain us where us: "a1 = pre @ us" "acts = us @ Replied r (UnitReply (Ok ())) # a2"
    using assms(2) by (auto simp: append_eq_append_conv2 append_eq_Cons_conv Cons_eq_append_conv)
  from assms(1) [unfolded answers_flushes_def, rule_format, OF us(2)] obtain fr post where
    "rev (started_keys pre) @ running = []" "started_keys us = []"
    "line = fr @ PendingFlush r # post" "\<forall>k. after k = ops_of k us @ concat (map (pending_op k) post)"
    by blast
  with us assms(3) show "running = [] \<and> started_keys a1 = []
        \<and> (\<exists>fr post. front @ line = fr @ PendingFlush r # post
             \<and> (\<forall>k. before k = ops_of k a1 @ concat (map (pending_op k) post)))"
    by (intro conjI exI [of _ "front @ fr"] exI [of _ post]) auto
qed

lemma dispatch_if_idle_dispatch:
  assumes "wp_sender (pool s)"
  obtains acts where "out (dispatch_if_idle maximum k s) = out s @ acts" "list_all is_dispatch acts"
    "active (dispatch_if_idle maximum k s) = rev (started_keys acts) @ active s"
    "\<And>k'. backlog k' s = ops_of k' acts @ backlog k' (dispatch_if_idle maximum k s)"
  using dispatch_if_idle_moves [OF assms, of maximum k] by (auto simp: moves_def)

lemma answers_flushes_flush:
  assumes "answers_flushes before [] rest b" "\<And>k. before k = concat (map (pending_op k) rest)"
  shows "answers_flushes before [] (PendingFlush r # rest) (Replied r (UnitReply (Ok ())) # b)"
  unfolding answers_flushes_def
proof (intro allI impI)
  fix a1 r' a2
  assume *: "Replied r (UnitReply (Ok ())) # b = a1 @ Replied r' (UnitReply (Ok ())) # a2"
  show "[] = [] \<and> started_keys a1 = [] \<and> (\<exists>front post. PendingFlush r # rest = front @ PendingFlush r' # post
      \<and> (\<forall>k. before k = ops_of k a1 @ concat (map (pending_op k) post)))"
  proof (cases a1)
    case Nil
    with * assms(2) show ?thesis by (intro conjI exI [of _ "[]"] exI [of _ rest]) auto
  next
    case (Cons x xs)
    with * have x: "x = Replied r (UnitReply (Ok ()))" "b = xs @ Replied r' (UnitReply (Ok ())) # a2" by auto
    from assms(1) [unfolded answers_flushes_def, rule_format, OF x(2)] obtain front post where
      "started_keys xs = []" "rest = front @ PendingFlush r' # post"
      "\<forall>k. before k = ops_of k xs @ concat (map (pending_op k) post)" by blast
    with Cons x(1) show ?thesis by (intro conjI exI [of _ "PendingFlush r # front"] exI [of _ post]) auto
  qed
qed

lemma advance_answers_flushes:
  "wf_sched maximum s \<Longrightarrow> out (advance_pending_if_ready maximum s) = out s @ acts \<Longrightarrow>
     answers_flushes (\<lambda>k. backlog k s) (active s) (pending s) acts"
proof (induction s arbitrary: acts rule: advance_induct [where maximum = maximum])
  case (waits s)
  then show ?case by simp
next
  case (submission s k operation rest)
  let ?s1 = "s\<lparr>pending := rest, queues := push_queue k operation (queues s)\<rparr>"
  let ?s2 = "dispatch_if_idle maximum k ?s1"
  have wf1: "wf_sched maximum ?s1" using submission.prems(1) by (simp add: wf_sched_def)
  then have "wp_sender (pool ?s1)" by (simp add: wf_sched_def)
  then obtain a where a: "moves maximum ?s1 a ?s2" "list_all is_dispatch a"
    using dispatch_if_idle_moves by blast
  have wf2: "wf_sched maximum ?s2" using a(1) wf1 by (simp add: moves_def)
  then have "wp_sender (pool ?s2)" by (simp add: wf_sched_def)
  then obtain b where b: "out (advance_pending_if_ready maximum ?s2) = out ?s2 @ b"
    using advance_pending_advanced unfolding advanced_def moves_def by blast
  have acts: "acts = a @ b" using submission.prems(2) submission.hyps(3) b a(1) by (simp add: moves_def)
  from submission.IH [OF wf2 b]
  have "answers_flushes (\<lambda>k. backlog k ?s2) (rev (started_keys a) @ active s) rest b" using a(1) by (simp add: moves_def)
  then have "answers_flushes (\<lambda>k. backlog k s) (active s) ([PendingSubmission k operation] @ rest) (a @ b)"
  proof (rule answers_flushes_prepend)
    show "\<forall>r. Replied r (UnitReply (Ok ())) \<notin> set a" using is_dispatch_only(2) [OF a(2)] by blast
    fix k'
    have "backlog k' s = backlog k' ?s1" using submission.hyps(2) by (simp add: backlog_def)
    then show "backlog k' s = ops_of k' a @ backlog k' ?s2" using a(1) by (simp add: moves_def)
  qed
  with acts submission.hyps(2) show ?case by simp
next
  case (maintenance s age r rest)
  let ?s1 = "s\<lparr>pending := rest, maintenance_active := True\<rparr>"
  have p1: "wp_sender (pool ?s1)" using maintenance.prems(1) by (simp add: wf_sched_def)
  have "out (dispatch_maintenance age r ?s1) = out s @ acts" using maintenance.hyps(4) maintenance.prems(2) by simp
  then have "\<forall>r'. Replied r' (UnitReply (Ok ())) \<notin> set acts"
    by (cases rule: dispatch_maintenance_cases [OF p1, of age r]) auto
  then show ?case by (rule answers_flushes_none)
next
  case (flush s r rest)
  let ?s1 = "emit (Replied r (UnitReply (Ok ()))) (s\<lparr>pending := rest\<rparr>)"
  have wf1: "wf_sched maximum ?s1" using flush.prems(1) by (simp add: wf_sched_def)
  then have "wp_sender (pool ?s1)" by (simp add: wf_sched_def)
  then obtain b where b: "out (advance_pending_if_ready maximum ?s1) = out ?s1 @ b"
    using advance_pending_advanced unfolding advanced_def moves_def by blast
  have acts: "acts = Replied r (UnitReply (Ok ())) # b" using flush.prems(2) flush.hyps(4) b by simp
  have "queue_of (queues s) k = []" for k
    using flush.hyps(3) flush.prems(1) by (simp add: idle_def wf_sched_def queues_empty_iff)
  then have line: "backlog k s = concat (map (pending_op k) rest)" "backlog k ?s1 = backlog k s" for k
    using flush.hyps(2) by (simp_all add: backlog_def)
  have "active s = []" using flush.hyps(3) by (simp add: idle_def)
  with answers_flushes_flush [OF _ line(1), of b r] flush.IH [OF wf1 b] line(2) acts flush.hyps(2)
  show ?case by simp
qed

end
