(* ===== verification/SchedulerSteps.thy ===== *)
theory SchedulerSteps
  imports SchedulerInv
begin

text \<open>
  One event of the coordinator: the invariant of its state, and the account of every operation and every
  active key across the event.
\<close>

section \<open>The invariant\<close>

text \<open>Close requests are the last pending events, and there are some exactly when the store is closing.\<close>

definition close_ordered :: "sched \<Rightarrow> bool" where
  "close_ordered s \<longleftrightarrow> (\<exists>front closes. pending s = front @ closes
     \<and> list_all (\<lambda>e. \<not> is_close e) front \<and> list_all is_close closes
     \<and> (closes \<noteq> [] \<longleftrightarrow> lifecycle s = Closing))"

definition scheduler_inv :: "nat \<Rightarrow> sched \<Rightarrow> bool" where
  "scheduler_inv maximum s \<longleftrightarrow> wf_sched maximum s \<and> work_conserving maximum s \<and> exclusive s \<and> blocked s
     \<and> close_ordered s \<and> (lifecycle s = Open \<or> lifecycle s = Closing)"

definition sched_new :: "worker_pool \<Rightarrow> sched" where
  "sched_new p = \<lparr>queues = [], active = [], pending = [], maintenance_active = False, pool = p,
     lifecycle = Open, iterations = 0, out = []\<rparr>"

lemma sched_new_inv: "scheduler_inv maximum (sched_new (worker_pool_new maximum spawns panics))"
  by (auto simp: scheduler_inv_def sched_new_def wf_sched_def work_conserving_def exclusive_def
      blocked_def close_ordered_def worker_pool_new_def queue_of_def)

section \<open>The account of an event\<close>

text \<open>The operation the event brings in, if the store is open, and the keys that stay active.\<close>

fun accepted :: "key \<Rightarrow> coordinator_event \<Rightarrow> sched \<Rightarrow> operation list" where
  "accepted k (Submission k' operation) s = (if k' = k \<and> lifecycle s = Open then [operation] else [])"
| "accepted k _ s = []"

fun still_active :: "coordinator_event \<Rightarrow> sched \<Rightarrow> key list" where
  "still_active (Completion k _) s = removeAll k (active s)"
| "still_active _ s = active s"

fun ends_maintenance :: "coordinator_event \<Rightarrow> bool" where
  "ends_maintenance (MaintenanceCompletion _) = True"
| "ends_maintenance _ = False"

text \<open>What the event adds to the pending events, unless it is handled at once.\<close>

fun joins :: "coordinator_event \<Rightarrow> pending_event list" where
  "joins (Submission k operation) = [PendingSubmission k operation]"
| "joins (Maintenance age r) = [PendingMaintenance age r]"
| "joins (Flush r) = [PendingFlush r]"
| "joins (Close r) = [PendingClose r]"
| "joins _ = []"

text \<open>What the event itself makes the coordinator do.\<close>

fun verdicts :: "coordinator_event \<Rightarrow> sched \<Rightarrow> action list" where
  "verdicts (Submission k operation) s = (if lifecycle s = Open then [] else [Refused k operation StoreClosed])"
| "verdicts (Completion k outcome) s =
     (case outcome of None \<Rightarrow> [] | Some (operation, result) \<Rightarrow> [Delivered k operation result])"
| "verdicts _ s = []"

definition accounted :: "nat \<Rightarrow> coordinator_event \<Rightarrow> sched \<Rightarrow> action list \<Rightarrow> sched \<Rightarrow> bool" where
  "accounted maximum event s acts s' \<longleftrightarrow> out s' = out s @ acts
     \<and> (\<forall>k. backlog k s @ accepted k event s = ops_of k acts @ backlog k s')
     \<and> active s' = rev (started_keys acts) @ still_active event s
     \<and> of_bool (maintenance_active s')
         = of_bool (maintenance_active s \<and> \<not> ends_maintenance event) + maintenance_tokens acts
     \<and> filter (\<lambda>a. \<not> routine a) acts = verdicts event s
     \<and> lifecycle s' = (case event of Close _ \<Rightarrow> Closing | _ \<Rightarrow> lifecycle s)
     \<and> filter is_close (pending s') = filter is_close (pending s @ joins event)
     \<and> load s' + costs acts \<le> load s + sum_list (map pending_load (joins event))
     \<and> answers_flushes (\<lambda>k. backlog k s @ accepted k event s) (still_active event s)
         (pending s @ joins event) acts"

text \<open>A preparation of the state that takes nothing, followed by the advance of the pending events.\<close>

lemma advance_accounted:
  assumes s1: "out s1 = out s @ pre" "\<And>k. backlog k s @ accepted k event s = ops_of k pre @ backlog k s1"
      "active s1 = rev (started_keys pre) @ still_active event s"
      "of_bool (maintenance_active s1)
         = (of_bool (maintenance_active s \<and> \<not> ends_maintenance event) + maintenance_tokens pre :: nat)"
      "filter (\<lambda>a. \<not> routine a) pre = verdicts event s"
      "\<forall>r. Replied r (UnitReply (Ok ())) \<notin> set pre" "pending s1 = pending s @ joins event"
      "lifecycle s1 = (case event of Close _ \<Rightarrow> Closing | _ \<Rightarrow> lifecycle s)"
      "load s1 + costs pre \<le> load s + sum_list (map pending_load (joins event))"
    and inv: "wf_sched maximum s1" "work_conserving maximum s1" "exclusive s1" "close_ordered s1"
      "lifecycle s1 = Open \<or> lifecycle s1 = Closing"
  shows "\<exists>acts. accounted maximum event s acts (advance_pending_if_ready maximum s1)
    \<and> scheduler_inv maximum (advance_pending_if_ready maximum s1)"
proof -
  let ?s2 = "advance_pending_if_ready maximum s1"
  have "wp_sender (pool s1)" using inv(1) by (simp add: wf_sched_def)
  then obtain acts where a: "advanced maximum s1 acts ?s2" and b: "blocked ?s2"
    using advance_pending_advanced by blast
  from a obtain taken where d: "pending s1 = taken @ pending ?s2" "list_all (\<lambda>e. \<not> is_close e) taken"
    and l: "lifecycle ?s2 = lifecycle s1" by (auto simp: advanced_def moves_def)
  obtain front closes where c: "pending s1 = front @ closes" "list_all (\<lambda>e. \<not> is_close e) front"
    "list_all is_close closes" "closes \<noteq> [] \<longleftrightarrow> lifecycle s1 = Closing"
    using inv(4) by (auto simp: close_ordered_def)
  have "close_ordered ?s2"
  proof -
    from d(1) c(1) consider us where "taken = front @ us" "closes = us @ pending ?s2"
      | us where "front = taken @ us" "pending ?s2 = us @ closes"
      by (auto simp: append_eq_append_conv2)
    then show ?thesis
    proof cases
      case 1
      then have "us = []" using d(2) c(3) by (cases us) auto
      with 1 c l show ?thesis
        unfolding close_ordered_def by (intro exI [of _ "[]"] exI [of _ "pending ?s2"]) simp
    next
      case 2
      with c l show ?thesis by (auto simp: close_ordered_def)
    qed
  qed
  have "answers_flushes (\<lambda>k. backlog k s @ accepted k event s) (still_active event s)
      ([] @ (pending s @ joins event)) (pre @ acts)"
  proof (rule answers_flushes_prepend [OF _ s1(6) s1(2)])
    have "out ?s2 = out s1 @ acts" using a by (simp add: advanced_def moves_def)
    from advance_answers_flushes [OF inv(1) this]
    show "answers_flushes (\<lambda>k. backlog k s1) (rev (started_keys pre) @ still_active event s)
      (pending s @ joins event) acts" using s1(3,7) by simp
  qed
  moreover have "filter is_close (pending s1) = filter is_close (pending ?s2)"
    using d by (simp add: filter_empty_conv list_all_iff)
  moreover have "filter (\<lambda>a. \<not> routine a) acts = []"
    using a by (simp add: advanced_def moves_def filter_empty_conv list_all_iff)
  ultimately have "accounted maximum event s (pre @ acts) ?s2"
    using a s1 by (auto simp: accounted_def advanced_def moves_def)
  with \<open>close_ordered ?s2\<close> show ?thesis
    using a b inv l by (auto simp: scheduler_inv_def advanced_def moves_def)
qed

section \<open>Dispatching from an idle state\<close>

lemma idle_queues: "wf_sched maximum s \<Longrightarrow> idle s \<Longrightarrow> queue_of (queues s) k = []"
  by (simp add: idle_def wf_sched_def queues_empty_iff)

lemma idle_dispatch:
  assumes "wf_sched maximum s" "idle s"
  shows "dispatch_if_idle maximum k s = s"
    and "idle (dispatch_available order maximum s)"
proof -
  show "dispatch_if_idle maximum k s = s"
    using idle_queues [OF assms] by (simp add: dispatch_if_idle_def)
  have "find_dispatchable order s = None"
    using idle_queues [OF assms] by (auto simp: find_dispatchable_def find_None_iff)
  with assms(2) show "idle (dispatch_available order maximum s)"
    by (simp add: dispatch_available.simps [of order maximum s] idle_def)
qed

text \<open>The two dispatches together, from a state in which the freed or pushed key is the candidate.\<close>

lemma dispatch_both:
  fixes order :: iteration_order and maximum :: nat and k :: key and s1 :: sched
  assumes "hash_order order" "wf_sched maximum s1"
  defines "s3 \<equiv> dispatch_available order maximum (dispatch_if_idle maximum k s1)"
  shows "\<exists>acts. moves maximum s1 acts s3 \<and> list_all is_dispatch acts
    \<and> maintenance_active s3 = maintenance_active s1 \<and> pending s3 = pending s1
    \<and> work_conserving maximum s3 \<and> (idle s1 \<longrightarrow> idle s3)"
proof -
  have p: "wp_sender (pool s1)" using assms(2) by (simp add: wf_sched_def)
  let ?s2 = "dispatch_if_idle maximum k s1"
  obtain a where a: "moves maximum s1 a ?s2" "maintenance_active ?s2 = maintenance_active s1"
    "list_all is_dispatch a" using dispatch_if_idle_moves [OF p] by blast
  obtain b where b: "moves maximum ?s2 b s3" "maintenance_active s3 = maintenance_active ?s2"
    "pending s3 = pending ?s2" "list_all is_dispatch b"
    unfolding s3_def using dispatch_available_moves [OF dispatch_if_idle_sender [OF p]] by blast
  have "idle s3" if "idle s1"
    unfolding s3_def using idle_dispatch [OF assms(2) that] by metis
  moreover have "work_conserving maximum s3"
    unfolding s3_def by (rule hash_order.dispatch_available_conserving [OF assms(1)])
  ultimately show ?thesis
    using moves_trans [OF a(1) b(1)] a(2,3) b(2,3,4) by (intro exI [of _ "a @ b"]) auto
qed

lemma drop_queue_frame:
  fixes s k
  defines "s' \<equiv> s\<lparr>queues := drop_if_empty k (queues s)\<rparr>"
  shows "backlog k' s' = backlog k' s" "wf_sched maximum s \<Longrightarrow> wf_sched maximum s'"
    "work_conserving maximum s' = work_conserving maximum s"
    "wf_sched maximum s \<Longrightarrow> idle s \<Longrightarrow> idle s'"
  by (auto simp: s'_def backlog_def wf_sched_def work_conserving_def idle_def queues_empty_iff)

lemma pending_frame:
  "work_conserving maximum (s\<lparr>lifecycle := l\<rparr>) = work_conserving maximum s"
  "work_conserving maximum (s\<lparr>pending := ps\<rparr>) = work_conserving maximum s"
  "wf_sched maximum (s\<lparr>lifecycle := l\<rparr>) = wf_sched maximum s"
  "wf_sched maximum (s\<lparr>pending := ps\<rparr>) = wf_sched maximum s"
  "exclusive (s\<lparr>lifecycle := l\<rparr>) = exclusive s"
  "exclusive (s\<lparr>pending := ps\<rparr>) = exclusive s"
  "wf_sched maximum (emit a s) = wf_sched maximum s"
  "work_conserving maximum (emit a s) = work_conserving maximum s"
  "exclusive (emit a s) = exclusive s" "blocked (emit a s) = blocked s"
  "close_ordered (emit a s) = close_ordered s" "backlog k (emit a s) = backlog k s"
  by (auto simp: work_conserving_def wf_sched_def exclusive_def idle_def blocked_def close_ordered_def
      backlog_def split: list.splits pending_event.splits)

lemma close_ordered_snoc:
  assumes "close_ordered s" "lifecycle s = Open" "\<not> is_close e"
  shows "close_ordered (s\<lparr>pending := pending s @ [e]\<rparr>)"
proof -
  obtain front where "pending s = front" "list_all (\<lambda>e. \<not> is_close e) front"
    using assms(1,2) by (auto simp: close_ordered_def)
  then show ?thesis
    unfolding close_ordered_def using assms(2,3)
    by (intro exI [of _ "front @ [e]"] exI [of _ "[]"]) simp
qed

lemma close_ordered_close:
  assumes "close_ordered s"
  shows "close_ordered (s\<lparr>lifecycle := Closing, pending := pending s @ [PendingClose r]\<rparr>)"
proof -
  obtain front closes where "pending s = front @ closes" "list_all (\<lambda>e. \<not> is_close e) front"
    "list_all is_close closes" using assms by (auto simp: close_ordered_def)
  then show ?thesis
    unfolding close_ordered_def
    by (intro exI [of _ front] exI [of _ "closes @ [PendingClose r]"]) simp
qed

section \<open>The events\<close>

context hash_order
begin

lemma submission_step:
  assumes inv: "scheduler_inv maximum s" and h: "handle_event order maximum (Submission k operation) s = Some s'"
  shows "\<exists>acts. accounted maximum (Submission k operation) s acts s' \<and> scheduler_inv maximum s'"
proof (cases "lifecycle s = Open")
  case False
  with h have "s' = emit (Refused k operation StoreClosed) s" by (simp add: handle_event_def)
  with False inv show ?thesis
    by (intro exI [of _ "[Refused k operation StoreClosed]"])
       (auto simp: accounted_def pending_frame scheduler_inv_def)
next
  case open': True
  show ?thesis
  proof (cases "maintenance_active s \<or> pending s \<noteq> []")
    case True
    with h open' have s': "s' = s\<lparr>pending := pending s @ [PendingSubmission k operation]\<rparr>"
      by (simp add: handle_event_def)
    have "close_ordered s'"
      unfolding s' by (rule close_ordered_snoc) (use inv open' in \<open>auto simp: scheduler_inv_def\<close>)
    moreover have "blocked s'"
      using inv True by (cases "pending s") (auto simp: s' scheduler_inv_def blocked_def split: pending_event.splits)
    ultimately show ?thesis
      using inv open' by (intro exI [of _ "[]"]) (auto simp: s' accounted_def scheduler_inv_def pending_frame backlog_def)
  next
    case False
    let ?s1 = "s\<lparr>queues := push_queue k operation (queues s)\<rparr>"
    have "wf_sched maximum ?s1" using inv by (simp add: scheduler_inv_def wf_sched_def)
    from dispatch_both [OF hash_order_axioms this, of k] h open' False obtain acts where
      a: "moves maximum ?s1 acts s'" "list_all is_dispatch acts"
        "maintenance_active s' = maintenance_active s" "pending s' = pending s" "work_conserving maximum s'"
      by (auto simp: handle_event_def)
    have "backlog k' ?s1 = backlog k' s @ accepted k' (Submission k operation) s" for k'
      using open' False by (simp add: backlog_def)
    moreover have "load ?s1 = load s + 3" by (simp add: load_def)
    ultimately have "accounted maximum (Submission k operation) s acts s'"
      using a open' False is_dispatch_only [OF a(2)]
      by (simp add: accounted_def moves_def filter_empty_conv list_all_iff)
    moreover have "scheduler_inv maximum s'"
      using a inv open' False \<open>wf_sched maximum ?s1\<close>
      by (auto simp: scheduler_inv_def moves_def exclusive_def blocked_def close_ordered_def)
    ultimately show ?thesis by blast
  qed
qed

lemma completion_step:
  assumes inv: "scheduler_inv maximum s" and h: "handle_event order maximum (Completion k outcome) s = Some s'"
  shows "\<exists>acts. accounted maximum (Completion k outcome) s acts s' \<and> scheduler_inv maximum s'"
proof -
  let ?s1 = "s\<lparr>active := removeAll k (active s)\<rparr>"
  let ?s3 = "dispatch_available order maximum (dispatch_if_idle maximum k ?s1)"
  let ?s4 = "if k \<notin> set (active ?s3) then ?s3\<lparr>queues := drop_if_empty k (queues ?s3)\<rparr> else ?s3"
  have wf1: "wf_sched maximum ?s1"
    using inv by (auto simp: scheduler_inv_def wf_sched_def distinct_removeAll
        intro: order.trans [OF length_removeAll_less_eq])
  from dispatch_both [OF hash_order_axioms wf1, of k] obtain acts where
    a: "moves maximum ?s1 acts ?s3" "list_all is_dispatch acts"
      "maintenance_active ?s3 = maintenance_active s" "pending ?s3 = pending s" "work_conserving maximum ?s3"
      "idle ?s1 \<longrightarrow> idle ?s3" by auto
  have wf3: "wf_sched maximum ?s3" using a(1) wf1 by (simp add: moves_def)
  have ex3: "maintenance_active s \<longrightarrow> idle ?s3"
    using a(6) inv by (auto simp: scheduler_inv_def exclusive_def idle_def)
  have s4: "wf_sched maximum ?s4" "work_conserving maximum ?s4" "exclusive ?s4" "\<And>k'. backlog k' ?s4 = backlog k' ?s3"
    "pending ?s4 = pending s" "active ?s4 = active ?s3" "maintenance_active ?s4 = maintenance_active s"
    "lifecycle ?s4 = lifecycle s" "out ?s4 = out s @ acts"
    using wf3 ex3 a drop_queue_frame [where s = ?s3 and k = k]
    by (auto simp: exclusive_def moves_def)
  obtain pre s5 where s5: "s' = advance_pending_if_ready maximum s5"
    "s5 = (case outcome of None \<Rightarrow> ?s4 | Some (operation, result) \<Rightarrow> emit (Delivered k operation result) ?s4)"
    "pre = (case outcome of None \<Rightarrow> [] | Some (operation, result) \<Rightarrow> [Delivered k operation result])"
    using h by (auto simp: handle_event_def Let_def split: option.splits prod.splits)
  have bl: "backlog k' s = backlog k' ?s1" for k' by (simp add: backlog_def)
  have "out s5 = out s @ (acts @ pre)" "\<And>k'. backlog k' s5 = backlog k' ?s3" "active s5 = active ?s3"
    "maintenance_active s5 = maintenance_active s" "pending s5 = pending s" "lifecycle s5 = lifecycle s"
    "wf_sched maximum s5" "work_conserving maximum s5" "exclusive s5"
    using s4 s5(2,3) by (auto split: option.splits simp: pending_frame)
  note f = this
  have "close_ordered s5" using inv f(5,6) by (simp add: scheduler_inv_def close_ordered_def)
  moreover have "backlog k' s @ accepted k' (Completion k outcome) s = ops_of k' (acts @ pre) @ backlog k' s5" for k'
    using a(1) f(2) bl s5(3) by (auto simp: moves_def split: option.splits)
  moreover have "maintenance_tokens (acts @ pre) = 0" "started_keys (acts @ pre) = started_keys acts"
    using is_dispatch_only(1) [OF a(2)] s5(3) by (auto split: option.splits)
  moreover have "\<forall>r. Replied r (UnitReply (Ok ())) \<notin> set (acts @ pre)"
    using is_dispatch_only(2) [OF a(2)] s5(3) by (auto split: option.splits)
  moreover have "pending s5 = pending s @ joins (Completion k outcome)" using f(5) by simp
  moreover have "filter (\<lambda>a. \<not> routine a) (acts @ pre) = verdicts (Completion k outcome) s"
    using a(1) s5(3) by (auto simp: moves_def filter_empty_conv list_all_iff split: option.splits)
  moreover have "load s5 + costs (acts @ pre) \<le> load s + sum_list (map pending_load (joins (Completion k outcome)))"
  proof -
    have "load ?s4 \<le> load ?s3"
      using queued_count_drop_if_empty [of k "queues ?s3"] by (simp add: load_def)
    moreover have "load s5 = load ?s4" "costs pre = 0" using s5(2,3) by (auto split: option.splits)
    moreover have "load ?s3 + costs acts \<le> load s" using a(1) by (simp add: moves_def)
    ultimately show ?thesis by simp
  qed
  moreover have "active s5 = rev (started_keys acts) @ removeAll k (active s)"
    using a(1) f(3) by (simp add: moves_def)
  ultimately show ?thesis
    unfolding s5(1) using f inv
    by (intro advance_accounted [where pre = "acts @ pre"]) (simp_all add: scheduler_inv_def)
qed

lemma handle_event_step:
  assumes inv: "scheduler_inv maximum s" and h: "handle_event order maximum event s = Some s'"
  shows "\<exists>acts. accounted maximum event s acts s' \<and> scheduler_inv maximum s'"
proof (cases event)
  case (Submission k operation)
  with submission_step [OF inv] h show ?thesis by blast
next
  case (Completion k outcome)
  with completion_step [OF inv] h show ?thesis by blast
next
  case (Maintenance age r)
  show ?thesis
  proof (cases "lifecycle s = Open")
    case False
    with h Maintenance inv show ?thesis
      by (intro exI [of _ "[Replied r (CleanupReply (Err StoreClosed))]"])
         (auto simp: handle_event_def accounted_def pending_frame scheduler_inv_def)
  next
    case True
    with h Maintenance have s': "s' = advance_pending_if_ready maximum
        (s\<lparr>pending := pending s @ [PendingMaintenance age r]\<rparr>)" by (simp add: handle_event_def)
    show ?thesis
      unfolding s' using inv True Maintenance
      by (intro advance_accounted [where pre = "[]"])
         (auto simp: scheduler_inv_def pending_frame backlog_def intro: close_ordered_snoc)
  qed
next
  case (Flush r)
  show ?thesis
  proof (cases "lifecycle s = Open")
    case False
    with h Flush inv show ?thesis
      by (intro exI [of _ "[Replied r (UnitReply (Err StoreClosed))]"])
         (auto simp: handle_event_def accounted_def pending_frame scheduler_inv_def)
  next
    case True
    with h Flush have s': "s' = advance_pending_if_ready maximum
        (s\<lparr>pending := pending s @ [PendingFlush r]\<rparr>)" by (simp add: handle_event_def)
    show ?thesis
      unfolding s' using inv True Flush
      by (intro advance_accounted [where pre = "[]"])
         (auto simp: scheduler_inv_def pending_frame backlog_def intro: close_ordered_snoc)
  qed
next
  case (MaintenanceCompletion outcome)
  let ?s1 = "case outcome of None \<Rightarrow> s\<lparr>maintenance_active := False\<rparr>
    | Some (r, result) \<Rightarrow> emit (Replied r (CleanupReply result)) (s\<lparr>maintenance_active := False\<rparr>)"
  let ?pre = "case outcome of None \<Rightarrow> [] | Some (r, result) \<Rightarrow> [Replied r (CleanupReply result)]"
  from h MaintenanceCompletion have s': "s' = advance_pending_if_ready maximum ?s1"
    by (auto simp: handle_event_def Let_def split: option.splits)
  have "wf_sched maximum ?s1 \<and> work_conserving maximum ?s1 \<and> exclusive ?s1 \<and> close_ordered ?s1
      \<and> lifecycle ?s1 = lifecycle s"
    using inv by (auto simp: scheduler_inv_def wf_sched_def work_conserving_def exclusive_def
        close_ordered_def split: option.splits)
  then show ?thesis
    unfolding s' using inv MaintenanceCompletion
    by (intro advance_accounted [where pre = ?pre])
       (auto simp: scheduler_inv_def backlog_def split: option.splits)
next
  case (Close r)
  let ?s1 = "s\<lparr>lifecycle := Closing, pending := pending s @ [PendingClose r]\<rparr>"
  have s': "s' = advance_pending_if_ready maximum ?s1"
  proof (cases "lifecycle s = Closing")
    case True
    then have e: "?s1 = s\<lparr>pending := pending s @ [PendingClose r]\<rparr>" by (cases s) simp
    show ?thesis unfolding e using h Close True by (simp add: handle_event_def)
  next
    case False
    then have "lifecycle s = Open" using inv by (simp add: scheduler_inv_def)
    with h Close show ?thesis by (simp add: handle_event_def)
  qed
  show ?thesis
    unfolding s' using inv Close
    by (intro advance_accounted [where pre = "[]"])
       (auto simp: scheduler_inv_def pending_frame backlog_def intro: close_ordered_close)
qed

end

end
