(* ===== verification/Engine.thy ===== *)
theory Engine
  imports SchedulerSteps
begin

text \<open>
  \<open>src/engine/mod.rs\<close>: the handle the facades use. A method reads the lifecycle, takes its lock, reads it
  again, sends an event to the coordinator while it holds the lock and returns a pending result. The
  lifecycle may change between the two reads, so they are two arguments, \<open>seen\<close> and \<open>state\<close>; whether the
  coordinator still holds the receiver of the channel is \<open>connected\<close>. A method returns the pending result
  and the events it sent. The number of a fresh reply channel is its last argument.
\<close>

section \<open>Joining the coordinator\<close>

datatype join_outcome = Joined | Panicked

text \<open>The handle holds whether the coordinator panicked, which \<open>join\<close> tells.\<close>

record coordinator_join =
  join_handle :: "bool option"
  join_result :: "join_outcome option"

definition coordinator_join_new :: "bool \<Rightarrow> coordinator_join" where
  "coordinator_join_new panicked = \<lparr>join_handle = Some panicked, join_result = None\<rparr>"

text \<open>\<open>None\<close> is the panic of \<open>expect\<close>.\<close>

definition finish :: "unit store_result \<Rightarrow> coordinator_join \<Rightarrow> (unit store_result \<times> coordinator_join) option" where
  "finish result j =
     (let verdict = (\<lambda>joined. case joined of Joined \<Rightarrow> result | Panicked \<Rightarrow> Err ShutdownFailure)
      in case join_result j of
        Some joined \<Rightarrow> Some (verdict joined, j)
      | None \<Rightarrow>
          (case join_handle j of
             None \<Rightarrow> None
           | Some panicked \<Rightarrow>
               (let joined = (if panicked then Panicked else Joined)
                in Some (verdict joined, \<lparr>join_handle = None, join_result = Some joined\<rparr>))))"

section \<open>Pending results\<close>

text \<open>A pending result waits on a reply channel, or on one that already holds its result. The completion
  is applied to what the channel yields, \<open>None\<close> when its sender was dropped; it may look at the lifecycle
  and join the coordinator.\<close>

datatype 'a receiver = Buffered "'a store_result" | Replies reply

type_synonym 'a pending_completion =
  "lifecycle \<Rightarrow> 'a store_result option \<Rightarrow> coordinator_join \<Rightarrow> ('a store_result \<times> coordinator_join) option"

record 'a pending_result =
  pending_receiver :: "'a receiver"
  pending_completion :: "'a pending_completion"

definition or_else :: "'a option \<Rightarrow> 'a \<Rightarrow> 'a" where
  "or_else x d = (case x of Some y \<Rightarrow> y | None \<Rightarrow> d)"

definition pending_new :: "'a receiver \<Rightarrow> 'a pending_result" where
  "pending_new receiver = \<lparr>pending_receiver = receiver,
     pending_completion = (\<lambda>_ received j. Some (or_else received (Err EngineFailed), j))\<rparr>"

definition with_disconnected :: "'a receiver \<Rightarrow> (lifecycle \<Rightarrow> 'a store_result) \<Rightarrow> 'a pending_result" where
  "with_disconnected receiver disconnected = \<lparr>pending_receiver = receiver,
     pending_completion = (\<lambda>state received j. Some (or_else received (disconnected state), j))\<rparr>"

definition with_after ::
  "('a store_result \<Rightarrow> coordinator_join \<Rightarrow> ('a store_result \<times> coordinator_join) option)
     \<Rightarrow> 'a pending_result \<Rightarrow> 'a pending_result" where
  "with_after after p = p\<lparr>pending_completion := (\<lambda>state received j.
     case pending_completion p state received j of None \<Rightarrow> None | Some (result, j) \<Rightarrow> after result j)\<rparr>"

definition resolved :: "'a store_result \<Rightarrow> 'a pending_result" where
  "resolved result = pending_new (Buffered result)"

text \<open>\<open>wait\<close> and \<open>wait_async\<close>, once their channel yields something: \<open>received\<close> says what that is. Whether it ever
  does is the matter of the theory \<open>Answers\<close>.\<close>

definition wait ::
  "'a pending_result \<Rightarrow> lifecycle \<Rightarrow> (reply \<Rightarrow> 'a store_result option) \<Rightarrow> coordinator_join
     \<Rightarrow> ('a store_result \<times> coordinator_join) option" where
  "wait p state received j =
     pending_completion p state
       (case pending_receiver p of Buffered result \<Rightarrow> Some result | Replies r \<Rightarrow> received r) j"

section \<open>Submission\<close>

fun ensure_open :: "lifecycle \<Rightarrow> unit store_result" where
  "ensure_open Open = Ok ()"
| "ensure_open Closing = Err StoreClosed"
| "ensure_open Closed = Err StoreClosed"
| "ensure_open ShutdownFailed = Err StoreClosed"
| "ensure_open Failed = Err EngineFailed"

definition submit ::
  "bool \<Rightarrow> lifecycle \<Rightarrow> key \<Rightarrow> operation \<Rightarrow> 'a receiver \<Rightarrow> 'a pending_result \<times> coordinator_event list" where
  "submit connected state k operation receiver =
     (case state of
        Open \<Rightarrow>
          (if connected then (pending_new receiver, [Submission k operation])
           else (resolved (Err EngineFailed), []))
      | Failed \<Rightarrow> (resolved (Err EngineFailed), [])
      | _ \<Rightarrow> (resolved (Err StoreClosed), []))"

definition submit_operation ::
  "bool \<Rightarrow> lifecycle \<Rightarrow> key \<Rightarrow> operation \<Rightarrow> unit store_result \<times> coordinator_event list" where
  "submit_operation connected state k operation =
     (case state of
        Open \<Rightarrow> (if connected then (Ok (), [Submission k operation]) else (Err EngineFailed, []))
      | Failed \<Rightarrow> (Err EngineFailed, [])
      | _ \<Rightarrow> (Err StoreClosed, []))"

section \<open>The methods of the handle\<close>

definition engine_load ::
  "blake3_lib \<Rightarrow> lifecycle \<Rightarrow> bool \<Rightarrow> lifecycle \<Rightarrow> bytes \<Rightarrow> reply
     \<Rightarrow> bytes option pending_result \<times> coordinator_event list" where
  "engine_load B seen connected state canonical_key r =
     (case ensure_open seen of
        Err error \<Rightarrow> (resolved (Err error), [])
      | Ok _ \<Rightarrow> submit connected state (key_hash B canonical_key) (LoadOp r) (Replies r))"

definition engine_save ::
  "blake3_lib \<Rightarrow> lifecycle \<Rightarrow> bool \<Rightarrow> lifecycle \<Rightarrow> bytes \<Rightarrow> bytes \<Rightarrow> reply
     \<Rightarrow> unit pending_result \<times> coordinator_event list" where
  "engine_save B seen connected state canonical_key payload r =
     (case ensure_open seen of
        Err error \<Rightarrow> (resolved (Err error), [])
      | Ok _ \<Rightarrow> submit connected state (key_hash B canonical_key) (SaveOp payload r) (Replies r))"

text \<open>The messages are those the client will send into the stream.\<close>

definition start_save_stream ::
  "blake3_lib \<Rightarrow> store_config \<Rightarrow> lifecycle \<Rightarrow> bool \<Rightarrow> lifecycle \<Rightarrow> bytes \<Rightarrow> u64 \<Rightarrow> save_stream_message list \<Rightarrow> reply
     \<Rightarrow> unit pending_result store_result \<times> coordinator_event list" where
  "start_save_stream B cfg seen connected state canonical_key declared_len chunks r =
     (case ensure_open seen of
        Err error \<Rightarrow> (Err error, [])
      | Ok _ \<Rightarrow>
          (if cfg_maximum cfg < declared_len then (Err (BlobTooLarge declared_len (cfg_maximum cfg)), [])
           else case submit_operation connected state (key_hash B canonical_key)
                       (SaveStreamOp declared_len chunks r) of
                  (Err error, events) \<Rightarrow> (Err error, events)
                | (Ok _, events) \<Rightarrow> (Ok (pending_new (Replies r)), events)))"

definition start_load_stream ::
  "blake3_lib \<Rightarrow> lifecycle \<Rightarrow> bool \<Rightarrow> lifecycle \<Rightarrow> bytes \<Rightarrow> nat \<times> bool \<Rightarrow> reply
     \<Rightarrow> blob_metadata option pending_result store_result \<times> coordinator_event list" where
  "start_load_stream B seen connected state canonical_key channels r =
     (case ensure_open seen of
        Err error \<Rightarrow> (Err error, [])
      | Ok _ \<Rightarrow>
          (case submit_operation connected state (key_hash B canonical_key) (LoadStreamOp (Some channels) r) of
             (Err error, events) \<Rightarrow> (Err error, events)
           | (Ok _, events) \<Rightarrow> (Ok (pending_new (Replies r)), events)))"

definition engine_clear ::
  "blake3_lib \<Rightarrow> lifecycle \<Rightarrow> bool \<Rightarrow> lifecycle \<Rightarrow> bytes \<Rightarrow> reply
     \<Rightarrow> unit pending_result \<times> coordinator_event list" where
  "engine_clear B seen connected state canonical_key r =
     (case ensure_open seen of
        Err error \<Rightarrow> (resolved (Err error), [])
      | Ok _ \<Rightarrow> submit connected state (key_hash B canonical_key) (ClearOp r) (Replies r))"

definition engine_inspect ::
  "blake3_lib \<Rightarrow> lifecycle \<Rightarrow> bool \<Rightarrow> lifecycle \<Rightarrow> bytes \<Rightarrow> reply
     \<Rightarrow> blob_inspection pending_result \<times> coordinator_event list" where
  "engine_inspect B seen connected state canonical_key r =
     (case ensure_open seen of
        Err error \<Rightarrow> (resolved (Err error), [])
      | Ok _ \<Rightarrow> submit connected state (key_hash B canonical_key) (InspectOp r) (Replies r))"

definition engine_quarantine ::
  "blake3_lib \<Rightarrow> lifecycle \<Rightarrow> bool \<Rightarrow> lifecycle \<Rightarrow> bytes \<Rightarrow> reply
     \<Rightarrow> quarantine_info pending_result \<times> coordinator_event list" where
  "engine_quarantine B seen connected state canonical_key r =
     (case ensure_open seen of
        Err error \<Rightarrow> (resolved (Err error), [])
      | Ok _ \<Rightarrow> submit connected state (key_hash B canonical_key) (QuarantineOp r) (Replies r))"

text \<open>The age is in nanoseconds.\<close>

definition cleanup_stale_temporary_files ::
  "lifecycle \<Rightarrow> bool \<Rightarrow> lifecycle \<Rightarrow> nat \<Rightarrow> reply \<Rightarrow> cleanup_report pending_result \<times> coordinator_event list" where
  "cleanup_stale_temporary_files seen connected state minimum_age r =
     (case ensure_open seen of
        Err error \<Rightarrow> (resolved (Err error), [])
      | Ok _ \<Rightarrow>
          (if minimum_age = 0 then (resolved (Err InvalidCleanupAge), [])
           else case state of
             Open \<Rightarrow>
               (if connected then (pending_new (Replies r), [Maintenance (Some minimum_age) r])
                else (resolved (Err MaintenanceCoordinationFailure), []))
           | Failed \<Rightarrow> (resolved (Err EngineFailed), [])
           | _ \<Rightarrow> (resolved (Err StoreClosed), [])))"

definition engine_flush ::
  "lifecycle \<Rightarrow> bool \<Rightarrow> lifecycle \<Rightarrow> reply \<Rightarrow> unit pending_result \<times> coordinator_event list" where
  "engine_flush seen connected state r =
     (case ensure_open seen of
        Err error \<Rightarrow> (resolved (Err error), [])
      | Ok _ \<Rightarrow>
          (case state of
             Open \<Rightarrow>
               (if connected then (pending_new (Replies r), [Flush r])
                else (resolved (Err MaintenanceCoordinationFailure), []))
           | Failed \<Rightarrow> (resolved (Err EngineFailed), [])
           | _ \<Rightarrow> (resolved (Err StoreClosed), [])))"

definition closed_pending :: "unit store_result \<Rightarrow> unit pending_result" where
  "closed_pending result = with_after finish (resolved result)"

text \<open>What \<open>close\<close> makes of the lifecycle when the channel or the reply channel is gone.\<close>

fun close_verdict :: "lifecycle \<Rightarrow> unit store_result" where
  "close_verdict Closed = Ok ()"
| "close_verdict ShutdownFailed = Err ShutdownFailure"
| "close_verdict Failed = Err ShutdownFailure"
| "close_verdict Open = Err EngineFailed"
| "close_verdict Closing = Err EngineFailed"

definition engine_close ::
  "lifecycle \<Rightarrow> bool \<Rightarrow> lifecycle \<Rightarrow> reply \<Rightarrow> unit pending_result \<times> coordinator_event list" where
  "engine_close seen connected state r =
     (case seen of
        Closed \<Rightarrow> (closed_pending (Ok ()), [])
      | ShutdownFailed \<Rightarrow> (closed_pending (Err ShutdownFailure), [])
      | Failed \<Rightarrow> (closed_pending (Err ShutdownFailure), [])
      | _ \<Rightarrow>
          (case state of
             Closed \<Rightarrow> (closed_pending (Ok ()), [])
           | ShutdownFailed \<Rightarrow> (closed_pending (Err ShutdownFailure), [])
           | Failed \<Rightarrow> (closed_pending (Err ShutdownFailure), [])
           | _ \<Rightarrow>
               (if connected
                then (with_after finish (with_disconnected (Replies r) close_verdict), [Close r])
                else (resolved (close_verdict state), []))))"

definition blob_path :: "blake3_lib \<Rightarrow> store_config \<Rightarrow> bytes \<Rightarrow> path" where
  "blob_path B cfg canonical_key =
     path_join (cfg_namespace cfg) (blob_filename B (cfg_format cfg) canonical_key)"

section \<open>Opening\<close>

text \<open>\<open>spawned\<close> is the error of spawning the coordinator thread, if it fails; the scripts are the worker
  pool's. The result is the configuration with the coordinator's first state.\<close>

definition from_config ::
  "io_error option \<Rightarrow> bool list \<Rightarrow> bool list \<Rightarrow> store_config \<Rightarrow> (store_config \<times> sched) store_result" where
  "from_config spawned spawns panics cfg =
     (let p = worker_pool_new (cfg_max_concurrent_operations cfg) spawns panics
      in case spawned of
           Some source \<Rightarrow> io_err StartCoordinator source
         | None \<Rightarrow> Ok (cfg, sched_new p))"

definition engine_open ::
  "io_error option \<Rightarrow> bool list \<Rightarrow> bool list \<Rightarrow> path \<Rightarrow> string \<Rightarrow> atomic_blob_store_options \<Rightarrow> fs
     \<Rightarrow> (store_config \<times> sched) store_result \<times> fs" where
  "engine_open spawned spawns panics root namespace options s =
     (case validate_namespace namespace of
        Err error \<Rightarrow> (Err error, s)
      | Ok component \<Rightarrow>
          (case validate_maximum (opt_max_blob_size options) of
             Err error \<Rightarrow> (Err error, s)
           | Ok _ \<Rightarrow>
               (case initialize_platform root component (opt_format options) (opt_max_blob_size options)
                       (opt_max_concurrent_operations options) s of
                  (Err error, s) \<Rightarrow> (Err error, s)
                | (Ok cfg, s) \<Rightarrow> (from_config spawned spawns panics cfg, s))))"

text \<open>What the coordinator's thread does when \<open>run_scheduler\<close> panicked (\<open>from_config\<close>): \<open>events\<close> are those still in
  the channel.\<close>

definition coordinator_panicked :: "coordinator_event list \<Rightarrow> sched \<Rightarrow> sched" where
  "coordinator_panicked events s =
     s\<lparr>lifecycle := Failed, out := out s @ fail_queued_after_coordinator_panic events\<rparr>"

end
