(* ===== verification/System.thy ===== *)
theory System
  imports Engine
begin

text \<open>
  The store as a whole: the coordinator with its channel, the jobs at the workers, and the clients. A step
  is a call of a client, an event the coordinator handles, the end of a job, or the end of the channel when
  every handle is gone. The two last components of the state are a history: the operations sent and the
  operations whose job ended. Jobs end in any order; the calls of clients come at any time.
\<close>

section \<open>The calls of a client\<close>

text \<open>\<open>Operate\<close> stands for the seven operations: each method sends exactly its operation.\<close>

datatype client_call = Operate key operation | CleanUp nat reply | FlushStore reply | CloseStore reply

definition call_events :: "lifecycle \<Rightarrow> bool \<Rightarrow> lifecycle \<Rightarrow> client_call \<Rightarrow> coordinator_event list" where
  "call_events seen connected state c =
     (case c of
        Operate k operation \<Rightarrow>
          (if is_ok (ensure_open seen) then snd (submit_operation connected state k operation) else [])
      | CleanUp age r \<Rightarrow> snd (cleanup_stale_temporary_files seen connected state age r)
      | FlushStore r \<Rightarrow> snd (engine_flush seen connected state r)
      | CloseStore r \<Rightarrow> snd (engine_close seen connected state r))"

lemma submit_events: "snd (submit connected state k operation receiver) = snd (submit_operation connected state k operation)"
  by (simp add: submit_def submit_operation_def split: lifecycle.split)

lemma operate_events:
  fixes B :: blake3_lib and key :: bytes
  defines "h \<equiv> key_hash B key"
  shows "snd (engine_load B seen connected state key r) = call_events seen connected state (Operate h (LoadOp r))"
    "snd (engine_save B seen connected state key payload r)
       = call_events seen connected state (Operate h (SaveOp payload r))"
    "snd (engine_clear B seen connected state key r) = call_events seen connected state (Operate h (ClearOp r))"
    "snd (engine_inspect B seen connected state key r) = call_events seen connected state (Operate h (InspectOp r))"
    "snd (engine_quarantine B seen connected state key r)
       = call_events seen connected state (Operate h (QuarantineOp r))"
    "snd (start_load_stream B seen connected state key channels r)
       = call_events seen connected state (Operate h (LoadStreamOp (Some channels) r))"
    "len \<le> cfg_maximum cfg \<Longrightarrow> snd (start_save_stream B cfg seen connected state key len ms r)
       = call_events seen connected state (Operate h (SaveStreamOp len ms r))"
  by (auto simp: h_def engine_load_def engine_save_def engine_clear_def engine_inspect_def
      engine_quarantine_def start_load_stream_def start_save_stream_def call_events_def submit_events
      not_less split: sum.splits prod.splits)

section \<open>State and steps\<close>

text \<open>\<open>view f xs\<close> collects what \<open>f\<close> sees in the elements.\<close>

definition view :: "('a \<Rightarrow> 'b list) \<Rightarrow> 'a list \<Rightarrow> 'b list" where
  "view f xs = concat (map f xs)"

lemma view_simps [simp]:
  "view f [] = []" "view f (x # xs) = f x @ view f xs" "view f (xs @ ys) = view f xs @ view f ys"
  by (simp_all add: view_def)

record system =
  core :: sched
  channel :: "coordinator_event list"
  running :: "(key \<times> operation) list"
  upkeep :: "(nat option \<times> reply) list"
  connected :: bool
  handles :: bool
  sent :: "(key \<times> operation) list"
  ended :: "(key \<times> reply \<times> bool) list"

definition system_new :: "sched \<Rightarrow> system" where
  "system_new c = \<lparr>core = c, channel = [], running = [], upkeep = [], connected = True, handles = True,
     sent = [], ended = []\<rparr>"

text \<open>What the actions of the coordinator put into the channel and give to the workers.\<close>

fun self_event :: "action \<Rightarrow> coordinator_event list" where
  "self_event (SentSelf event) = [event]"
| "self_event _ = []"

fun started_job :: "action \<Rightarrow> (key \<times> operation) list" where
  "started_job (Started k operation) = [(k, operation)]"
| "started_job _ = []"

fun upkeep_job :: "action \<Rightarrow> (nat option \<times> reply) list" where
  "upkeep_job (StartedMaintenance age r) = [(age, r)]"
| "upkeep_job _ = []"

fun submitted :: "coordinator_event \<Rightarrow> (key \<times> operation) list" where
  "submitted (Submission k operation) = [(k, operation)]"
| "submitted _ = []"

text \<open>The coordinator takes the next event, as the loop of \<open>run_scheduler\<close> does.\<close>

definition receive :: "iteration_order \<Rightarrow> nat \<Rightarrow> system \<Rightarrow> system option" where
  "receive order maximum y =
     (case channel y of
        [] \<Rightarrow> None
      | event # rest \<Rightarrow>
          (case handle_event order maximum event (core y) of
             None \<Rightarrow> Some (y\<lparr>core := coordinator_panicked rest (core y), channel := [], connected := False\<rparr>)
           | Some c \<Rightarrow>
               (let acts = drop (length (out (core y))) (out c);
                    queue = rest @ view self_event acts;
                    y = y\<lparr>running := running y @ view started_job acts,
                          upkeep := upkeep y @ view upkeep_job acts\<rparr>
                in if \<not> continues event (core y) \<and> ready_to_close c
                   then Some (y\<lparr>core := close_down queue c, channel := [], connected := False\<rparr>)
                   else Some (y\<lparr>core := c, channel := queue\<rparr>))))"

text \<open>A result of the operation's own kind for the same client, or a panic of the job: the contract of the jobs
  that the engine alone relies on. In the theory \<open>Store\<close> the outcome is the one \<open>run_owned_operation\<close> returns.\<close>

definition outcome_ok :: "operation \<Rightarrow> operation_outcome \<Rightarrow> bool" where
  "outcome_ok operation outcome \<longleftrightarrow>
     (case outcome of None \<Rightarrow> True
      | Some (operation', result) \<Rightarrow>
          result_matches operation' result \<and> reply_of operation' = reply_of operation)"

fun holds_sender :: "pending_event \<Rightarrow> bool" where
  "holds_sender (PendingSubmission _ _) = True"
| "holds_sender (PendingMaintenance _ _) = True"
| "holds_sender _ = False"

inductive sys_step :: "iteration_order \<Rightarrow> nat \<Rightarrow> system \<Rightarrow> system \<Rightarrow> bool"
  for order :: iteration_order and maximum :: nat where
  call: "handles y \<Longrightarrow> events = call_events seen (connected y) (lifecycle (core y)) c \<Longrightarrow>
    sys_step order maximum y
      (y\<lparr>channel := channel y @ events, sent := sent y @ view submitted events\<rparr>)"
| coordinator: "connected y \<Longrightarrow> receive order maximum y = Some y' \<Longrightarrow> sys_step order maximum y y'"
| job_ends: "running y = us @ (k, operation) # vs \<Longrightarrow> outcome_ok operation outcome \<Longrightarrow>
    sys_step order maximum y
      (y\<lparr>channel := channel y @ [Completion k outcome], running := us @ vs,
         ended := ended y @ [(k, reply_of operation, outcome = None)]\<rparr>)"
| upkeep_ends: "upkeep y = us @ (age, r) # vs \<Longrightarrow> outcome = None \<or> outcome = Some (r, result) \<Longrightarrow>
    sys_step order maximum y
      (y\<lparr>channel := channel y @ [MaintenanceCompletion outcome], upkeep := us @ vs\<rparr>)"
| drop_handles: "handles y \<Longrightarrow> sys_step order maximum y (y\<lparr>handles := False\<rparr>)"
| disconnect: "connected y \<Longrightarrow> \<not> handles y \<Longrightarrow> channel y = [] \<Longrightarrow> running y = [] \<Longrightarrow> upkeep y = [] \<Longrightarrow>
    queues_empty (queues (core y)) \<Longrightarrow> \<not> list_ex holds_sender (pending (core y)) \<Longrightarrow>
    pool_shutdown (pool (core y)) = (result, p) \<Longrightarrow>
    sys_step order maximum y
      (y\<lparr>core := (core y)\<lparr>pool := p, lifecycle := Closed\<rparr>, connected := False\<rparr>)"

inductive_cases sys_step_cases: "sys_step order maximum y y'"

text \<open>The states the store can reach from its opening.\<close>

inductive reachable :: "iteration_order \<Rightarrow> nat \<Rightarrow> sched \<Rightarrow> system \<Rightarrow> bool"
  for order :: iteration_order and maximum :: nat and start :: sched where
  initial: "reachable order maximum start (system_new start)"
| further: "reachable order maximum start y \<Longrightarrow> sys_step order maximum y y' \<Longrightarrow>
    reachable order maximum start y'"

section \<open>Views of a key\<close>

definition of_key :: "key \<Rightarrow> (key \<times> 'a) list \<Rightarrow> 'a list" where
  "of_key k xs = map snd (filter (\<lambda>x. fst x = k) xs)"

lemma of_key_simps [simp]:
  "of_key k [] = []" "of_key k (x # xs) = (if fst x = k then snd x # of_key k xs else of_key k xs)"
  "of_key k (xs @ ys) = of_key k xs @ of_key k ys"
  by (simp_all add: of_key_def)

lemma of_key_map: "of_key k (map (\<lambda>(k, x). (k, f x)) xs) = map f (of_key k xs)"
  by (induction xs) auto

text \<open>The operations started, refused by the closing store, and delivered; the completions of the channel.\<close>

fun refused_closed :: "action \<Rightarrow> (key \<times> operation) list" where
  "refused_closed (Refused k operation error) = (if error = StoreClosed then [(k, operation)] else [])"
| "refused_closed _ = []"

fun refused_unavailable :: "action \<Rightarrow> (key \<times> operation) list" where
  "refused_unavailable (Refused k operation error) = (if error = WorkerUnavailable then [(k, operation)] else [])"
| "refused_unavailable _ = []"

fun delivered :: "action \<Rightarrow> (key \<times> reply) list" where
  "delivered (Delivered k operation _) = [(k, reply_of operation)]"
| "delivered _ = []"

fun completed_key :: "coordinator_event \<Rightarrow> key list" where
  "completed_key (Completion k _) = [k]"
| "completed_key _ = []"

fun completed_reply :: "coordinator_event \<Rightarrow> (key \<times> reply) list" where
  "completed_reply (Completion k outcome) =
     (case outcome of None \<Rightarrow> [] | Some (operation, _) \<Rightarrow> [(k, reply_of operation)])"
| "completed_reply _ = []"

fun sound_completion :: "coordinator_event \<Rightarrow> bool" where
  "sound_completion (Completion k outcome) =
     (case outcome of None \<Rightarrow> True | Some (operation, result) \<Rightarrow> result_matches operation result)"
| "sound_completion _ = True"

end
