(* ===== verification/SystemInv.thy ===== *)
theory SystemInv
  imports System "HOL-Library.Multiset"
begin

text \<open>
  The invariant of the store as a whole: the coordinator's state, its channel and the jobs at the workers
  account for each other and for the history, in every reachable state.
\<close>

section \<open>Views of the coordinator's actions\<close>

lemma view_routine:
  assumes "\<And>a. routine a \<Longrightarrow> f a = []"
  shows "view f acts = view f (filter (\<lambda>a. \<not> routine a) acts)"
  using assms by (induction acts) auto

lemma routine_views:
  "routine a \<Longrightarrow> refused_closed a = []" "routine a \<Longrightarrow> delivered a = []"
  by (cases a; simp)+

lemma view_started_keys: "map fst (view started_job acts) = started_keys acts"
proof (induction acts)
  case (Cons a acts)
  then show ?case by (cases a) simp_all
qed simp

lemma view_tokens:
  "maintenance_tokens acts = length (view upkeep_job acts) + length (filter ends_maintenance (view self_event acts))"
proof (induction acts)
  case (Cons a acts)
  show ?case
  proof (cases a)
    case (SentSelf event)
    with Cons show ?thesis by (cases event) simp_all
  qed (use Cons in simp_all)
qed simp

lemma only_maintenance_completions:
  assumes "set events \<subseteq> {MaintenanceCompletion None}"
  shows "view completed_key events = []" "view completed_reply events = []" "view submitted events = []"
    "list_all sound_completion events"
  using assms by (induction events) auto

lemma in_self_event: "e \<in> set (self_event a) \<longleftrightarrow> a = SentSelf e"
  by (cases a) auto

lemma verdicts_self: "SentSelf event \<notin> set (verdicts e s)"
  by (cases e) (auto split: option.splits)

lemma accounted_self_events:
  assumes "accounted maximum event s acts s'"
  shows "set (view self_event acts) \<subseteq> {MaintenanceCompletion None}"
proof
  fix e
  assume "e \<in> set (view self_event acts)"
  then have a: "SentSelf e \<in> set acts"
    by (auto simp: view_def in_self_event)
  have "SentSelf e \<notin> set (filter (\<lambda>a. \<not> routine a) acts)"
    using assms verdicts_self by (simp add: accounted_def)
  with a have "routine (SentSelf e)" by auto
  then show "e \<in> {MaintenanceCompletion None}" by simp
qed

lemma accounted_views:
  assumes "accounted maximum event s acts s'"
  shows "view refused_closed acts
      = (case event of Submission k operation \<Rightarrow> if lifecycle s = Open then [] else [(k, operation)] | _ \<Rightarrow> [])"
    "view delivered acts = completed_reply event"
proof -
  have v: "filter (\<lambda>a. \<not> routine a) acts = verdicts event s" using assms by (simp add: accounted_def)
  show "view refused_closed acts
      = (case event of Submission k operation \<Rightarrow> if lifecycle s = Open then [] else [(k, operation)] | _ \<Rightarrow> [])"
    using view_routine [of refused_closed acts] v routine_views by (auto split: coordinator_event.split option.split)
  show "view delivered acts = completed_reply event"
    using view_routine [of delivered acts] v routine_views by (cases event) (auto split: option.split)
qed

section \<open>The invariant\<close>

definition system_core :: "system \<Rightarrow> bool" where
  "system_core y \<longleftrightarrow>
     mset (active (core y)) = mset (map fst (running y)) + mset (view completed_key (channel y))
     \<and> of_bool (maintenance_active (core y)) = length (upkeep y) + length (filter ends_maintenance (channel y))
     \<and> list_all sound_completion (channel y)
     \<and> (lifecycle (core y) = Open \<longrightarrow> view refused_closed (out (core y)) = [])"

text \<open>The history: every operation sent is dispatched, waits, was refused, or is still in the channel, in the
  order of sending; the jobs of a key end in the order they were started, and their results are delivered
  in that order.\<close>

definition system_history :: "system \<Rightarrow> bool" where
  "system_history y \<longleftrightarrow> (\<forall>k.
     of_key k (sent y) = ops_of k (out (core y)) @ backlog k (core y)
       @ of_key k (view refused_closed (out (core y))) @ of_key k (view submitted (channel y))
     \<and> map reply_of (of_key k (view started_job (out (core y))))
       = map fst (of_key k (ended y)) @ map reply_of (of_key k (running y))
     \<and> map fst (filter (\<lambda>(r, panicked). \<not> panicked) (of_key k (ended y)))
       = of_key k (view delivered (out (core y))) @ of_key k (view completed_reply (channel y)))"

text \<open>The coordinator while it runs, and the store after it has stopped.\<close>

definition live :: "nat \<Rightarrow> system \<Rightarrow> bool" where
  "live maximum y \<longleftrightarrow> scheduler_inv maximum (core y) \<and> \<not> ready_to_close (core y)"

definition halted :: "system \<Rightarrow> bool" where
  "halted y \<longleftrightarrow> active (core y) = [] \<and> (\<forall>k. queue_of (queues (core y)) k = [])
     \<and> pending (core y) = [] \<and> channel y = [] \<and> running y = [] \<and> upkeep y = []
     \<and> \<not> maintenance_active (core y)
     \<and> (lifecycle (core y) = Closed \<or> lifecycle (core y) = ShutdownFailed)"

definition system_inv :: "nat \<Rightarrow> system \<Rightarrow> bool" where
  "system_inv maximum y \<longleftrightarrow> system_core y \<and> system_history y \<and>
     (if connected y then live maximum y else halted y)"

lemma initial_inv:
  assumes "c = sched_new (worker_pool_new maximum spawns panics)"
  shows "system_inv maximum (system_new c)"
  using sched_new_inv [of maximum spawns panics] assms
  by (auto simp: system_inv_def system_core_def system_history_def live_def system_new_def
      ready_to_close_def sched_new_def backlog_def queue_of_def)


section \<open>The coordinator's step\<close>

lemma handle_event_panics:
  "handle_event order maximum event s = None \<longleftrightarrow> \<not> sound_completion event"
  by (auto simp: handle_event_def Let_def deliver_case split: coordinator_event.split option.split)

lemma continues_not_ready:
  assumes "handle_event order maximum event s = Some c" "continues event s" "\<not> ready_to_close s"
  shows "\<not> ready_to_close c"
proof (cases event)
  case (Submission k operation)
  with assms show ?thesis
    by (cases "pending s") (auto simp: handle_event_def continues_def ready_to_close_def split: if_splits)
qed (use assms in \<open>auto simp: handle_event_def continues_def ready_to_close_def\<close>)

text \<open>The state after the coordinator has handled the event at the head of the channel, before the close
  check.\<close>

definition handled :: "coordinator_event list \<Rightarrow> sched \<Rightarrow> action list \<Rightarrow> system \<Rightarrow> system" where
  "handled rest c acts y = y\<lparr>core := c, channel := rest @ view self_event acts,
     running := running y @ view started_job acts, upkeep := upkeep y @ view upkeep_job acts\<rparr>"

lemma handled_core:
  assumes "system_core y" "channel y = event # rest" "scheduler_inv maximum (core y)"
    and a: "accounted maximum event (core y) acts c"
  shows "system_core (handled rest c acts y)"
proof -
  let ?s = "core y"
  note self = only_maintenance_completions [OF accounted_self_events [OF a]]
  have act: "active c = rev (started_keys acts) @ still_active event ?s"
    and m: "of_bool (maintenance_active c)
      = (of_bool (maintenance_active ?s \<and> \<not> ends_maintenance event) + maintenance_tokens acts :: nat)"
    and o: "out c = out ?s @ acts"
    and l: "lifecycle c = (case event of Close _ \<Rightarrow> Closing | _ \<Rightarrow> lifecycle ?s)"
    using a by (simp_all add: accounted_def)
  have keys: "mset (active ?s) = mset (map fst (running y)) + mset (completed_key event) + mset (view completed_key rest)"
    and tokens: "of_bool (maintenance_active ?s)
      = length (upkeep y) + (if ends_maintenance event then 1 else 0) + length (filter ends_maintenance rest)"
    using assms(1,2) by (auto simp: system_core_def)
  have "mset (still_active event ?s) = mset (map fst (running y)) + mset (view completed_key rest)"
  proof (cases event)
    case (Completion k outcome)
    have "distinct (active ?s)" using assms(3) by (simp add: scheduler_inv_def wf_sched_def)
    then have "mset (removeAll k (active ?s)) = mset (active ?s) - {#k#}"
      by (metis distinct_remove1_removeAll mset_remove1)
    with keys Completion show ?thesis by simp
  qed (use keys in simp_all)
  then have "mset (active c) = mset (map fst (running y @ view started_job acts)) + mset (view completed_key rest)"
    unfolding act by (simp add: view_started_keys)
  moreover have "of_bool (maintenance_active c) = length (upkeep y @ view upkeep_job acts)
      + length (filter ends_maintenance (rest @ view self_event acts))"
  proof (cases "ends_maintenance event")
    case True
    have "of_bool (maintenance_active ?s) \<le> (1 :: nat)" by simp
    with tokens True have "upkeep y = []" "filter ends_maintenance rest = []" by auto
    with m True view_tokens [of acts] show ?thesis by simp
  qed (use m tokens view_tokens [of acts] in simp)
  moreover have "lifecycle c = Open \<longrightarrow> view refused_closed (out c) = []"
    using assms(1) l accounted_views(1) [OF a] unfolding o
    by (auto simp: system_core_def split: coordinator_event.splits)
  moreover have "list_all sound_completion (rest @ view self_event acts)"
    using assms(1,2) self(4) by (simp add: system_core_def)
  ultimately show ?thesis
    using self(1) by (simp add: system_core_def handled_def)
qed

lemma handled_history:
  assumes "system_history y" "system_core y" "channel y = event # rest"
    and a: "accounted maximum event (core y) acts c"
  shows "system_history (handled rest c acts y)"
  unfolding system_history_def
proof (intro allI conjI)
  fix k
  let ?s = "core y" and ?y = "handled rest c acts y"
  note self = only_maintenance_completions [OF accounted_self_events [OF a]]
  note views = accounted_views [OF a]
  have o: "out c = out ?s @ acts"
    and b: "backlog k ?s @ accepted k event ?s = ops_of k acts @ backlog k c"
    using a by (simp_all add: accounted_def)
  have h: "of_key k (sent y) = ops_of k (out ?s) @ backlog k ?s
       @ of_key k (view refused_closed (out ?s)) @ of_key k (view submitted (event # rest))"
    "map reply_of (of_key k (view started_job (out ?s))) = map fst (of_key k (ended y)) @ map reply_of (of_key k (running y))"
    "map fst (filter (\<lambda>(r, panicked). \<not> panicked) (of_key k (ended y)))
       = of_key k (view delivered (out ?s)) @ of_key k (view completed_reply (event # rest))"
    using assms(1,3) by (simp_all add: system_history_def)
  have r: "lifecycle ?s = Open \<Longrightarrow> view refused_closed (out ?s) = []"
    using assms(2) by (simp add: system_core_def)
  have acc: "accepted k event ?s @ of_key k (view refused_closed (out ?s)) @ of_key k (view refused_closed acts)
      = of_key k (view refused_closed (out ?s)) @ of_key k (submitted event)"
    unfolding views(1) using r by (cases event) auto
  show "of_key k (sent ?y) = ops_of k (out (core ?y)) @ backlog k (core ?y)
       @ of_key k (view refused_closed (out (core ?y))) @ of_key k (view submitted (channel ?y))"
    using h(1) b acc self(3) by (simp add: handled_def o) (metis append.assoc)
  show "map reply_of (of_key k (view started_job (out (core ?y))))
      = map fst (of_key k (ended ?y)) @ map reply_of (of_key k (running ?y))"
    using h(2) by (simp add: handled_def o)
  show "map fst (filter (\<lambda>(r, panicked). \<not> panicked) (of_key k (ended ?y)))
       = of_key k (view delivered (out (core ?y))) @ of_key k (view completed_reply (channel ?y))"
    using h(3) views(2) self(2) by (simp add: handled_def o)
qed

section \<open>Closing\<close>

fun drain_action :: "unit store_result \<Rightarrow> coordinator_event \<Rightarrow> action list" where
  "drain_action result (Close sender) = [Replied sender (UnitReply result)]"
| "drain_action result (Submission k operation) = [Refused k operation StoreClosed]"
| "drain_action result (Maintenance _ sender) = [Replied sender (CleanupReply (Err StoreClosed))]"
| "drain_action result (Flush sender) = [Replied sender (UnitReply (Err StoreClosed))]"
| "drain_action result _ = []"

lemma drain_events: "fold (drain_event result) q s = s\<lparr>out := out s @ view (drain_action result) q\<rparr>"
proof (induction q arbitrary: s)
  case (Cons event q)
  then show ?case by (cases event) (simp_all add: emit_def)
qed simp

fun close_action :: "unit store_result \<Rightarrow> pending_event \<Rightarrow> action list" where
  "close_action result (PendingClose sender) = [Replied sender (UnitReply result)]"
| "close_action result _ = []"

lemma answer_closes:
  "pending s = ps \<Longrightarrow> list_all is_close ps \<Longrightarrow>
     answer_close result s ps = s\<lparr>pending := [], out := out s @ view (close_action result) ps\<rparr>"
proof (induction ps arbitrary: s)
  case Nil
  then show ?case by (cases s) simp
next
  case (Cons e ps)
  then obtain r where "e = PendingClose r" by (cases e) auto
  with Cons show ?case by (simp add: emit_def)
qed

lemma closes_only:
  assumes "close_ordered s" "pending s = e # rest" "is_close e"
  shows "list_all is_close (pending s)"
proof -
  obtain front closes where f: "pending s = front @ closes" "list_all (\<lambda>e. \<not> is_close e) front"
    "list_all is_close closes" using assms(1) by (auto simp: close_ordered_def)
  with assms(2,3) have "front = []" by (cases front) auto
  with f show ?thesis by simp
qed

lemma close_down_effect:
  assumes "list_all is_close (pending s)"
  obtains p result l where "close_down q s = s\<lparr>pool := p, lifecycle := l, pending := [],
      out := out s @ view (close_action result) (pending s) @ view (drain_action result) q\<rparr>"
    "l = Closed \<and> result = Ok () \<or> l = ShutdownFailed \<and> result = Err ShutdownFailure"
    "l = Closed \<longleftrightarrow> True \<notin> set (take (wp_handles (pool s)) (wp_panics (pool s)))"
proof -
  obtain outcome p where p: "pool_shutdown (pool s) = (outcome, p)" by fastforce
  let ?l = "if is_ok outcome then Closed else ShutdownFailed"
  let ?r = "if is_ok outcome then Ok () else Err ShutdownFailure :: unit store_result"
  have "close_down q s = s\<lparr>pool := p, lifecycle := ?l, pending := [],
      out := out s @ view (close_action ?r) (pending s) @ view (drain_action ?r) q\<rparr>"
    using assms p by (simp add: close_down_def Let_def answer_closes drain_events)
  then show thesis
  proof (rule that)
    show "?l = Closed \<and> ?r = Ok () \<or> ?l = ShutdownFailed \<and> ?r = Err ShutdownFailure" by simp
    show "?l = Closed \<longleftrightarrow> True \<notin> set (take (wp_handles (pool s)) (wp_panics (pool s)))"
      using p by (auto simp: pool_shutdown_def Let_def split: if_splits)
  qed
qed

lemma close_down_sender:
  assumes "list_all is_close (pending s)"
  shows "\<not> wp_sender (pool (close_down q s))"
  using assms by (simp add: close_down_def pool_shutdown_def Let_def answer_closes drain_events)

lemma closing_views:
  "view refused_closed (view (drain_action result) q) = view submitted q"
  "view delivered (view (drain_action result) q) = []" "view started_job (view (drain_action result) q) = []"
  "ops_of k (view (drain_action result) q) = []"
  "view refused_closed (view (close_action result) ps) = []"
  "view delivered (view (close_action result) ps) = []" "view started_job (view (close_action result) ps) = []"
  "ops_of k (view (close_action result) ps) = []"
proof -
  have "view refused_closed (drain_action result e) = submitted e \<and> view delivered (drain_action result e) = []
      \<and> view started_job (drain_action result e) = [] \<and> ops_of k (drain_action result e) = []" for e
    by (cases e) auto
  then show "view refused_closed (view (drain_action result) q) = view submitted q"
    "view delivered (view (drain_action result) q) = []" "view started_job (view (drain_action result) q) = []"
    "ops_of k (view (drain_action result) q) = []"
    by (induction q) auto
  have "view refused_closed (close_action result e) = [] \<and> view delivered (close_action result e) = []
      \<and> view started_job (close_action result e) = [] \<and> ops_of k (close_action result e) = []" for e
    by (cases e) auto
  then show "view refused_closed (view (close_action result) ps) = []"
    "view delivered (view (close_action result) ps) = []" "view started_job (view (close_action result) ps) = []"
    "ops_of k (view (close_action result) ps) = []"
    by (induction ps) auto
qed

text \<open>Nothing is in flight when the store is ready to close, so nothing is lost by closing it.\<close>

lemma no_completions:
  "view completed_key events = [] \<Longrightarrow> view completed_reply events = []"
proof (induction events)
  case (Cons e events)
  then show ?case by (cases e) auto
qed simp

lemma ready_to_close_quiet:
  assumes "system_core y" "ready_to_close (core y)"
  shows "running y = []" "upkeep y = []" "view completed_key (channel y) = []"
    "filter ends_maintenance (channel y) = []"
  using assms by (auto simp: system_core_def ready_to_close_def)

lemma closing_inv:
  assumes core: "system_core y" and hist: "system_history y" and inv: "scheduler_inv maximum (core y)"
    and ready: "ready_to_close (core y)"
  shows "system_inv maximum (y\<lparr>core := close_down (channel y) (core y), channel := [], connected := False\<rparr>)"
    (is "system_inv maximum ?y")
proof -
  have closes: "list_all is_close (pending (core y))"
    using ready inv closes_only [of "core y"]
    by (auto simp: ready_to_close_def scheduler_inv_def split: list.splits)
  obtain p result l where c: "close_down (channel y) (core y) = (core y)\<lparr>pool := p, lifecycle := l, pending := [],
      out := out (core y) @ view (close_action result) (pending (core y)) @ view (drain_action result) (channel y)\<rparr>"
    "l = Closed \<and> result = Ok () \<or> l = ShutdownFailed \<and> result = Err ShutdownFailure"
    by (rule close_down_effect [OF closes, of "channel y"])
  note quiet = ready_to_close_quiet [OF core ready]
  have no_ops: "view (pending_op k) (pending (core y)) = []" for k
  proof -
    have "pending_op k e = []" if "is_close e" for e using that by (cases e) auto
    with closes show ?thesis by (induction "pending (core y)" arbitrary: y) (auto simp: list_all_iff view_def)
  qed
  have bl: "backlog k (core ?y) = backlog k (core y)" for k
    using no_ops [of k] by (simp add: backlog_def c(1) view_def)
  have "system_core ?y"
    using core quiet c(2) by (auto simp: system_core_def c(1))
  moreover have "system_history ?y"
    unfolding system_history_def
  proof (intro allI conjI)
    fix k
    have h: "of_key k (sent y) = ops_of k (out (core y)) @ backlog k (core y)
         @ of_key k (view refused_closed (out (core y))) @ of_key k (view submitted (channel y))"
      "map reply_of (of_key k (view started_job (out (core y))))
         = map fst (of_key k (ended y)) @ map reply_of (of_key k (running y))"
      "map fst (filter (\<lambda>(r, panicked). \<not> panicked) (of_key k (ended y)))
         = of_key k (view delivered (out (core y))) @ of_key k (view completed_reply (channel y))"
      using hist by (simp_all add: system_history_def)
    show "of_key k (sent ?y) = ops_of k (out (core ?y)) @ backlog k (core ?y)
       @ of_key k (view refused_closed (out (core ?y))) @ of_key k (view submitted (channel ?y))"
      using h(1) bl [of k] by (simp add: c(1) closing_views)
    show "map reply_of (of_key k (view started_job (out (core ?y))))
      = map fst (of_key k (ended ?y)) @ map reply_of (of_key k (running ?y))"
      using h(2) by (simp add: c(1) closing_views)
    show "map fst (filter (\<lambda>(r, panicked). \<not> panicked) (of_key k (ended ?y)))
       = of_key k (view delivered (out (core ?y))) @ of_key k (view completed_reply (channel ?y))"
      using h(3) no_completions [OF quiet(3)] by (simp add: c(1) closing_views)
  qed
  moreover have "halted ?y"
    using ready quiet c(2) inv
    by (auto simp: halted_def c(1) ready_to_close_def scheduler_inv_def wf_sched_def queues_empty_iff)
  ultimately show ?thesis by (simp add: system_inv_def)
qed

section \<open>Every step\<close>

lemma call_events_cases:
  "call_events seen c state x = []
   \<or> state = Open \<and> (\<exists>e. call_events seen c state x = [e] \<and> e \<in> {Submission k op | k op. x = Operate k op}
        \<union> {Maintenance (Some a) r | a r. x = CleanUp a r} \<union> {Flush r | r. x = FlushStore r})
   \<or> (state = Open \<or> state = Closing) \<and> (\<exists>r. x = CloseStore r \<and> call_events seen c state x = [Close r])"
  by (cases x; cases state; cases seen)
     (auto simp: call_events_def submit_operation_def cleanup_stale_temporary_files_def engine_flush_def engine_close_def)

lemma call_disconnected: "\<not> c \<Longrightarrow> call_events seen c state x = []"
  by (cases x; cases state; cases seen)
     (auto simp: call_events_def submit_operation_def cleanup_stale_temporary_files_def engine_flush_def engine_close_def)

lemma call_views:
  assumes "events = call_events seen c state x"
  shows "view completed_key events = []" "view completed_reply events = []" "filter ends_maintenance events = []"
    "list_all sound_completion events"
  using call_events_cases [of seen c state x] unfolding assms by auto

lemma call_inv:
  assumes "system_inv maximum y" and e: "events = call_events seen (connected y) (lifecycle (core y)) x"
  shows "system_inv maximum (y\<lparr>channel := channel y @ events, sent := sent y @ view submitted events\<rparr>)"
proof -
  note v = call_views [OF e]
  have "halted y \<Longrightarrow> \<not> connected y \<Longrightarrow> events = []" using e call_disconnected by simp
  then show ?thesis
    using assms(1) v
    by (auto simp: system_inv_def system_core_def system_history_def live_def halted_def split: if_splits)
qed

lemma running_once:
  assumes "system_inv maximum y" "running y = us @ (k, operation) # vs"
  shows "of_key k us = []" "of_key k vs = []" "connected y"
proof -
  show c: "connected y" using assms by (auto simp: system_inv_def halted_def split: if_splits)
  then have "distinct (active (core y))" "mset (active (core y)) = mset (map fst (running y)) + mset (view completed_key (channel y))"
    using assms(1) by (auto simp: system_inv_def system_core_def live_def scheduler_inv_def wf_sched_def)
  then have "distinct (map fst (running y) @ view completed_key (channel y))"
    by (metis mset_append mset_eq_imp_distinct_iff)
  then have "k \<notin> fst ` set us" "k \<notin> fst ` set vs" using assms(2) by auto
  then show "of_key k us = []" "of_key k vs = []"
    by (auto simp: of_key_def filter_empty_conv)
qed

lemma job_inv:
  assumes inv: "system_inv maximum y" and r: "running y = us @ (k, operation) # vs" and o: "outcome_ok operation outcome"
  shows "system_inv maximum (y\<lparr>channel := channel y @ [Completion k outcome], running := us @ vs,
     ended := ended y @ [(k, reply_of operation, outcome = None)]\<rparr>)" (is "system_inv maximum ?y")
proof -
  note once = running_once [OF inv r]
  have live: "live maximum y" and core: "system_core y" and hist: "system_history y"
    using inv once(3) by (auto simp: system_inv_def)
  have "system_core ?y"
    using core r o by (auto simp: system_core_def outcome_ok_def split: option.split)
  moreover have "system_history ?y"
    unfolding system_history_def
  proof (intro allI conjI)
    fix k'
    have h: "of_key k' (sent y) = ops_of k' (out (core y)) @ backlog k' (core y)
         @ of_key k' (view refused_closed (out (core y))) @ of_key k' (view submitted (channel y))"
      "map reply_of (of_key k' (view started_job (out (core y))))
         = map fst (of_key k' (ended y)) @ map reply_of (of_key k' (running y))"
      "map fst (filter (\<lambda>(r, panicked). \<not> panicked) (of_key k' (ended y)))
         = of_key k' (view delivered (out (core y))) @ of_key k' (view completed_reply (channel y))"
      using hist by (simp_all add: system_history_def)
    show "of_key k' (sent ?y) = ops_of k' (out (core ?y)) @ backlog k' (core ?y)
         @ of_key k' (view refused_closed (out (core ?y))) @ of_key k' (view submitted (channel ?y))"
      using h(1) by simp
    show "map reply_of (of_key k' (view started_job (out (core ?y))))
         = map fst (of_key k' (ended ?y)) @ map reply_of (of_key k' (running ?y))"
      using h(2) r once by (cases "k' = k") simp_all
    show "map fst (filter (\<lambda>(r, panicked). \<not> panicked) (of_key k' (ended ?y)))
         = of_key k' (view delivered (out (core ?y))) @ of_key k' (view completed_reply (channel ?y))"
      using h(3) o by (auto simp: outcome_ok_def split: option.splits)
  qed
  moreover have "live maximum ?y" using live by (simp add: live_def)
  ultimately show ?thesis using once(3) by (simp add: system_inv_def)
qed

lemma upkeep_inv:
  assumes inv: "system_inv maximum y" and u: "upkeep y = us @ (age, r) # vs"
  shows "system_inv maximum (y\<lparr>channel := channel y @ [MaintenanceCompletion outcome], upkeep := us @ vs\<rparr>)"
  using assms by (auto simp: system_inv_def system_core_def system_history_def live_def halted_def split: if_splits)

lemma disconnect_inv:
  assumes inv: "system_inv maximum y" and c: "connected y" "channel y = []" "running y = []" "upkeep y = []"
    "queues_empty (queues (core y))"
  shows "system_inv maximum (y\<lparr>core := (core y)\<lparr>pool := p, lifecycle := Closed\<rparr>, connected := False\<rparr>)"
proof -
  have i: "scheduler_inv maximum (core y)" "\<not> ready_to_close (core y)" "system_core y" "system_history y"
    using inv c(1) by (auto simp: system_inv_def live_def)
  have q: "active (core y) = []" "\<not> maintenance_active (core y)" "\<And>k. queue_of (queues (core y)) k = []"
    using i(1,3) c by (auto simp: system_core_def scheduler_inv_def wf_sched_def queues_empty_iff)
  moreover have "pending (core y) = []"
    using i(1,2) q c(5)
    by (cases "pending (core y)") (auto simp: scheduler_inv_def blocked_def ready_to_close_def idle_def split: pending_event.splits)
  ultimately show ?thesis
    using i c by (auto simp: system_inv_def halted_def system_core_def system_history_def backlog_def)
qed

context hash_order
begin

text \<open>The coordinator never panics, and keeps the invariant.\<close>

lemma receive_inv:
  assumes inv: "system_inv maximum y" and c: "connected y" and r: "receive order maximum y = Some y'"
  shows "system_inv maximum y' \<and> lifecycle (core y') \<noteq> Failed"
proof -
  obtain event rest where ch: "channel y = event # rest"
    using r by (auto simp: receive_def split: list.splits)
  have i: "scheduler_inv maximum (core y)" "\<not> ready_to_close (core y)" "system_core y" "system_history y"
    using inv c by (auto simp: system_inv_def live_def)
  have "sound_completion event" using i(3) ch by (simp add: system_core_def)
  then obtain c' where h: "handle_event order maximum event (core y) = Some c'"
    using handle_event_panics [of order maximum event "core y"] by (cases "handle_event order maximum event (core y)") auto
  from handle_event_step [OF i(1) h] obtain acts where
    a: "accounted maximum event (core y) acts c'" and inv': "scheduler_inv maximum c'" by blast
  let ?y = "handled rest c' acts y"
  have core: "system_core ?y" by (rule handled_core [OF i(3) ch i(1) a])
  have hist: "system_history ?y" by (rule handled_history [OF i(4,3) ch a])
  have o: "drop (length (out (core y))) (out c') = acts" using a by (simp add: accounted_def)
  show ?thesis
  proof (cases "\<not> continues event (core y) \<and> ready_to_close c'")
    case True
    then have y': "y' = ?y\<lparr>core := close_down (channel ?y) (core ?y), channel := [], connected := False\<rparr>"
      using r ch h o by (simp add: receive_def handled_def Let_def)
    have "system_inv maximum y'"
      unfolding y' by (rule closing_inv [OF core hist]) (use inv' True in \<open>simp_all add: handled_def\<close>)
    moreover from this have "halted y'" by (simp add: system_inv_def y')
    ultimately show ?thesis by (auto simp: halted_def)
  next
    case False
    then have y': "y' = ?y" using r ch h o by (auto simp: receive_def handled_def Let_def)
    have "\<not> ready_to_close c'" using False continues_not_ready [OF h] i(2) by blast
    then have "live maximum ?y" using inv' by (simp add: live_def handled_def)
    then show ?thesis
      using core hist c inv' by (auto simp: y' system_inv_def handled_def scheduler_inv_def)
  qed
qed

lemma step_inv:
  assumes "sys_step order maximum y y'" "system_inv maximum y"
  shows "system_inv maximum y'"
  using assms(1)
proof cases
  case (call events seen c)
  show ?thesis unfolding call(1) by (rule call_inv [OF assms(2) call(3)])
next
  case coordinator
  with receive_inv [OF assms(2)] show ?thesis by blast
next
  case (job_ends us k operation vs outcome)
  show ?thesis unfolding job_ends(1) by (rule job_inv [OF assms(2) job_ends(2,3)])
next
  case (upkeep_ends us age r vs outcome result)
  show ?thesis unfolding upkeep_ends(1) by (rule upkeep_inv [OF assms(2) upkeep_ends(2)])
next
  case drop_handles
  then show ?thesis
    using assms(2) by (auto simp: system_inv_def system_core_def system_history_def live_def halted_def)
next
  case (disconnect result p)
  show ?thesis unfolding disconnect(1) by (rule disconnect_inv [OF assms(2) disconnect(2,4-7)])
qed

end

text \<open>The coordinator as \<open>from_config\<close> starts it.\<close>

definition started :: "nat \<Rightarrow> bool list \<Rightarrow> bool list \<Rightarrow> sched" where
  "started capacity spawns panics = sched_new (worker_pool_new capacity spawns panics)"

lemma reachable_inv:
  assumes "hash_order order" "reachable order maximum (started maximum spawns panics) y"
  shows "system_inv maximum y"
  using assms(2)
proof induction
  case initial
  show ?case by (rule initial_inv) (simp add: started_def)
next
  case (further y y')
  then show ?case by (blast intro: hash_order.step_inv [OF assms(1)])
qed

end
