(* ===== verification/SystemProps.thy ===== *)
theory SystemProps
  imports SystemInv
begin

text \<open>
  The properties of the coordinator and the store around it, for every order in which the hash map is
  iterated, every interleaving of calls and jobs, every failure to start a worker thread and every panic
  of a job or a worker.
\<close>

section \<open>Runs\<close>

text \<open>An executable form of the steps, for concrete runs.\<close>

datatype move = Call client_call | Handle | EndJob operation_outcome | EndUpkeep maintenance_outcome

fun drive :: "iteration_order \<Rightarrow> nat \<Rightarrow> move list \<Rightarrow> system \<Rightarrow> system option" where
  "drive order maximum [] y = Some y"
| "drive order maximum (Call c # ms) y =
     (if handles y then
        (let events = call_events (lifecycle (core y)) (connected y) (lifecycle (core y)) c
         in drive order maximum ms
              (y\<lparr>channel := channel y @ events, sent := sent y @ view submitted events\<rparr>))
      else None)"
| "drive order maximum (Handle # ms) y =
     (if connected y then case receive order maximum y of None \<Rightarrow> None | Some y' \<Rightarrow> drive order maximum ms y'
      else None)"
| "drive order maximum (EndJob outcome # ms) y =
     (case running y of
        (k, operation) # vs \<Rightarrow>
          (if outcome_ok operation outcome
           then drive order maximum ms
             (y\<lparr>channel := channel y @ [Completion k outcome], running := vs,
                ended := ended y @ [(k, reply_of operation, outcome = None)]\<rparr>)
           else None)
      | [] \<Rightarrow> None)"
| "drive order maximum (EndUpkeep outcome # ms) y =
     (case upkeep y of
        (age, r) # vs \<Rightarrow>
          (if (case outcome of None \<Rightarrow> True | Some (r', _) \<Rightarrow> r' = r)
           then drive order maximum ms
             (y\<lparr>channel := channel y @ [MaintenanceCompletion outcome], upkeep := vs\<rparr>)
           else None)
      | [] \<Rightarrow> None)"

lemma drive_reachable:
  "drive order maximum ms y = Some y' \<Longrightarrow> reachable order maximum start y \<Longrightarrow> reachable order maximum start y'"
proof (induction order maximum ms y rule: drive.induct)
  case (2 order maximum c ms y)
  then show ?case by (auto simp: Let_def split: if_splits intro: further sys_step.call)
next
  case (3 order maximum ms y)
  then show ?case by (auto split: if_splits option.splits intro: further sys_step.coordinator)
next
  case (4 order maximum outcome ms y)
  from 4(2) obtain k operation vs where r: "running y = [] @ (k, operation) # vs" and o: "outcome_ok operation outcome"
    by (auto split: list.splits prod.splits if_splits)
  from further [OF 4(3) sys_step.job_ends [OF r o]] 4(1) [OF _ _ o] 4(2) r o show ?case by simp
next
  case (5 order maximum outcome ms y)
  from 5(2) obtain age r vs where r: "upkeep y = [] @ (age, r) # vs"
    and o: "case outcome of None \<Rightarrow> True | Some (r', _) \<Rightarrow> r' = r"
    by (auto split: list.splits prod.splits if_splits)
  obtain result where "outcome = None \<or> outcome = Some (r, result)"
    using o by (cases outcome) auto
  from further [OF 5(3) sys_step.upkeep_ends [OF r this]] 5(1) [OF _ _ o] 5(2) r o show ?case by simp
qed simp

definition run :: "move list \<Rightarrow> system option" where
  "run ms = drive rotating_order 2 ms (system_new (started 2 [] []))"

lemma run_reachable: "run ms = Some y \<Longrightarrow> reachable rotating_order 2 (started 2 [] []) y"
  unfolding run_def by (rule drive_reachable) (auto intro: initial)

lemma run_the: "run ms \<noteq> None \<Longrightarrow> reachable rotating_order 2 (started 2 [] []) (the (run ms))"
  using run_reachable by auto

text \<open>A run with a busy key, a barrier behind it and an operation behind the barrier.\<close>

definition busy_moves :: "move list" where
  "busy_moves = [Call (Operate [] (LoadOp 0)), Handle, Call (Operate [] (ClearOp 1)), Handle,
     Call (FlushStore 2), Handle, Call (Operate [0] (InspectOp 3)), Handle]"

text \<open>The first job has ended and the second one panicked: the flush is about to be answered.\<close>

definition barrier_moves :: "move list" where
  "barrier_moves = busy_moves @
     [EndJob (Some (LoadOp 0, LoadResult (Ok None))), Handle, EndJob None]"

definition rest_moves :: "move list" where
  "rest_moves = barrier_moves @
     [Handle, EndJob (Some (InspectOp 3, InspectResult (Err UnexpectedFileType))), Handle]"

text \<open>A close request with an operation, a flush and another close request behind it.\<close>

definition closing_moves :: "move list" where
  "closing_moves = rest_moves @
     [Call (CloseStore 4), Call (Operate [] (LoadOp 5)), Call (FlushStore 6), Call (CloseStore 7)]"

definition closed_moves :: "move list" where
  "closed_moves = closing_moves @ [Handle]"

lemmas moves_defs = busy_moves_def barrier_moves_def rest_moves_def closing_moves_def closed_moves_def

lemma runs:
  "run busy_moves \<noteq> None" "run barrier_moves \<noteq> None" "run rest_moves \<noteq> None"
  "run closing_moves \<noteq> None" "run closed_moves \<noteq> None"
  by code_simp+

lemma in_set_of_key: "x \<in> set (of_key k xs) \<longleftrightarrow> (k, x) \<in> set xs"
  by (induction xs) (auto split: if_splits)

section \<open>Exclusion and bounds\<close>

lemma job_bounds:
  assumes "hash_order order" and "reachable order maximum (started maximum spawns panics) y"
  shows "distinct (map fst (running y))" "length (running y) \<le> maximum"
    "connected y \<longrightarrow> length (running y) \<le> wp_handles (pool (core y)) \<and> wp_handles (pool (core y)) \<le> maximum"
    "length (upkeep y) \<le> 1"
    "upkeep y \<noteq> [] \<or> maintenance_active (core y) \<longrightarrow>
       running y = [] \<and> (\<forall>k. queue_of (queues (core y)) k = [])"
proof -
  have inv: "system_inv maximum y" by (rule reachable_inv [OF assms])
  then have core: "mset (active (core y)) = mset (map fst (running y)) + mset (view completed_key (channel y))"
    and m: "of_bool (maintenance_active (core y)) = length (upkeep y) + length (filter ends_maintenance (channel y))"
    by (auto simp: system_inv_def system_core_def)
  have wf: "connected y \<Longrightarrow> wf_sched maximum (core y) \<and> exclusive (core y)"
    using inv by (simp add: system_inv_def live_def scheduler_inv_def)
  have off: "\<not> connected y \<Longrightarrow> halted y" using inv by (simp add: system_inv_def)
  have l: "length (running y) \<le> length (active (core y))"
    using arg_cong [OF core, of size] by simp
  have d: "distinct (active (core y)) \<Longrightarrow> distinct (map fst (running y))"
    using core by (metis distinct_append mset_append mset_eq_imp_distinct_iff)
  show "distinct (map fst (running y))" "length (running y) \<le> maximum"
    "connected y \<longrightarrow> length (running y) \<le> wp_handles (pool (core y)) \<and> wp_handles (pool (core y)) \<le> maximum"
    using l d wf off by (cases "connected y"; auto simp: wf_sched_def halted_def)+
  show "length (upkeep y) \<le> 1"
    using m by (cases "maintenance_active (core y)") auto
  show "upkeep y \<noteq> [] \<or> maintenance_active (core y) \<longrightarrow>
      running y = [] \<and> (\<forall>k. queue_of (queues (core y)) k = [])"
  proof
    assume "upkeep y \<noteq> [] \<or> maintenance_active (core y)"
    then have ma: "maintenance_active (core y)" using m by (cases "maintenance_active (core y)") auto
    then have c: "connected y" using off by (auto simp: halted_def)
    with wf ma have "idle (core y)" "wf_sched maximum (core y)" by (auto simp: exclusive_def)
    then show "running y = [] \<and> (\<forall>k. queue_of (queues (core y)) k = [])"
      using l by (simp add: idle_def wf_sched_def queues_empty_iff)
  qed
qed

text \<open>C9. At any moment at most one operation of a key is at the workers and at most the configured number
  of operations altogether; each has a worker thread of its own, and there are never more threads than
  configured. Maintenance runs alone: while it is at a worker, or its end has not been handled, no
  operation is at the workers and no operation waits in the queues.\<close>

theorem jobs_exclusive_and_bounded:
  assumes "hash_order order" and "reachable order maximum (started maximum spawns panics) y"
  shows "distinct (map fst (running y)) \<and> length (running y) \<le> maximum
    \<and> (connected y \<longrightarrow> length (running y) \<le> wp_handles (pool (core y)) \<and> wp_handles (pool (core y)) \<le> maximum)
    \<and> length (upkeep y) \<le> 1
    \<and> (upkeep y \<noteq> [] \<or> maintenance_active (core y) \<longrightarrow>
         running y = [] \<and> (\<forall>k. queue_of (queues (core y)) k = []))"
  by (intro conjI job_bounds [OF assms])

lemma jobs_exclusive_and_bounded_witness:
  "distinct (map fst (running (the (run busy_moves)))) \<and> running (the (run busy_moves)) = [([], LoadOp 0)]"
proof
  show "distinct (map fst (running (the (run busy_moves))))"
    using jobs_exclusive_and_bounded [OF rotating.hash_order_axioms run_the [OF runs(1)]] by blast
  show "running (the (run busy_moves)) = [([], LoadOp 0)]" by code_simp
qed

section \<open>Order\<close>

lemma operation_order:
  assumes "hash_order order" and "reachable order maximum (started maximum spawns panics) y"
  shows "of_key k (sent y) = ops_of k (out (core y)) @ backlog k (core y)
      @ of_key k (view refused_closed (out (core y))) @ of_key k (view submitted (channel y))"
    "map reply_of (of_key k (view started_job (out (core y))))
      = map fst (of_key k (ended y)) @ map reply_of (of_key k (running y))"
    "length (of_key k (running y)) \<le> 1"
    "map fst (filter (\<lambda>(r, panicked). \<not> panicked) (of_key k (ended y)))
      = of_key k (view delivered (out (core y))) @ of_key k (view completed_reply (channel y))"
proof -
  have inv: "system_inv maximum y" by (rule reachable_inv [OF assms])
  then show "of_key k (sent y) = ops_of k (out (core y)) @ backlog k (core y)
      @ of_key k (view refused_closed (out (core y))) @ of_key k (view submitted (channel y))"
    "map reply_of (of_key k (view started_job (out (core y))))
      = map fst (of_key k (ended y)) @ map reply_of (of_key k (running y))"
    "map fst (filter (\<lambda>(r, panicked). \<not> panicked) (of_key k (ended y)))
      = of_key k (view delivered (out (core y))) @ of_key k (view completed_reply (channel y))"
    by (simp_all add: system_inv_def system_history_def)
  show "length (of_key k (running y)) \<le> 1"
  proof (cases "of_key k (running y)")
    case (Cons x xs)
    then have "(k, x) \<in> set (running y)"
      using in_set_of_key [of x k "running y"] by simp
    then obtain us vs where r: "running y = us @ (k, x) # vs" by (meson split_list)
    from running_once [OF inv r] r show ?thesis by simp
  qed simp
qed

text \<open>C8. The operations sent for a key are, in the order of sending: those the coordinator has dispatched,
  those that wait, those the closing store refused, and those still in the channel. Nothing is lost,
  duplicated or reordered. The jobs of a key end in the order they were started, at most one of them is
  running, and the results are delivered in that order, except that a job that panicked delivers none.\<close>

theorem operations_in_order:
  assumes "hash_order order" and "reachable order maximum (started maximum spawns panics) y"
  shows "of_key k (sent y) = ops_of k (out (core y)) @ backlog k (core y)
        @ of_key k (view refused_closed (out (core y))) @ of_key k (view submitted (channel y))
    \<and> map reply_of (of_key k (view started_job (out (core y))))
        = map fst (of_key k (ended y)) @ map reply_of (of_key k (running y))
    \<and> length (of_key k (running y)) \<le> 1
    \<and> map fst (filter (\<lambda>(r, panicked). \<not> panicked) (of_key k (ended y)))
        = of_key k (view delivered (out (core y))) @ of_key k (view completed_reply (channel y))"
  by (intro conjI operation_order [OF assms])

lemma operations_in_order_witness:
  "map reply_of (of_key [] (view started_job (out (core (the (run barrier_moves))))))
     = map fst (of_key [] (ended (the (run barrier_moves)))) @ map reply_of (of_key [] (running (the (run barrier_moves))))
   \<and> of_key [] (ended (the (run barrier_moves))) = [(0, False), (1, True)]"
proof
  show "map reply_of (of_key [] (view started_job (out (core (the (run barrier_moves))))))
     = map fst (of_key [] (ended (the (run barrier_moves)))) @ map reply_of (of_key [] (running (the (run barrier_moves))))"
    using operations_in_order [OF rotating.hash_order_axioms run_the [OF runs(2)]] by blast
  show "of_key [] (ended (the (run barrier_moves))) = [(0, False), (1, True)]" by code_simp
qed

section \<open>Progress\<close>

lemma waiting:
  assumes "hash_order order" and "reachable order maximum (started maximum spawns panics) y"
    and "0 < maximum"
  shows "queue_of (queues (core y)) k \<noteq> [] \<longrightarrow> k \<in> set (active (core y)) \<or> length (active (core y)) = maximum"
    and "channel y = [] \<and> running y = [] \<and> upkeep y = [] \<longrightarrow> pending (core y) = [] \<and> backlog k (core y) = []
      \<and> of_key k (sent y) = ops_of k (out (core y)) @ of_key k (view refused_closed (out (core y)))"
proof -
  have inv: "system_inv maximum y" by (rule reachable_inv [OF assms(1,2)])
  have wc: "queue_of (queues (core y)) k \<noteq> [] \<longrightarrow> k \<in> set (active (core y)) \<or> length (active (core y)) = maximum" for k
    using inv by (auto simp: system_inv_def live_def halted_def scheduler_inv_def work_conserving_def wf_sched_def split: if_splits)
  then show "queue_of (queues (core y)) k \<noteq> [] \<longrightarrow> k \<in> set (active (core y)) \<or> length (active (core y)) = maximum" .
  show "channel y = [] \<and> running y = [] \<and> upkeep y = [] \<longrightarrow> pending (core y) = [] \<and> backlog k (core y) = []
      \<and> of_key k (sent y) = ops_of k (out (core y)) @ of_key k (view refused_closed (out (core y)))"
  proof
    assume q: "channel y = [] \<and> running y = [] \<and> upkeep y = []"
    then have a: "active (core y) = []" "\<not> maintenance_active (core y)"
      using inv by (auto simp: system_inv_def system_core_def)
    then have e: "queue_of (queues (core y)) k = []" for k using wc [of k] assms(3) by simp
    have "pending (core y) = []"
    proof (cases "connected y")
      case True
      then have i: "scheduler_inv maximum (core y)" "\<not> ready_to_close (core y)"
        using inv by (simp_all add: system_inv_def live_def)
      then have "queues_empty (queues (core y))" using e by (simp add: scheduler_inv_def wf_sched_def queues_empty_iff)
      then show ?thesis
        using i a by (cases "pending (core y)")
          (auto simp: scheduler_inv_def blocked_def ready_to_close_def idle_def split: pending_event.splits)
    next
      case False
      then show ?thesis using inv by (simp add: system_inv_def halted_def)
    qed
    with e operation_order(1) [OF assms(1,2), of k] q show "pending (core y) = [] \<and> backlog k (core y) = []
      \<and> of_key k (sent y) = ops_of k (out (core y)) @ of_key k (view refused_closed (out (core y)))"
      by (simp add: backlog_def)
  qed
qed

text \<open>The line of pending events waits for the maintenance, or its head is no operation and jobs have to end.\<close>

lemma line_waits:
  assumes "hash_order order" and "reachable order maximum (started maximum spawns panics) y"
    and "0 < maximum" and line: "pending (core y) \<noteq> []"
  shows "(upkeep y \<noteq> [] \<or> list_ex ends_maintenance (channel y))
    \<or> (\<forall>k operation. hd (pending (core y)) \<noteq> PendingSubmission k operation)
      \<and> (running y \<noteq> [] \<or> view completed_key (channel y) \<noteq> [])"
proof (cases "maintenance_active (core y)")
  case True
  have "system_core y" using reachable_inv [OF assms(1,2)] by (simp add: system_inv_def)
  with True have "length (upkeep y) + length (filter ends_maintenance (channel y)) = 1" by (simp add: system_core_def)
  then show ?thesis by (cases "upkeep y") (auto simp: list_ex_iff length_Suc_conv filter_eq_Cons_iff)
next
  case False
  have inv: "system_inv maximum y" by (rule reachable_inv [OF assms(1,2)])
  with line have i: "scheduler_inv maximum (core y)" "\<not> ready_to_close (core y)" "system_core y"
    by (auto simp: system_inv_def live_def halted_def split: if_splits)
  have "\<not> idle (core y) \<and> (\<forall>k operation. hd (pending (core y)) \<noteq> PendingSubmission k operation)"
    using i(1,2) False line
    by (cases "pending (core y)")
       (auto simp: scheduler_inv_def blocked_def ready_to_close_def idle_def split: pending_event.splits)
  moreover from this have "active (core y) \<noteq> []"
    using waiting(1) [OF assms(1-3)] assms(3) i(1)
    by (auto simp: idle_def scheduler_inv_def wf_sched_def queues_empty_iff)
  moreover have "mset (active (core y)) = mset (map fst (running y)) + mset (view completed_key (channel y))"
    using i(3) by (simp add: system_core_def)
  ultimately show ?thesis by auto
qed

text \<open>C13. Work is conserved: an operation waits in the queue of its key only while an earlier operation of the
  key is being processed or every slot is taken. What waits in the line of pending events waits for a
  maintenance, or for a flush, a maintenance or a close request at the head of the line, and that one waits
  for a job at a worker or a completion still in the channel; it is never an operation that holds up the
  line. When the channel is empty and no job is at a worker, nothing waits at all: every operation sent was
  dispatched or refused, and no barrier or close request is left.\<close>

theorem nothing_waits_idly:
  assumes "hash_order order" and "reachable order maximum (started maximum spawns panics) y" and "0 < maximum"
  shows "(queue_of (queues (core y)) k \<noteq> [] \<longrightarrow> k \<in> set (active (core y)) \<or> length (active (core y)) = maximum)
    \<and> (pending (core y) \<noteq> [] \<longrightarrow>
        (upkeep y \<noteq> [] \<or> list_ex ends_maintenance (channel y))
        \<or> (\<forall>k operation. hd (pending (core y)) \<noteq> PendingSubmission k operation)
          \<and> (running y \<noteq> [] \<or> view completed_key (channel y) \<noteq> []))
    \<and> (channel y = [] \<and> running y = [] \<and> upkeep y = [] \<longrightarrow> pending (core y) = [] \<and> backlog k (core y) = []
        \<and> of_key k (sent y) = ops_of k (out (core y)) @ of_key k (view refused_closed (out (core y))))"
  by (intro conjI waiting [OF assms] impI [OF line_waits [OF assms]])

lemma nothing_waits_idly_witness:
  "pending (core (the (run rest_moves))) = []
   \<and> of_key [] (sent (the (run rest_moves)))
     = ops_of [] (out (core (the (run rest_moves)))) @ of_key [] (view refused_closed (out (core (the (run rest_moves)))))"
proof -
  have "channel (the (run rest_moves)) = []" "running (the (run rest_moves)) = []" "upkeep (the (run rest_moves)) = []"
    by code_simp+
  with nothing_waits_idly [OF rotating.hash_order_axioms run_the [OF runs(3)], of "[]"] show ?thesis by simp
qed

section \<open>Closing\<close>

text \<open>C11. After the coordinator has stopped the store is empty for good: every operation ever sent was
  dispatched or refused, every job given to a worker has ended and its result was delivered unless it
  panicked, nothing is left in the channel, no later call enters anything, and the lifecycle is \<open>Closed\<close>
  or \<open>ShutdownFailed\<close>.\<close>

theorem stopped_store_is_drained:
  assumes "hash_order order" and "reachable order maximum (started maximum spawns panics) y"
    and "\<not> connected y"
  shows "running y = [] \<and> upkeep y = [] \<and> channel y = [] \<and> pending (core y) = []
    \<and> (\<forall>k. of_key k (sent y) = ops_of k (out (core y)) @ of_key k (view refused_closed (out (core y)))
        \<and> map reply_of (of_key k (view started_job (out (core y)))) = map fst (of_key k (ended y))
        \<and> of_key k (view delivered (out (core y)))
            = map fst (filter (\<lambda>(r, panicked). \<not> panicked) (of_key k (ended y))))
    \<and> (\<forall>seen c. call_events seen (connected y) (lifecycle (core y)) c = [])
    \<and> (lifecycle (core y) = Closed \<or> lifecycle (core y) = ShutdownFailed)"
  using reachable_inv [OF assms(1,2)] operation_order [OF assms(1,2)] assms(3)
  by (auto simp: system_inv_def halted_def backlog_def call_disconnected)

lemma stopped_store_is_drained_witness:
  "running (the (run closed_moves)) = [] \<and> channel (the (run closed_moves)) = []
   \<and> view refused_closed (out (core (the (run closed_moves)))) = [([], LoadOp 5)]"
proof -
  have "\<not> connected (the (run closed_moves))" by code_simp
  moreover have "view refused_closed (out (core (the (run closed_moves)))) = [([], LoadOp 5)]" by code_simp
  ultimately show ?thesis
    using stopped_store_is_drained [OF rotating.hash_order_axioms run_the [OF runs(5)]] by blast
qed

text \<open>What the closing step says to everyone who still waits.\<close>

definition answered_by :: "unit store_result \<Rightarrow> action list \<Rightarrow> pending_event list \<Rightarrow> coordinator_event list \<Rightarrow> bool" where
  "answered_by result acts line events \<longleftrightarrow>
     (\<forall>r. PendingClose r \<in> set line \<or> Close r \<in> set events \<longrightarrow> Replied r (UnitReply result) \<in> set acts)
     \<and> (\<forall>r. Flush r \<in> set events \<longrightarrow> Replied r (UnitReply (Err StoreClosed)) \<in> set acts)
     \<and> (\<forall>age r. Maintenance age r \<in> set events \<longrightarrow> Replied r (CleanupReply (Err StoreClosed)) \<in> set acts)
     \<and> (\<forall>k operation. Submission k operation \<in> set events \<longrightarrow> Refused k operation StoreClosed \<in> set acts)"

lemma closing_head:
  assumes h: "handle_event order maximum event s = Some c" and "\<not> continues event s" "ready_to_close c"
    and inv: "scheduler_inv maximum c" "scheduler_inv maximum s" and a: "accounted maximum event s acts c"
  shows "(\<exists>k outcome. event = Completion k outcome) \<or> ends_maintenance event \<or> (\<exists>r. event = Close r)"
proof (rule ccontr)
  assume *: "\<not> ?thesis"
  with assms(2) have "lifecycle s = Open" by (cases event) (auto simp: continues_def)
  with a * have "lifecycle c = Open" by (cases event) (auto simp: accounted_def)
  then have "list_all (\<lambda>e. \<not> is_close e) (pending c)"
    using inv(1) by (auto simp: scheduler_inv_def close_ordered_def)
  with assms(3) show False by (auto simp: ready_to_close_def split: list.splits)
qed

lemma in_view: "x \<in> set xs \<Longrightarrow> b \<in> set (f x) \<Longrightarrow> b \<in> set (view f xs)"
  by (auto simp: view_def)

lemma drained_answers:
  "answered_by result (view (close_action result) line @ view (drain_action result) events) line events"
proof -
  have "Replied r (UnitReply result) \<in> set (view (close_action result) line)" if "PendingClose r \<in> set line" for r
    using that in_view [of "PendingClose r" line "Replied r (UnitReply result)" "close_action result"] by simp
  moreover have "b \<in> set (view (drain_action result) events)"
    if "e \<in> set events" "b \<in> set (drain_action result e)" for e b
    using that by (rule in_view [of e events b "drain_action result"])
  from this [of "Close _"] this [of "Flush _"] this [of "Maintenance _ _"] this [of "Submission _ _"]
  have "\<And>r. Close r \<in> set events \<Longrightarrow> Replied r (UnitReply result) \<in> set (view (drain_action result) events)"
    "\<And>r. Flush r \<in> set events \<Longrightarrow> Replied r (UnitReply (Err StoreClosed)) \<in> set (view (drain_action result) events)"
    "\<And>age r. Maintenance age r \<in> set events \<Longrightarrow>
       Replied r (CleanupReply (Err StoreClosed)) \<in> set (view (drain_action result) events)"
    "\<And>k operation. Submission k operation \<in> set events \<Longrightarrow>
       Refused k operation StoreClosed \<in> set (view (drain_action result) events)"
    by simp_all
  ultimately show ?thesis unfolding answered_by_def set_append by blast
qed

text \<open>C12. The step in which the coordinator closes the store gives the same answer to every close request,
  the waiting ones and those still in the channel: success when every worker thread ended normally, and
  the shutdown failure otherwise, which the lifecycle records. Every other request in the channel is
  answered with \<open>StoreClosed\<close>.\<close>

theorem close_answers_everyone:
  assumes "hash_order order" and "reachable order maximum (started maximum spawns panics) y"
    and "connected y" "receive order maximum y = Some y'" "\<not> connected y'"
  shows "\<exists>result acts. out (core y') = out (core y) @ acts
    \<and> answered_by result acts (pending (core y)) (channel y)
    \<and> (lifecycle (core y') = Closed \<and> result = Ok ()
       \<or> lifecycle (core y') = ShutdownFailed \<and> result = Err ShutdownFailure)"
proof -
  have inv: "system_inv maximum y" by (rule reachable_inv [OF assms(1,2)])
  obtain event rest where ch: "channel y = event # rest"
    using assms(4) by (auto simp: receive_def split: list.splits)
  have i: "scheduler_inv maximum (core y)" and "sound_completion event"
    using inv assms(3) ch by (auto simp: system_inv_def live_def system_core_def)
  then obtain c where h: "handle_event order maximum event (core y) = Some c"
    using handle_event_panics [of order maximum event "core y"] by (cases "handle_event order maximum event (core y)") auto
  from hash_order.handle_event_step [OF assms(1) i h] obtain acts where
    a: "accounted maximum event (core y) acts c" and inv': "scheduler_inv maximum c" by blast
  have o: "out c = out (core y) @ acts" and closes: "filter is_close (pending c) = filter is_close (pending (core y) @ joins event)"
    using a by (auto simp: accounted_def)
  have ready: "\<not> continues event (core y)" "ready_to_close c"
    using assms(3-5) ch h by (auto simp: receive_def Let_def split: if_splits)
  let ?queue = "rest @ view self_event acts"
  have y': "core y' = close_down ?queue c"
    using assms(4) ch h o ready by (auto simp: receive_def Let_def)
  have line: "list_all is_close (pending c)"
    using ready(2) inv' closes_only [of c]
    by (auto simp: ready_to_close_def scheduler_inv_def split: list.splits)
  obtain p result l where
    e: "close_down ?queue c = c\<lparr>pool := p, lifecycle := l, pending := [],
      out := out c @ view (close_action result) (pending c) @ view (drain_action result) ?queue\<rparr>"
    "l = Closed \<and> result = Ok () \<or> l = ShutdownFailed \<and> result = Err ShutdownFailure"
    by (rule close_down_effect [OF line, of ?queue])
  from drained_answers [of result "pending c" ?queue] have
    ans: "answered_by result (view (close_action result) (pending c) @ view (drain_action result) ?queue) (pending c) ?queue" .
  have "PendingClose r \<in> set (pending c)" if "PendingClose r \<in> set (pending (core y)) \<or> event = Close r" for r
  proof -
    have "PendingClose r \<in> set (filter is_close (pending (core y) @ joins event))" using that by auto
    then show ?thesis using closes by (metis filter_is_subset subsetD)
  qed
  moreover note closing_head [OF h ready inv' i a]
  ultimately have "answered_by result (acts @ view (close_action result) (pending c) @ view (drain_action result) ?queue)
      (pending (core y)) (channel y)"
    using ans unfolding answered_by_def ch by auto
  then show ?thesis
    using e o by (auto simp: y')
qed

lemma close_answers_everyone_witness:
  "lifecycle (core (the (run closed_moves))) = Closed
   \<and> {Replied 4 (UnitReply (Ok ())), Replied 7 (UnitReply (Ok ())), Refused [] (LoadOp 5) StoreClosed,
      Replied 6 (UnitReply (Err StoreClosed))} \<subseteq> set (out (core (the (run closed_moves))))"
proof -
  let ?y = "the (run closing_moves)" and ?y' = "the (run closed_moves)"
  have c: "connected ?y" "receive rotating_order 2 ?y = Some ?y'" "\<not> connected ?y'" by code_simp+
  have l: "lifecycle (core ?y') = Closed" by code_simp
  have ev: "Close 4 \<in> set (channel ?y)" "Close 7 \<in> set (channel ?y)" "Flush 6 \<in> set (channel ?y)"
    "Submission [] (LoadOp 5) \<in> set (channel ?y)" by code_simp+
  from close_answers_everyone [OF rotating.hash_order_axioms run_the [OF runs(4)] c] l obtain acts where
    "out (core ?y') = out (core ?y) @ acts" "answered_by (Ok ()) acts (pending (core ?y)) (channel ?y)"
    by auto
  with ev l show ?thesis by (auto simp: answered_by_def)
qed

end
