(* ===== verification/SystemProgress.thy ===== *)
theory SystemProgress
  imports SystemProps
begin

text \<open>
  Progress: every step of the coordinator and every end of a job uses up some of the work that is left,
  so that without new calls the store comes to rest, and at rest nothing waits.
\<close>

section \<open>The work that is left\<close>

fun event_work :: "coordinator_event \<Rightarrow> nat" where
  "event_work (Submission _ _) = 4"
| "event_work (Maintenance _ _) = 4"
| "event_work (Flush _) = 2"
| "event_work (Close _) = 2"
| "event_work (Completion _ _) = 1"
| "event_work (MaintenanceCompletion _) = 1"

definition work :: "system \<Rightarrow> nat" where
  "work y = load (core y) + sum_list (map event_work (channel y)) + 2 * length (running y) + 2 * length (upkeep y)"

inductive progress :: "iteration_order \<Rightarrow> nat \<Rightarrow> system \<Rightarrow> system \<Rightarrow> bool"
  for order :: iteration_order and maximum :: nat where
  coordinator: "connected y \<Longrightarrow> receive order maximum y = Some y' \<Longrightarrow> progress order maximum y y'"
| job_ends: "running y = us @ (k, operation) # vs \<Longrightarrow> outcome_ok operation outcome \<Longrightarrow>
    progress order maximum y
      (y\<lparr>channel := channel y @ [Completion k outcome], running := us @ vs,
         ended := ended y @ [(k, reply_of operation, outcome = None)]\<rparr>)"
| upkeep_ends: "upkeep y = us @ (age, r) # vs \<Longrightarrow> outcome = None \<or> outcome = Some (r, result) \<Longrightarrow>
    progress order maximum y
      (y\<lparr>channel := channel y @ [MaintenanceCompletion outcome], upkeep := us @ vs\<rparr>)"

lemma progress_step: "progress order maximum y y' \<Longrightarrow> sys_step order maximum y y'"
  by (induction rule: progress.induct) (blast intro: sys_step.intros)+

lemma joins_work: "sum_list (map pending_load (joins event)) < event_work event"
  by (cases event) simp_all

lemma costs_views:
  "costs acts = 2 * length (view started_job acts) + 2 * length (view upkeep_job acts) + length (view self_event acts)"
proof (induction acts)
  case (Cons a acts)
  then show ?case by (cases a) simp_all
qed simp

lemma maintenance_completions_work:
  "set events \<subseteq> {MaintenanceCompletion None} \<Longrightarrow> sum_list (map event_work events) = length events"
  by (induction events) auto

lemma handled_work:
  assumes "channel y = event # rest" and a: "accounted maximum event (core y) acts c"
  shows "work (handled rest c acts y) < work y"
proof -
  have "load c + costs acts \<le> load (core y) + sum_list (map pending_load (joins event))"
    using a by (simp add: accounted_def)
  then show ?thesis
    using assms(1) joins_work [of event] costs_views [of acts]
      maintenance_completions_work [OF accounted_self_events [OF a]]
    by (simp add: work_def handled_def)
qed

lemma receive_work:
  assumes "hash_order order" and inv: "system_inv maximum y" and c: "connected y"
    and r: "receive order maximum y = Some y'"
  shows "work y' < work y"
proof -
  obtain event rest where ch: "channel y = event # rest"
    using r by (auto simp: receive_def split: list.splits)
  have i: "scheduler_inv maximum (core y)" and "sound_completion event"
    using inv c ch by (auto simp: system_inv_def live_def system_core_def)
  then obtain c' where h: "handle_event order maximum event (core y) = Some c'"
    using handle_event_panics [of order maximum event "core y"]
    by (cases "handle_event order maximum event (core y)") auto
  from hash_order.handle_event_step [OF assms(1) i h] obtain acts where
    a: "accounted maximum event (core y) acts c'" and inv': "scheduler_inv maximum c'" by blast
  let ?y = "handled rest c' acts y"
  have o: "drop (length (out (core y))) (out c') = acts" using a by (simp add: accounted_def)
  show ?thesis
  proof (cases "\<not> continues event (core y) \<and> ready_to_close c'")
    case True
    then have y': "y' = ?y\<lparr>core := close_down (channel ?y) c', channel := [], connected := False\<rparr>"
      using r ch h o by (simp add: receive_def handled_def Let_def)
    have "list_all is_close (pending c')"
      using True inv' closes_only [of c']
      by (auto simp: ready_to_close_def scheduler_inv_def split: list.splits)
    then have "load (close_down (channel ?y) c') \<le> load c'"
      by (rule close_down_effect [of c' "channel ?y"]) (simp add: load_def)
    then have "work y' \<le> work ?y" by (simp add: y' work_def) (simp add: handled_def)
    with handled_work [OF ch a] show ?thesis by simp
  next
    case False
    then have "y' = ?y" using r ch h o by (auto simp: receive_def handled_def Let_def)
    with handled_work [OF ch a] show ?thesis by simp
  qed
qed

lemma progress_work:
  assumes "hash_order order" "system_inv maximum y" "progress order maximum y y'"
  shows "work y' < work y"
  using assms(3)
proof cases
  case coordinator
  then show ?thesis by (rule receive_work [OF assms(1,2)])
qed (auto simp: work_def)

lemma progress_run:
  assumes "hash_order order" "(progress order maximum ^^ n) y y'"
    and "reachable order maximum (started maximum spawns panics) y"
  shows "n + work y' \<le> work y \<and> reachable order maximum (started maximum spawns panics) y'"
  using assms(2)
proof (induction n arbitrary: y')
  case 0
  with assms(3) show ?case by simp
next
  case (Suc n)
  then obtain x where x: "(progress order maximum ^^ n) y x" "progress order maximum x y'" by auto
  note ih = Suc.IH [OF x(1)]
  then have "work y' < work x"
    using progress_work [OF assms(1) _ x(2)] reachable_inv [OF assms(1)] by blast
  with ih progress_step [OF x(2)] show ?case by (auto intro: reachable.further)
qed

text \<open>What can be done is done: as long as an event or a job is there, a step is possible.\<close>

lemma progress_possible:
  assumes "hash_order order" and inv: "system_inv maximum y"
    and "channel y \<noteq> [] \<or> running y \<noteq> [] \<or> upkeep y \<noteq> []"
  shows "\<exists>y'. progress order maximum y y'"
proof -
  have c: "connected y" using inv assms(3) by (auto simp: system_inv_def halted_def split: if_splits)
  consider "channel y \<noteq> []" | x xs where "running y = x # xs" | x xs where "upkeep y = x # xs"
    using assms(3) by (metis neq_Nil_conv)
  then show ?thesis
  proof cases
    case 1
    then have "\<exists>y'. receive order maximum y = Some y'"
      by (auto simp: receive_def Let_def split: list.split option.split)
    with c show ?thesis by (blast intro: progress.coordinator)
  next
    case (2 x xs)
    obtain k operation where "x = (k, operation)" by fastforce
    with 2 progress.job_ends [of y "[]" k operation xs None] show ?thesis by (auto simp: outcome_ok_def)
  next
    case (3 x xs)
    obtain age r where "x = (age, r)" by fastforce
    with 3 progress.upkeep_ends [of y "[]" age r xs None] show ?thesis by auto
  qed
qed

text \<open>C27. Without new calls the store comes to rest: a run in which only the coordinator and the jobs take
  steps has at most \<open>work y\<close> of them, and where no such step is possible any more the channel is
  empty, no job is running, no barrier waits and no operation waits.\<close>

theorem store_comes_to_rest:
  assumes "hash_order order" and "reachable order maximum (started maximum spawns panics) y"
    and "0 < maximum" and "(progress order maximum ^^ n) y y'"
  shows "n \<le> work y \<and> ((\<exists>y''. progress order maximum y' y'')
    \<or> channel y' = [] \<and> running y' = [] \<and> upkeep y' = [] \<and> pending (core y') = []
       \<and> (\<forall>k. backlog k (core y') = []))"
proof -
  note run = progress_run [OF assms(1,4,2)]
  then have inv: "system_inv maximum y'" using reachable_inv [OF assms(1)] by blast
  show ?thesis
  proof (cases "channel y' = [] \<and> running y' = [] \<and> upkeep y' = []")
    case True
    with run waiting(2) [OF assms(1) _ assms(3)] show ?thesis by auto
  next
    case False
    with run progress_possible [OF assms(1) inv] show ?thesis by auto
  qed
qed

lemma store_comes_to_rest_witness:
  "work (the (run barrier_moves)) = 5 \<and> 1 \<le> work (the (run barrier_moves))"
proof -
  let ?y = "the (run barrier_moves)"
  let ?y' = "the (receive rotating_order 2 ?y)"
  have w: "work ?y = 5" by code_simp
  have "connected ?y" "receive rotating_order 2 ?y \<noteq> None" by code_simp+
  then have "progress rotating_order 2 ?y ?y'" by (auto intro: progress.coordinator)
  then have "(progress rotating_order 2 ^^ 1) ?y ?y'" by (simp add: relcompp_apply)
  from store_comes_to_rest [OF rotating.hash_order_axioms run_the [OF runs(2)] _ this] w show ?thesis by simp
qed

end
