(* ===== verification/Barrier.thy ===== *)
theory Barrier
  imports SystemProps
begin

text \<open>
  Flush as a barrier. A run is followed from the call that sends the flush to the step that answers it:
  until then the flush is in the channel or in the line of pending events, and in front of it are exactly
  the operations sent before it that the coordinator has not dispatched yet.
\<close>

section \<open>The step that answers\<close>

lemma flush_answer:
  assumes "hash_order order" and "reachable order maximum (started maximum spawns panics) y"
    and h: "connected y" "channel y = event # rest" "handle_event order maximum event (core y) = Some c"
    and o: "out c = out (core y) @ before @ Replied r (UnitReply (Ok ())) # after"
  shows "running y = []" "started_keys before = []"
    "\<exists>front behind. pending (core y) @ joins event = front @ PendingFlush r # behind
       \<and> (\<forall>k. of_key k (sent y) = ops_of k (out (core y) @ before) @ concat (map (pending_op k) behind)
              @ of_key k (view refused_closed (out (core y))) @ of_key k (view submitted rest))"
    "map reply_of (of_key k (view started_job (out (core y) @ before))) = map fst (of_key k (ended y))"
proof -
  have inv: "system_inv maximum y" by (rule reachable_inv [OF assms(1,2)])
  then have i: "scheduler_inv maximum (core y)" and core: "system_core y" and hist: "system_history y"
    using h(1) by (simp_all add: system_inv_def live_def)
  from hash_order.handle_event_step [OF assms(1) i h(3)] obtain acts where
    a: "accounted maximum event (core y) acts c" by blast
  then have ac: "acts = before @ Replied r (UnitReply (Ok ())) # after"
    using o by (auto simp: accounted_def)
  from a have fl: "answers_flushes (\<lambda>k. backlog k (core y) @ accepted k event (core y)) (still_active event (core y))
         (pending (core y) @ joins event) acts"
    unfolding accounted_def by blast
  from fl [unfolded answers_flushes_def, rule_format, OF ac] obtain front behind where
    f: "still_active event (core y) = []" "started_keys before = []"
      "pending (core y) @ joins event = front @ PendingFlush r # behind"
      "\<And>k. backlog k (core y) @ accepted k event (core y)
         = ops_of k before @ concat (map (pending_op k) behind)" by blast
  show "started_keys before = []" by (rule f(2))
  show run: "running y = []"
  proof (cases event)
    case (Completion k outcome)
    have m: "mset (active (core y)) = mset (map fst (running y)) + add_mset k (mset (view completed_key rest))"
      using core h(2) Completion by (simp add: system_core_def)
    have "set (active (core y)) \<subseteq> {k}" "distinct (active (core y))"
      using f(1) Completion i by (auto simp: removeAll_filter_not_eq filter_empty_conv scheduler_inv_def wf_sched_def)
    then have "length (active (core y)) \<le> 1"
      by (metis card_mono card.empty card_insert_disjoint distinct_card empty_iff finite.emptyI finite_insert One_nat_def)
    moreover have "length (active (core y)) = length (running y) + 1 + length (view completed_key rest)"
      using arg_cong [OF m, of size] by simp
    ultimately show ?thesis by simp
  qed (use f(1) core h(2) in \<open>auto simp: system_core_def\<close>)
  show "map reply_of (of_key k (view started_job (out (core y) @ before))) = map fst (of_key k (ended y))"
    using hist f(2) run by (simp add: system_history_def view_started_keys [symmetric])
  have "of_key k (sent y) = ops_of k (out (core y) @ before) @ concat (map (pending_op k) behind)
              @ of_key k (view refused_closed (out (core y))) @ of_key k (view submitted rest)" for k
  proof -
    have no: "lifecycle (core y) = Open \<Longrightarrow> of_key k (view refused_closed (out (core y))) = []"
      using core by (simp add: system_core_def)
    have "of_key k (sent y) = ops_of k (out (core y)) @ backlog k (core y)
      @ of_key k (view refused_closed (out (core y))) @ of_key k (submitted event) @ of_key k (view submitted rest)"
      using hist h(2) by (simp add: system_history_def)
    moreover have "accepted k event (core y) @ of_key k (view refused_closed (out (core y)))
      = of_key k (view refused_closed (out (core y))) @ of_key k (submitted event)"
    proof (cases event)
      case (Submission k' operation)
      then have "lifecycle (core y) = Open"
      proof (intro ccontr [of "lifecycle (core y) = Open"])
        assume "lifecycle (core y) \<noteq> Open"
        with Submission h(3) o show False by (auto simp: handle_event_def Cons_eq_append_conv)
      qed
      with no Submission show ?thesis by simp
    qed simp_all
    ultimately show ?thesis using f(4) [of k] by simp (metis append.assoc)
  qed
  with f(3) show "\<exists>front behind. pending (core y) @ joins event = front @ PendingFlush r # behind
       \<and> (\<forall>k. of_key k (sent y) = ops_of k (out (core y) @ before) @ concat (map (pending_op k) behind)
              @ of_key k (view refused_closed (out (core y))) @ of_key k (view submitted rest))" by blast
qed

section \<open>The line\<close>

text \<open>What an event does to the line: it may join at the end, and the line moves on at the front. A flush joins
  only an open store, and an accepted operation joins when anything waits.\<close>

definition line_step :: "coordinator_event \<Rightarrow> sched \<Rightarrow> pending_event list \<Rightarrow> sched \<Rightarrow> bool" where
  "line_step event s added c \<longleftrightarrow> (\<exists>taken. pending s @ added = taken @ pending c) \<and> (added = [] \<or> added = joins event)
     \<and> ((\<exists>r. event = Flush r) \<longrightarrow> lifecycle s \<noteq> Open \<longrightarrow> added = [])
     \<and> (pending s \<noteq> [] \<longrightarrow> (\<forall>k. concat (map (pending_op k) added) = accepted k event s))"

lemma advance_line:
  assumes "wp_sender (pool s1)" "pending s1 = pending s @ added"
  shows "\<exists>taken. pending s @ added = taken @ pending (advance_pending_if_ready maximum s1)"
  using advance_pending_advanced [OF assms(1), of maximum] assms(2) by (auto simp: advanced_def)

context hash_order
begin

lemma handle_event_line:
  assumes inv: "scheduler_inv maximum s" and h: "handle_event order maximum event s = Some c"
  shows "\<exists>added. line_step event s added c"
proof -
  have p: "wp_sender (pool s)" using inv by (simp add: scheduler_inv_def wf_sched_def)
  show ?thesis
  proof (cases event)
    case (Submission k operation)
    show ?thesis
    proof (cases "lifecycle s = Open \<and> (maintenance_active s \<or> pending s \<noteq> [])")
      case True
      with h Submission have "c = s\<lparr>pending := pending s @ [PendingSubmission k operation]\<rparr>"
        by (simp add: handle_event_def)
      with True Submission show ?thesis
        by (intro exI [of _ "[PendingSubmission k operation]"]) (simp add: line_step_def)
    next
      case False
      let ?s1 = "s\<lparr>queues := push_queue k operation (queues s)\<rparr>"
      have "pending (dispatch_available order maximum (dispatch_if_idle maximum k ?s1)) = pending s"
        using dispatch_available_moves [OF dispatch_if_idle_sender [of ?s1 maximum k], of maximum order] p by auto
      with False h Submission have "pending c = pending s" by (auto simp: handle_event_def split: if_splits)
      with False Submission show ?thesis by (intro exI [of _ "[]"]) (auto simp: line_step_def)
    qed
  next
    case (Completion k outcome)
    let ?s1 = "s\<lparr>active := removeAll k (active s)\<rparr>"
    let ?s3 = "dispatch_available order maximum (dispatch_if_idle maximum k ?s1)"
    have wf1: "wf_sched maximum ?s1"
      using inv by (auto simp: scheduler_inv_def wf_sched_def distinct_removeAll intro: order.trans [OF length_removeAll_less_eq])
    from dispatch_both [OF hash_order_axioms wf1, of k] obtain acts where
      a: "moves maximum ?s1 acts ?s3" "pending ?s3 = pending s" by auto
    obtain s5 where s5: "c = advance_pending_if_ready maximum s5" "pending s5 = pending ?s3" "pool s5 = pool ?s3"
      using h Completion by (auto simp: handle_event_def Let_def split: option.splits prod.splits if_splits)
    have "wp_sender (pool ?s3)" using a(1) wf1 by (simp add: moves_def wf_sched_def)
    from advance_line [of s5 s "[]" maximum] this s5 a(2) Completion show ?thesis
      by (intro exI [of _ "[]"]) (simp add: line_step_def)
  next
    case (Maintenance age r)
    show ?thesis
    proof (cases "lifecycle s = Open")
      case True
      let ?s1 = "s\<lparr>pending := pending s @ [PendingMaintenance age r]\<rparr>"
      from advance_line [of ?s1 s "[PendingMaintenance age r]" maximum] p True h Maintenance show ?thesis
        by (intro exI [of _ "[PendingMaintenance age r]"]) (simp add: line_step_def handle_event_def)
    next
      case False
      with h Maintenance show ?thesis by (intro exI [of _ "[]"]) (auto simp: line_step_def handle_event_def)
    qed
  next
    case (MaintenanceCompletion outcome)
    obtain s1 where s1: "c = advance_pending_if_ready maximum s1" "pending s1 = pending s" "pool s1 = pool s"
      using h MaintenanceCompletion by (auto simp: handle_event_def Let_def split: option.splits)
    from advance_line [of s1 s "[]" maximum] p s1 MaintenanceCompletion show ?thesis
      by (intro exI [of _ "[]"]) (simp add: line_step_def)
  next
    case (Flush r)
    show ?thesis
    proof (cases "lifecycle s = Open")
      case True
      let ?s1 = "s\<lparr>pending := pending s @ [PendingFlush r]\<rparr>"
      from advance_line [of ?s1 s "[PendingFlush r]" maximum] p True h Flush show ?thesis
        by (intro exI [of _ "[PendingFlush r]"]) (simp add: line_step_def handle_event_def)
    next
      case False
      with h Flush show ?thesis by (intro exI [of _ "[]"]) (auto simp: line_step_def handle_event_def)
    qed
  next
    case (Close r)
    obtain s1 added where s1: "c = advance_pending_if_ready maximum s1" "pending s1 = pending s @ added"
      "pool s1 = pool s" "added = [] \<or> added = [PendingClose r]"
      using h Close by (auto simp: handle_event_def split: lifecycle.splits)
    from advance_line [of s1 s added maximum] p s1 Close show ?thesis
      by (intro exI [of _ added]) (auto simp: line_step_def)
  qed
qed

end

section \<open>A flush on its way\<close>

text \<open>The events of the channel and of the line that are this flush.\<close>

definition flush_tokens :: "reply \<Rightarrow> system \<Rightarrow> nat" where
  "flush_tokens r y = count_list (channel y) (Flush r) + count_list (pending (core y)) (PendingFlush r)"

text \<open>The runs from the state \<open>y\<close> in which the flush is sent. The name of its reply channel is used for no other
  flush: each call makes a channel of its own.\<close>

inductive after_flush :: "iteration_order \<Rightarrow> nat \<Rightarrow> reply \<Rightarrow> system \<Rightarrow> system \<Rightarrow> bool"
  for order :: iteration_order and maximum :: nat and r :: reply and y :: system where
  flush_called: "handles y \<Longrightarrow> call_events seen (connected y) (lifecycle (core y)) (FlushStore r) = [Flush r] \<Longrightarrow>
    flush_tokens r y = 0 \<Longrightarrow> after_flush order maximum r y (y\<lparr>channel := channel y @ [Flush r]\<rparr>)"
| flush_waits: "after_flush order maximum r y y' \<Longrightarrow> sys_step order maximum y' y'' \<Longrightarrow>
    flush_tokens r y'' \<le> flush_tokens r y' \<Longrightarrow> after_flush order maximum r y y''"

lemma after_flush_reachable:
  "after_flush order maximum r y y' \<Longrightarrow> reachable order maximum start y \<Longrightarrow> reachable order maximum start y'"
proof (induction rule: after_flush.induct)
  case (flush_called seen)
  from sys_step.call [OF flush_called(1) refl, of order maximum seen "FlushStore r"] flush_called(2,4)
  show ?case by (auto intro: reachable.further)
qed (auto intro: reachable.further)

text \<open>Where it is, and that the operations \<open>S\<close> were sent before it.\<close>

definition in_channel :: "reply \<Rightarrow> (key \<times> operation) list \<Rightarrow> system \<Rightarrow> bool" where
  "in_channel r S y \<longleftrightarrow> (\<exists>front behind. channel y = front @ Flush r # behind
     \<and> (\<forall>k. of_key k S = ops_of k (out (core y)) @ backlog k (core y)
          @ of_key k (view refused_closed (out (core y))) @ of_key k (view submitted front)))"

definition in_line :: "reply \<Rightarrow> (key \<times> operation) list \<Rightarrow> system \<Rightarrow> bool" where
  "in_line r S y \<longleftrightarrow> (\<exists>front behind. pending (core y) = front @ PendingFlush r # behind
     \<and> (\<forall>k. of_key k S = ops_of k (out (core y)) @ queue_of (queues (core y)) k @ concat (map (pending_op k) front)))"

definition flush_inv :: "reply \<Rightarrow> (key \<times> operation) list \<Rightarrow> system \<Rightarrow> bool" where
  "flush_inv r S y \<longleftrightarrow> flush_tokens r y \<le> 1 \<and> (flush_tokens r y = 0 \<or> in_channel r S y \<or> in_line r S y)"

text \<open>Steps that only add to the channel.\<close>

lemma flush_inv_snoc:
  assumes "flush_inv r S y" "flush_tokens r y' \<le> flush_tokens r y" "channel y' = channel y @ events"
    and "out (core y') = out (core y)" "queues (core y') = queues (core y)" "pending (core y') = pending (core y)"
  shows "flush_inv r S y'"
proof -
  have b: "backlog k (core y') = backlog k (core y)" for k using assms(5,6) by (simp add: backlog_def)
  have "in_channel r S y'" if c: "in_channel r S y"
  proof -
    from c obtain front behind where "channel y = front @ Flush r # behind"
      "\<forall>k. of_key k S = ops_of k (out (core y)) @ backlog k (core y)
          @ of_key k (view refused_closed (out (core y))) @ of_key k (view submitted front)"
      unfolding in_channel_def by blast
    with assms(3,4) b show ?thesis
      unfolding in_channel_def by (intro exI [of _ front] exI [of _ "behind @ events"]) simp
  qed
  moreover have "in_line r S y \<Longrightarrow> in_line r S y'" using assms(4-6) by (simp add: in_line_def)
  ultimately show ?thesis using assms(1,2) by (auto simp: flush_inv_def)
qed

text \<open>The coordinator handles the event at the head of the channel.\<close>

lemma flush_inv_handled:
  assumes inv: "flush_inv r S y" and core: "system_core y" and ch: "channel y = event # rest"
    and a: "accounted maximum event (core y) acts c" and l: "line_step event (core y) added c"
    and t: "flush_tokens r (handled rest c acts y) \<le> flush_tokens r y"
  shows "flush_inv r S (handled rest c acts y)"
proof -
  let ?s = "core y" and ?y = "handled rest c acts y"
  have self: "Flush r \<notin> set (view self_event acts)" using accounted_self_events [OF a] by auto
  have o: "out c = out ?s @ acts" and b: "\<And>k. backlog k ?s @ accepted k event ?s = ops_of k acts @ backlog k c"
    using a by (simp_all add: accounted_def)
  have open': "lifecycle ?s = Open \<Longrightarrow> view refused_closed (out ?s) = []" using core by (simp add: system_core_def)
  from l obtain taken where tk: "pending ?s @ added = taken @ pending c" and ad: "added = [] \<or> added = joins event"
    by (auto simp: line_step_def)
  have tokens: "flush_tokens r ?y = count_list rest (Flush r) + count_list (pending c) (PendingFlush r)"
    using self by (simp add: flush_tokens_def handled_def)
  have one: "flush_tokens r y \<le> 1" using inv by (simp add: flush_inv_def)
  have line: "in_line r S ?y \<or> flush_tokens r ?y = 0"
    if rest: "Flush r \<notin> set rest" and pos: "pending ?s @ added = front @ PendingFlush r # behind"
      and alone: "PendingFlush r \<notin> set behind"
      and eq: "\<And>k. of_key k S = ops_of k (out ?s) @ queue_of (queues ?s) k @ concat (map (pending_op k) front)"
      and acc: "\<And>k. concat (map (pending_op k) added) = accepted k event ?s"
    for front behind
  proof -
    from tk pos consider us where "front = taken @ us" "pending c = us @ PendingFlush r # behind"
      | us where "taken = front @ PendingFlush r # us" "behind = us @ pending c"
      by (auto simp: append_eq_append_conv2 Cons_eq_append_conv append_eq_Cons_conv)
    then show ?thesis
    proof cases
      case 1
      have "queue_of (queues ?s) k @ concat (map (pending_op k) front) @ concat (map (pending_op k) behind)
          = ops_of k acts @ queue_of (queues c) k @ concat (map (pending_op k) us) @ concat (map (pending_op k) behind)" for k
      proof -
        have "concat (map (pending_op k) (pending ?s)) @ accepted k event ?s
            = concat (map (pending_op k) front) @ concat (map (pending_op k) behind)"
          using arg_cong [OF pos, of "\<lambda>ps. concat (map (pending_op k) ps)"] acc by simp
        with b [of k] 1(2) show ?thesis by (simp add: backlog_def)
      qed
      then have "queue_of (queues ?s) k @ concat (map (pending_op k) front)
          = ops_of k acts @ queue_of (queues c) k @ concat (map (pending_op k) us)" for k
        by (metis append.assoc append_same_eq)
      with eq 1(2) o have "in_line r S ?y"
        unfolding in_line_def by (intro exI [of _ us] exI [of _ behind]) (simp add: handled_def)
      then show ?thesis ..
    next
      case 2
      with rest alone tokens show ?thesis by simp
    qed
  qed
  have "flush_tokens r ?y = 0 \<or> in_channel r S ?y \<or> in_line r S ?y"
  proof (cases "flush_tokens r y = 0")
    case True
    with t show ?thesis by simp
  next
    case False
    with inv consider "in_channel r S y" | "in_line r S y" by (auto simp: flush_inv_def)
    then show ?thesis
    proof cases
      case 1
      then obtain front behind where f: "event # rest = front @ Flush r # behind"
        and eq: "\<And>k. of_key k S = ops_of k (out ?s) @ backlog k ?s
          @ of_key k (view refused_closed (out ?s)) @ of_key k (view submitted front)"
        unfolding in_channel_def ch by blast
      have no: "PendingFlush r \<notin> set (pending ?s)" "Flush r \<notin> set front" "Flush r \<notin> set behind"
        using one by (auto simp: flush_tokens_def ch f count_list_0_iff)
      show ?thesis
      proof (cases front)
        case Nil
        with f have e: "event = Flush r" "rest = behind" by simp_all
        show ?thesis
        proof (cases "added = [PendingFlush r]")
          case True
          with e l have "lifecycle ?s = Open" by (auto simp: line_step_def)
          with eq Nil open' have "\<And>k. of_key k S
              = ops_of k (out ?s) @ queue_of (queues ?s) k @ concat (map (pending_op k) (pending ?s))"
            by (simp add: backlog_def)
          from line [OF _ _ _ this, of "[]"] True no(3) e show ?thesis by auto
        next
          case False
          with ad e tk have "set (pending c) \<subseteq> set (pending ?s)" by auto
          with no(1) have "count_list (pending c) (PendingFlush r) = 0" by (auto simp: count_list_0_iff)
          with no(3) e tokens show ?thesis by simp
        qed
      next
        case (Cons x front')
        with f have e: "x = event" "rest = front' @ Flush r # behind" by simp_all
        note views = accounted_views [OF a]
        have "of_key k S = ops_of k (out c) @ backlog k c @ of_key k (view refused_closed (out c))
            @ of_key k (view submitted front')" for k
        proof -
          have "accepted k event ?s @ of_key k (view refused_closed (out ?s)) @ of_key k (view refused_closed acts)
              = of_key k (view refused_closed (out ?s)) @ of_key k (submitted event)"
            unfolding views(1) using open' by (cases event) auto
          with eq [of k] b [of k] Cons e(1) show ?thesis by (simp add: o) (metis append.assoc)
        qed
        with e(2) have "in_channel r S ?y"
          unfolding in_channel_def
          by (intro exI [of _ front'] exI [of _ "behind @ view self_event acts"]) (simp add: handled_def)
        then show ?thesis by simp
      qed
    next
      case 2
      then obtain front behind where f: "pending ?s = front @ PendingFlush r # behind"
        and eq: "\<And>k. of_key k S = ops_of k (out ?s) @ queue_of (queues ?s) k @ concat (map (pending_op k) front)"
        unfolding in_line_def by blast
      have no: "PendingFlush r \<notin> set behind" "Flush r \<notin> set rest" "event \<noteq> Flush r"
        using one f by (auto simp: flush_tokens_def ch count_list_0_iff split: if_splits)
      then have "PendingFlush r \<notin> set (behind @ added)" using ad by (cases event) auto
      moreover have "concat (map (pending_op k) added) = accepted k event ?s" for k
        using l f by (simp add: line_step_def)
      ultimately show ?thesis using line [OF no(2) _ _ eq, of "behind @ added"] f by auto
    qed
  qed
  with t one show ?thesis by (simp add: flush_inv_def)
qed

context hash_order
begin

lemma flush_inv_receive:
  assumes inv: "flush_inv r S y" and sys: "system_inv maximum y" and c: "connected y" and rc: "receive order maximum y = Some y'"
    and t: "flush_tokens r y' \<le> flush_tokens r y"
  shows "flush_inv r S y'"
proof (cases "connected y'")
  case False
  with receive_inv [OF sys c rc] have "halted y'" by (simp add: system_inv_def)
  then have "flush_tokens r y' = 0" by (simp add: flush_tokens_def halted_def)
  then show ?thesis by (simp add: flush_inv_def)
next
  case True
  obtain event rest where ch: "channel y = event # rest" using rc by (auto simp: receive_def split: list.splits)
  have i: "scheduler_inv maximum (core y)" "system_core y" using sys c by (simp_all add: system_inv_def live_def)
  obtain c' where h: "handle_event order maximum event (core y) = Some c'"
    using True rc ch by (auto simp: receive_def split: option.splits)
  obtain acts where a: "accounted maximum event (core y) acts c'" using handle_event_step [OF i(1) h] by blast
  obtain added where l: "line_step event (core y) added c'" using handle_event_line [OF i(1) h] by blast
  have "y' = handled rest c' acts y"
    using True rc ch h a by (auto simp: receive_def handled_def Let_def accounted_def split: if_splits)
  with flush_inv_handled [OF inv i(2) ch a l] t show ?thesis by simp
qed

end

lemma after_flush_inv:
  assumes "hash_order order" "reachable order maximum (started maximum spawns panics) y" "after_flush order maximum r y y'"
  shows "flush_inv r (sent y) y'"
  using assms(3)
proof (induction rule: after_flush.induct)
  case (flush_called seen)
  have "in_channel r (sent y) (y\<lparr>channel := channel y @ [Flush r]\<rparr>)"
    unfolding in_channel_def
    using operation_order(1) [OF assms(1,2)] by (intro exI [of _ "channel y"] exI [of _ "[]"]) simp
  with flush_called.hyps(3) show ?case by (simp add: flush_inv_def flush_tokens_def)
next
  case (flush_waits y' y'')
  note sys = reachable_inv [OF assms(1) after_flush_reachable [OF flush_waits.hyps(1) assms(2)]]
  note snoc = flush_inv_snoc [OF flush_waits.IH flush_waits.hyps(3)]
  from flush_waits.hyps(2) show ?case
  proof cases
    case (call events seen c)
    then show ?thesis by (intro snoc) simp_all
  next
    case coordinator
    from hash_order.flush_inv_receive [OF assms(1) flush_waits.IH sys coordinator flush_waits.hyps(3)] show ?thesis .
  next
    case (job_ends us k operation vs outcome)
    then show ?thesis by (intro snoc) simp_all
  next
    case (upkeep_ends us age q vs outcome result)
    then show ?thesis by (intro snoc) simp_all
  next
    case drop_handles
    then show ?thesis by (intro snoc [where events = "[]"]) simp_all
  next
    case (disconnect result p)
    then show ?thesis by (intro snoc [where events = "[]"]) simp_all
  qed
qed

section \<open>The barrier\<close>

lemma barrier_dispatched:
  assumes "hash_order order" "reachable order maximum (started maximum spawns panics) y" "after_flush order maximum r y y'"
    and h: "connected y'" "channel y' = event # rest" "handle_event order maximum event (core y') = Some c"
    and o: "out c = out (core y') @ before @ Replied r (UnitReply (Ok ())) # after"
  shows "of_key k (sent y) = ops_of k (out (core y') @ before)"
proof -
  note reach = after_flush_reachable [OF assms(3,2)]
  have inv: "system_inv maximum y'" by (rule reachable_inv [OF assms(1) reach])
  then have i: "scheduler_inv maximum (core y')" and core: "system_core y'"
    using h(1) by (simp_all add: system_inv_def live_def)
  obtain acts where a: "accounted maximum event (core y') acts c"
    using hash_order.handle_event_step [OF assms(1) i h(3)] by blast
  then have ac: "acts = before @ Replied r (UnitReply (Ok ())) # after" using o by (auto simp: accounted_def)
  from a have fl: "answers_flushes (\<lambda>k. backlog k (core y') @ accepted k event (core y')) (still_active event (core y'))
         (pending (core y') @ joins event) acts"
    unfolding accounted_def by blast
  from fl [unfolded answers_flushes_def, rule_format, OF ac] obtain front post where
    f: "pending (core y') @ joins event = front @ PendingFlush r # post"
      "backlog k (core y') @ accepted k event (core y') = ops_of k before @ concat (map (pending_op k) post)" by blast
  have fi: "flush_inv r (sent y) y'" by (rule after_flush_inv [OF assms(1-3)])
  have waits: "PendingFlush r \<in> set (pending (core y')) \<or> event = Flush r"
  proof -
    have "PendingFlush r \<in> set (pending (core y') @ joins event)" using f(1) by simp
    then show ?thesis by (cases event) auto
  qed
  then have one: "flush_tokens r y' = 1" using fi h(2) count_list_0_iff [of "pending (core y')" "PendingFlush r"]
    by (auto simp: flush_inv_def flush_tokens_def)
  then consider "in_channel r (sent y) y'" | "in_line r (sent y) y'" using fi by (auto simp: flush_inv_def)
  then show ?thesis
  proof cases
    case 1
    then obtain us vs where c: "event # rest = us @ Flush r # vs"
      and eq: "of_key k (sent y) = ops_of k (out (core y')) @ backlog k (core y')
          @ of_key k (view refused_closed (out (core y'))) @ of_key k (view submitted us)"
      unfolding in_channel_def h(2) by blast
    have "PendingFlush r \<notin> set (pending (core y'))" "Flush r \<notin> set us"
      using one by (auto simp: flush_tokens_def h(2) c count_list_0_iff)
    with waits c have e: "event = Flush r" "us = []" by (auto simp: Cons_eq_append_conv)
    have "lifecycle (core y') = Open"
    proof (rule ccontr)
      assume "lifecycle (core y') \<noteq> Open"
      with e h(3) o show False by (auto simp: handle_event_def Cons_eq_append_conv)
    qed
    with core have "view refused_closed (out (core y')) = []" by (simp add: system_core_def)
    moreover have "post = []"
      using f(1) e(1) \<open>PendingFlush r \<notin> set (pending (core y'))\<close>
      by (cases post rule: rev_cases) (auto simp: append_eq_append_conv2)
    ultimately show ?thesis using eq f(2) e by simp
  next
    case 2
    then obtain us vs where p: "pending (core y') = us @ PendingFlush r # vs"
      and eq: "of_key k (sent y) = ops_of k (out (core y')) @ queue_of (queues (core y')) k @ concat (map (pending_op k) us)"
      unfolding in_line_def by blast
    have alone: "PendingFlush r \<notin> set us" "PendingFlush r \<notin> set (vs @ joins event)"
      using one h(2) p by (cases event; auto simp: flush_tokens_def count_list_0_iff)+
    have post: "post = vs @ joins event"
      using f(1) p alone by (simp add: append_Cons_eq_iff)
    have "concat (map (pending_op k) (joins event)) = accepted k event (core y')"
    proof (cases event)
      case (Submission k' operation)
      have "lifecycle (core y') = Open"
      proof (rule ccontr)
        assume "lifecycle (core y') \<noteq> Open"
        with Submission h(3) o show False by (auto simp: handle_event_def Cons_eq_append_conv)
      qed
      with Submission show ?thesis by simp
    qed simp_all
    with eq f(2) p post show ?thesis by (simp add: backlog_def)
  qed
qed

text \<open>C10. A flush is a barrier for what was sent before it. From the call that sends the flush, whatever
  the clients, the coordinator and the workers do until the coordinator answers it with success: at the
  answer no job is running; the operations dispatched for each key are exactly those that had been sent
  when the flush was called, in that order, so that all of these were dispatched before the answer and
  none that was sent behind the flush was; and every job given to a worker has ended.\<close>

theorem flush_is_a_barrier:
  assumes "hash_order order" and "reachable order maximum (started maximum spawns panics) y"
    and "after_flush order maximum r y y'"
    and "connected y'" "channel y' = event # rest" "handle_event order maximum event (core y') = Some c"
    and "out c = out (core y') @ before @ Replied r (UnitReply (Ok ())) # after"
  shows "running y' = [] \<and> started_keys before = []
    \<and> (\<forall>k. ops_of k (out (core y') @ before) = of_key k (sent y))
    \<and> (\<forall>k. map reply_of (of_key k (view started_job (out (core y') @ before))) = map fst (of_key k (ended y')))"
  using flush_answer(1,2,4) [OF assms(1) after_flush_reachable [OF assms(3,2)] assms(4-7)]
    barrier_dispatched [OF assms] by simp

text \<open>The run with a busy key: the flush is called when two operations were sent, a third one is sent behind it.\<close>

fun follow :: "reply \<Rightarrow> move list \<Rightarrow> system \<Rightarrow> system option" where
  "follow r [] y = Some y"
| "follow r (m # ms) y =
     (case drive rotating_order 2 [m] y of
        None \<Rightarrow> None
      | Some y' \<Rightarrow> if flush_tokens r y' \<le> flush_tokens r y then follow r ms y' else None)"

lemma drive_single: "drive order maximum [m] y = Some y' \<Longrightarrow> sys_step order maximum y y'"
proof (cases m)
  case (Call c)
  then show "drive order maximum [m] y = Some y' \<Longrightarrow> ?thesis"
    by (auto simp: Let_def split: if_splits intro: sys_step.call)
next
  case Handle
  then show "drive order maximum [m] y = Some y' \<Longrightarrow> ?thesis"
    by (auto split: if_splits option.splits intro: sys_step.coordinator)
next
  case (EndJob outcome)
  assume d: "drive order maximum [m] y = Some y'"
  then obtain k operation vs where r: "running y = [] @ (k, operation) # vs" and o: "outcome_ok operation outcome"
    using EndJob by (auto split: list.splits prod.splits if_splits)
  from sys_step.job_ends [OF r o] d EndJob r o show ?thesis by simp
next
  case (EndUpkeep outcome)
  assume d: "drive order maximum [m] y = Some y'"
  then obtain age r vs where r: "upkeep y = [] @ (age, r) # vs" and o: "case outcome of None \<Rightarrow> True | Some (r', _) \<Rightarrow> r' = r"
    using EndUpkeep by (auto split: list.splits prod.splits if_splits)
  obtain result where "outcome = None \<or> outcome = Some (r, result)" using o by (cases outcome) auto
  from sys_step.upkeep_ends [OF r this] d EndUpkeep r o show ?thesis by simp
qed

lemma follow_after_flush:
  "follow r ms y' = Some y'' \<Longrightarrow> after_flush rotating_order 2 r y y' \<Longrightarrow> after_flush rotating_order 2 r y y''"
proof (induction r ms y' rule: follow.induct)
  case (2 r m ms y')
  then show ?case by (auto split: option.splits if_splits dest: drive_single intro: after_flush.flush_waits)
qed simp

definition two_sent :: "move list" where
  "two_sent = [Call (Operate [] (LoadOp 0)), Handle, Call (Operate [] (ClearOp 1)), Handle]"

definition flush_moves :: "move list" where
  "flush_moves = [Handle, Call (Operate [0] (InspectOp 3)), Handle,
     EndJob (Some (LoadOp 0, LoadResult (Ok None))), Handle, EndJob None]"

lemma flush_is_a_barrier_witness:
  "\<exists>y y' c. after_flush rotating_order 2 2 y y' \<and> handle_event rotating_order 2 (Completion [] None) (core y') = Some c
     \<and> sent y = [([], LoadOp 0), ([], ClearOp 1)] \<and> sent y' = sent y @ [([0], InspectOp 3)]
     \<and> ops_of [] (out (core y')) = [LoadOp 0, ClearOp 1] \<and> ops_of [0] (out (core y')) = []"
proof -
  let ?y = "the (run two_sent)"
  let ?called = "?y\<lparr>channel := channel ?y @ [Flush 2]\<rparr>"
  let ?y' = "the (follow 2 flush_moves ?called)"
  let ?c = "the (handle_event rotating_order 2 (Completion [] None) (core ?y'))"
  have start: "run two_sent \<noteq> None" "handles ?y" "flush_tokens 2 ?y = 0"
    "call_events Open (connected ?y) (lifecycle (core ?y)) (FlushStore 2) = [Flush 2]"
    by code_simp+
  have c: "connected ?y'" "channel ?y' = [Completion [] None]"
    "handle_event rotating_order 2 (Completion [] None) (core ?y') = Some ?c"
    "out ?c = out (core ?y') @ [] @ Replied 2 (UnitReply (Ok ())) # [Started [0] (InspectOp 3)]"
    by code_simp+
  have s: "sent ?y = [([], LoadOp 0), ([], ClearOp 1)]" "sent ?y' = sent ?y @ [([0], InspectOp 3)]"
    by code_simp+
  have "follow 2 flush_moves ?called \<noteq> None" by code_simp
  then have "follow 2 flush_moves ?called = Some ?y'" by auto
  from follow_after_flush [OF this after_flush.flush_called [OF start(2,4,3)]]
  have run: "after_flush rotating_order 2 2 ?y ?y'" .
  from flush_is_a_barrier [OF rotating.hash_order_axioms run_the [OF start(1)] run c] s(1)
  have "ops_of [] (out (core ?y')) = [LoadOp 0, ClearOp 1]" "ops_of [0] (out (core ?y')) = []" by simp_all
  with run c(3) s show ?thesis by blast
qed

end
