(* ===== verification/EngineProps.thy ===== *)
theory EngineProps
  imports SystemProps
begin

text \<open>
  The handle: what a call sends and what the client gets for it, in every state of the lifecycle, the joining
  of the coordinator, opening, and the coordinator's loop and worker pool on their own.
\<close>

section \<open>What a client gets\<close>

text \<open>A call is refused when either look at the lifecycle finds the store not open; otherwise the client
  gets what the reply channel yields, and \<open>EngineFailed\<close> when the channel is dropped. When the
  coordinator is gone the call fails with the error given last.\<close>

definition call_answer ::
  "lifecycle \<Rightarrow> bool \<Rightarrow> lifecycle \<Rightarrow> store_error \<Rightarrow> 'a store_result option \<Rightarrow> 'a store_result" where
  "call_answer seen alive state gone received =
     (case ensure_open seen of
        Err error \<Rightarrow> Err error
      | Ok _ \<Rightarrow>
          (case ensure_open state of
             Err error \<Rightarrow> Err error
           | Ok _ \<Rightarrow> if alive then or_else received (Err EngineFailed) else Err gone))"

definition sends_when_open :: "lifecycle \<Rightarrow> bool \<Rightarrow> lifecycle \<Rightarrow> coordinator_event \<Rightarrow> coordinator_event list" where
  "sends_when_open seen alive state event = (if seen = Open \<and> state = Open \<and> alive then [event] else [])"

lemmas answer_defs = call_answer_def sends_when_open_def wait_def resolved_def pending_new_def submit_def
  submit_operation_def

lemmas answer_splits = sum.split lifecycle.split receiver.split

lemma ensure_open_cases:
  "ensure_open l = Ok u \<longleftrightarrow> l = Open"
  "ensure_open l = Err e \<longleftrightarrow> l \<noteq> Open \<and> e = (if l = Failed then EngineFailed else StoreClosed)"
  by (cases l; auto)+

lemma submit_answer:
  "wait (fst (case ensure_open seen of Err error \<Rightarrow> (resolved (Err error), [])
              | Ok _ \<Rightarrow> submit c st k operation (Replies r))) l received j
     = Some (call_answer seen c st EngineFailed (received r), j)"
  "snd (case ensure_open seen of Err error \<Rightarrow> (resolved (Err error), [])
        | Ok _ \<Rightarrow> submit c st k operation (Replies r))
     = sends_when_open seen c st (Submission k operation)"
  by (cases seen; cases st; simp add: answer_defs or_else_def)+

text \<open>A call of one of the operations sends its operation, under the digest of its key, exactly when the
  store is open at both looks at the lifecycle and the coordinator is there, and nothing otherwise. The
  pending result then yields what the coordinator or a worker replied, \<open>EngineFailed\<close> when the reply was
  dropped (a job that panicked), \<open>StoreClosed\<close> from the moment the store is closing, and
  \<open>EngineFailed\<close> after a failure. Waiting does not touch the join handle.\<close>

theorem operation_calls_answered:
  "wait (fst (engine_load B seen c st key r)) l loaded j = Some (call_answer seen c st EngineFailed (loaded r), j)
   \<and> snd (engine_load B seen c st key r) = sends_when_open seen c st (Submission (key_hash B key) (LoadOp r))
   \<and> wait (fst (engine_save B seen c st key payload r)) l unit j = Some (call_answer seen c st EngineFailed (unit r), j)
   \<and> snd (engine_save B seen c st key payload r)
       = sends_when_open seen c st (Submission (key_hash B key) (SaveOp payload r))
   \<and> wait (fst (engine_clear B seen c st key r)) l unit j = Some (call_answer seen c st EngineFailed (unit r), j)
   \<and> snd (engine_clear B seen c st key r) = sends_when_open seen c st (Submission (key_hash B key) (ClearOp r))
   \<and> wait (fst (engine_inspect B seen c st key r)) l inspected j
       = Some (call_answer seen c st EngineFailed (inspected r), j)
   \<and> snd (engine_inspect B seen c st key r) = sends_when_open seen c st (Submission (key_hash B key) (InspectOp r))
   \<and> wait (fst (engine_quarantine B seen c st key r)) l quarantined j
       = Some (call_answer seen c st EngineFailed (quarantined r), j)
   \<and> snd (engine_quarantine B seen c st key r)
       = sends_when_open seen c st (Submission (key_hash B key) (QuarantineOp r))"
  by (simp only: engine_load_def engine_save_def engine_clear_def engine_inspect_def engine_quarantine_def
      submit_answer simp_thms)

text \<open>Starting a stream reports the refusals at once, a save of more than the maximum among them, and sends
  the operation when there are none; the result of the stream then yields what was replied.\<close>

theorem stream_starts_answered:
  "snd (start_save_stream B cfg seen c st key declared ms r)
     = (if declared \<le> cfg_maximum cfg
        then sends_when_open seen c st (Submission (key_hash B key) (SaveStreamOp declared ms r)) else [])
   \<and> (case fst (start_save_stream B cfg seen c st key declared ms r) of
        Ok p \<Rightarrow> seen = Open \<and> st = Open \<and> c \<and> declared \<le> cfg_maximum cfg
          \<and> wait p l received j = Some (or_else (received r) (Err EngineFailed), j)
      | Err e \<Rightarrow>
          Err e = (if seen = Open \<and> cfg_maximum cfg < declared
                   then Err (BlobTooLarge declared (cfg_maximum cfg))
                   else call_answer seen c st EngineFailed (None :: unit store_result option)))
   \<and> snd (start_load_stream B seen c st key channels r)
       = sends_when_open seen c st (Submission (key_hash B key) (LoadStreamOp (Some channels) r))
   \<and> (case fst (start_load_stream B seen c st key channels r) of
        Ok p \<Rightarrow> seen = Open \<and> st = Open \<and> c
          \<and> wait p l loaded j = Some (or_else (loaded r) (Err EngineFailed), j)
      | Err e \<Rightarrow> Err e = call_answer seen c st EngineFailed (None :: unit store_result option))"
  by (intro conjI; cases seen; cases st;
      simp add: start_save_stream_def start_load_stream_def answer_defs or_else_def linorder_not_le [symmetric])

text \<open>Flush and cleanup follow the same gate, with an error of their own when the coordinator is gone and
  a minimum age of zero refused before anything is sent.\<close>

theorem barrier_calls_answered:
  "wait (fst (engine_flush seen c st r)) l flushed j
     = Some (call_answer seen c st MaintenanceCoordinationFailure (flushed r), j)
   \<and> snd (engine_flush seen c st r) = sends_when_open seen c st (Flush r)
   \<and> wait (fst (cleanup_stale_temporary_files seen c st age r)) l cleaned j
     = Some (if seen = Open \<and> age = 0 then Err InvalidCleanupAge
             else call_answer seen c st MaintenanceCoordinationFailure (cleaned r), j)
   \<and> snd (cleanup_stale_temporary_files seen c st age r)
     = (if age = 0 then [] else sends_when_open seen c st (Maintenance (Some age) r))"
  by (intro conjI; cases seen; cases st;
      simp add: engine_flush_def cleanup_stale_temporary_files_def answer_defs or_else_def)

section \<open>Closing\<close>

lemma finish_new:
  "finish result (coordinator_join_new panicked) = Some (if panicked then Err ShutdownFailure else result,
     \<lparr>join_handle = None, join_result = Some (if panicked then Panicked else Joined)\<rparr>)"
  by (simp add: finish_def coordinator_join_new_def)

lemma finish_again:
  "finish result \<lparr>join_handle = None, join_result = Some (if panicked then Panicked else Joined)\<rparr>
     = Some (if panicked then Err ShutdownFailure else result,
         \<lparr>join_handle = None, join_result = Some (if panicked then Panicked else Joined)\<rparr>)"
  by (simp add: finish_def)

text \<open>The reply to a close request, as the client reads it: the reply itself, or the verdict of the
  lifecycle when the reply channel is gone.\<close>

definition close_answer :: "lifecycle \<Rightarrow> bool \<Rightarrow> lifecycle \<Rightarrow> lifecycle \<Rightarrow> unit store_result option \<Rightarrow> unit store_result" where
  "close_answer seen alive state later received =
     (if seen \<in> {Closed, ShutdownFailed, Failed} then close_verdict seen
      else if state \<in> {Closed, ShutdownFailed, Failed} then close_verdict state
      else if alive then or_else received (close_verdict later) else close_verdict state)"

text \<open>C29. Closing never panics, joins the coordinator at most once, and can be repeated: from the first join
  on every close gives the same verdict, the failure if the coordinator panicked and otherwise the
  answer to the request. A store that is closed already sends nothing and still answers.\<close>

theorem close_can_be_repeated:
  assumes "j = coordinator_join_new panicked
    \<or> j = \<lparr>join_handle = None, join_result = Some (if panicked then Panicked else Joined)\<rparr>"
    and "alive \<or> seen \<in> {Closed, ShutdownFailed, Failed} \<or> state \<in> {Closed, ShutdownFailed, Failed}"
  shows "wait (fst (engine_close seen alive state r)) later received j
      = Some (if panicked then Err ShutdownFailure else close_answer seen alive state later (received r),
          \<lparr>join_handle = None, join_result = Some (if panicked then Panicked else Joined)\<rparr>)
    \<and> snd (engine_close seen alive state r)
      = (if alive \<and> seen \<in> {Open, Closing} \<and> state \<in> {Open, Closing} then [Close r] else [])"
proof -
  have f: "finish result j = Some (if panicked then Err ShutdownFailure else result,
      \<lparr>join_handle = None, join_result = Some (if panicked then Panicked else Joined)\<rparr>)" for result
    using assms(1) finish_new finish_again by metis
  show ?thesis
    using assms(2)
    by (cases seen; cases state)
       (simp_all add: engine_close_def closed_pending_def with_after_def with_disconnected_def wait_def
          resolved_def pending_new_def close_answer_def or_else_def f)
qed

lemma close_can_be_repeated_witness:
  "wait (fst (engine_close Open True Closing 3)) Closed (\<lambda>_. None) (coordinator_join_new False)
     = Some (Ok (), \<lparr>join_handle = None, join_result = Some Joined\<rparr>)"
  using close_can_be_repeated [of "coordinator_join_new False" False True Open Closing 3 Closed "\<lambda>_. None"]
  by (simp add: close_answer_def or_else_def)

section \<open>Opening\<close>

text \<open>A store that opened: its configuration is the one asked for, and at most the namespace directory is new.\<close>

lemma engine_open_Ok:
  assumes "wf_format (opt_format options)" "0 < opt_max_concurrent_operations options"
    and "engine_open spawned spawns panics root namespace options s = (Ok (cfg, c), s')"
  obtains component absolute where "validate_namespace namespace = Ok component" "resolved_root root s absolute"
    "is_directory absolute s"
    "initialized absolute component (opt_format options) (opt_max_blob_size options)
       (opt_max_concurrent_operations options) cfg"
    "is_directory (cfg_namespace cfg) s \<or> entry s' (cfg_namespace cfg) = Some DirNode"
    "wf_config cfg" "c = started (cfg_max_concurrent_operations cfg) spawns panics"
    "\<And>q. q \<noteq> cfg_namespace cfg \<Longrightarrow> entry s' q = entry s q"
proof -
  from assms(3) obtain component where v: "validate_namespace namespace = Ok component"
    and m: "validate_maximum (opt_max_blob_size options) = Ok ()"
    and i: "initialize_platform root component (opt_format options) (opt_max_blob_size options)
        (opt_max_concurrent_operations options) s = (Ok cfg, s')"
    and c: "from_config spawned spawns panics cfg = Ok (cfg, c)"
    by (auto simp: engine_open_def from_config_def io_err_def split: sum.splits prod.splits option.splits)
  from i have "\<exists>absolute. resolved_root root s absolute \<and> is_directory absolute s
      \<and> initialized absolute component (opt_format options) (opt_max_blob_size options)
          (opt_max_concurrent_operations options) cfg
      \<and> (is_directory (cfg_namespace cfg) s \<or> entry s' (cfg_namespace cfg) = Some DirNode)
      \<and> (\<forall>q. q \<noteq> cfg_namespace cfg \<longrightarrow> entry s' q = entry s q)"
  proof (cases rule: initialize_cases)
    case (existing absolute cfg')
    then show ?thesis using quiet_same_entries by (metis Inr_inject)
  next
    case (created absolute cfg' s1 s2)
    have "entry s1 q = (if q = cfg_namespace cfg' then Some DirNode else entry s q)" for q
      using installs_entry [OF created(5), of q] by simp
    moreover have "entry s' = entry s1" by (rule quiet_same_entries [OF sync_directory_quiet [OF created(7)]])
    ultimately show ?thesis using created by (auto simp: map_ok_eq_Ok)
  qed simp
  then obtain absolute where a: "resolved_root root s absolute" "is_directory absolute s"
    and ini: "initialized absolute component (opt_format options) (opt_max_blob_size options)
          (opt_max_concurrent_operations options) cfg"
    and d: "is_directory (cfg_namespace cfg) s \<or> entry s' (cfg_namespace cfg) = Some DirNode"
    and e: "\<And>q. q \<noteq> cfg_namespace cfg \<Longrightarrow> entry s' q = entry s q" by blast
  have "wf_config cfg"
    using assms(1,2) m ini validate_maximum_Ok by (auto simp: wf_config_def initialized_def)
  moreover have "c = started (cfg_max_concurrent_operations cfg) spawns panics"
    using c by (auto simp: from_config_def started_def io_err_def split: option.splits)
  ultimately show thesis using that [OF v a ini d] e by blast
qed

text \<open>C28. Opening a store checks the namespace first, then the maximum, then initializes the namespace directory
  and starts the coordinator; each failure is reported, and only the initialization touches the file
  system. Success means a valid configuration over an existing directory that is a child of the resolved
  root, and a coordinator in its initial state with as many workers allowed as configured.\<close>

theorem engine_open_correct:
  assumes "wf_format (opt_format options)" "0 < opt_max_concurrent_operations options"
    and "engine_open spawned spawns panics root namespace options s = (result, s')"
  shows "(\<forall>e. validate_namespace namespace = Err e \<longrightarrow> result = Err (Configuration InvalidNamespace) \<and> s' = s)
    \<and> (\<forall>c. validate_namespace namespace = Ok c \<and> 2 ^ 64 \<le> unat (opt_max_blob_size options) + 22 \<longrightarrow>
         result = Err (Configuration (InvalidMaximumBlobSize (opt_max_blob_size options))) \<and> s' = s)
    \<and> (\<forall>source. spawned = Some source \<longrightarrow> (\<exists>e. result = Err e))
    \<and> (\<forall>cfg c. result = Ok (cfg, c) \<longrightarrow>
         wf_config cfg \<and> c = started (cfg_max_concurrent_operations cfg) spawns panics
         \<and> (\<exists>absolute component. resolved_root root s absolute \<and> is_directory absolute s
              \<and> plain_name component \<and> cfg_namespace cfg = path_join absolute component)
         \<and> (is_directory (cfg_namespace cfg) s \<or> entry s' (cfg_namespace cfg) = Some DirNode))"
proof (intro conjI allI impI)
  fix e
  assume v: "validate_namespace namespace = Err e"
  then have "e = Configuration InvalidNamespace"
    by (auto simp: validate_namespace_def split: list.splits component.splits if_splits)
  with v assms(3) show "result = Err (Configuration InvalidNamespace)" "s' = s" by (auto simp: engine_open_def)
next
  fix c
  assume v: "validate_namespace namespace = Ok c \<and> 2 ^ 64 \<le> unat (opt_max_blob_size options) + 22"
  then have "validate_maximum (opt_max_blob_size options)
      = Err (Configuration (InvalidMaximumBlobSize (opt_max_blob_size options)))"
    using validate_maximum_Ok [of "opt_max_blob_size options"]
    by (auto simp: validate_maximum_def room_for_overhead_def split: if_splits)
  with v assms(3) show "result = Err (Configuration (InvalidMaximumBlobSize (opt_max_blob_size options)))" "s' = s"
    by (auto simp: engine_open_def)
next
  fix source
  assume "spawned = Some source"
  with assms(3) show "\<exists>e. result = Err e"
    by (auto simp: engine_open_def from_config_def io_err_def split: sum.splits prod.splits)
next
  fix cfg c
  assume r: "result = Ok (cfg, c)"
  obtain component absolute where o: "validate_namespace namespace = Ok component" "resolved_root root s absolute"
    "is_directory absolute s"
    "initialized absolute component (opt_format options) (opt_max_blob_size options)
       (opt_max_concurrent_operations options) cfg"
    "is_directory (cfg_namespace cfg) s \<or> entry s' (cfg_namespace cfg) = Some DirNode"
    "wf_config cfg" "c = started (cfg_max_concurrent_operations cfg) spawns panics"
    by (rule engine_open_Ok [OF assms(1,2) assms(3) [unfolded r]])
  show "wf_config cfg" "c = started (cfg_max_concurrent_operations cfg) spawns panics"
    "is_directory (cfg_namespace cfg) s \<or> entry s' (cfg_namespace cfg) = Some DirNode" by (rule o)+
  show "\<exists>absolute component. resolved_root root s absolute \<and> is_directory absolute s
      \<and> plain_name component \<and> cfg_namespace cfg = path_join absolute component"
    using o(2,3,4) validated_namespace_plain [OF o(1)] by (auto simp: initialized_def)
qed

definition golden_options :: atomic_blob_store_options where
  "golden_options = \<lparr>opt_format = golden_format, opt_max_blob_size = 67108864, opt_max_concurrent_operations = 2\<rparr>"

lemma demo_open:
  "engine_open None [] [] ''/store'' ''blobs'' golden_options empty_root =
     (Ok (golden_config, started 2 [] []),
      empty_root\<lparr>fs_log := [SyncDir ''/store'', Update [(''/store/blobs'', Some DirNode)]]\<rparr>)"
proof -
  have "validate_namespace ''blobs'' = Ok ''blobs''" by code_simp
  moreover have "validate_maximum 67108864 = Ok ()"
    by (simp add: validate_maximum_Ok room_for_overhead_def)
  moreover have "from_config None [] [] golden_config = Ok (golden_config, started 2 [] [])"
    by (simp add: from_config_def started_def golden_config_def)
  ultimately show ?thesis
    by (simp add: engine_open_def golden_options_def demo_initialize)
qed

lemma engine_open_correct_witness:
  "wf_config golden_config \<and> cfg_namespace golden_config = ''/store/blobs''"
proof -
  have "wf_format (opt_format golden_options)" "0 < opt_max_concurrent_operations golden_options"
    using golden_wf by (simp_all add: golden_options_def)
  from engine_open_correct [OF this demo_open] show ?thesis
    by (simp add: golden_config_def)
qed

section \<open>The worker pool\<close>

lemma prepare_exact:
  "prepare n p = (r, p') \<Longrightarrow>
     wp_handles p \<le> wp_handles p' \<and> wp_handles p' \<le> max (wp_handles p) (min n (wp_capacity p))
     \<and> wp_spawns p' = drop (wp_handles p' - wp_handles p + (if r = Ok () then 0 else 1)) (wp_spawns p)
     \<and> (r = Ok () \<and> min n (wp_capacity p) \<le> wp_handles p' \<or> r = Err WorkerUnavailable \<and> False \<in> set (wp_spawns p))"
proof (induction "wp_capacity p - wp_handles p" arbitrary: p rule: less_induct)
  case less
  show ?case
  proof (cases "wp_handles p < min n (wp_capacity p)")
    case False
    with less.prems show ?thesis by (auto simp: prepare_step [of n p])
  next
    case True
    show ?thesis
    proof (cases "\<exists>bs. wp_spawns p = False # bs")
      case stop: True
      with less.prems True show ?thesis by (auto simp: prepare_step [of n p])
    next
      case False
      let ?p = "p\<lparr>wp_spawns := drop 1 (wp_spawns p), wp_handles := wp_handles p + 1\<rparr>"
      have pr: "prepare n ?p = (r, p')" using less.prems True False by (simp add: prepare_step [of n p])
      have "wp_capacity ?p - wp_handles ?p < wp_capacity p - wp_handles p" using True by (simp add: diff_less_mono2)
      from less.hyps [OF this pr] have
        ih: "wp_handles p + 1 \<le> wp_handles p'" "wp_handles p' \<le> max (wp_handles p + 1) (min n (wp_capacity p))"
          "wp_spawns p' = drop (wp_handles p' - (wp_handles p + 1) + (if r = Ok () then 0 else 1)) (drop 1 (wp_spawns p))"
          "r = Ok () \<and> min n (wp_capacity p) \<le> wp_handles p'
             \<or> r = Err WorkerUnavailable \<and> False \<in> set (drop 1 (wp_spawns p))"
        by auto
      have "wp_handles p' - (wp_handles p + 1) + 1 = wp_handles p' - wp_handles p" using ih(1) by simp
      with ih(3) have "wp_spawns p' = drop (wp_handles p' - wp_handles p + (if r = Ok () then 0 else 1)) (wp_spawns p)"
        using ih(1) by (auto simp: Suc_diff_le)
      with ih(1,2,4) True show ?thesis
        by (auto dest: in_set_dropD)
    qed
  qed
qed

text \<open>Preparing workers starts a thread only while fewer run than are required and allowed, never more; it
  succeeds when enough of them run, and reports \<open>WorkerUnavailable\<close> for the first spawn that fails, keeping
  the threads started before it. It fails only if a spawn does.\<close>

theorem prepare_starts_what_is_needed:
  assumes "prepare n p = (r, p')"
  shows "wp_handles p \<le> wp_handles p' \<and> wp_handles p' \<le> max (wp_handles p) (min n (wp_capacity p))
     \<and> wp_spawns p' = drop (wp_handles p' - wp_handles p + (if r = Ok () then 0 else 1)) (wp_spawns p)
     \<and> (r = Ok () \<and> min n (wp_capacity p) \<le> wp_handles p' \<or> r = Err WorkerUnavailable \<and> False \<in> set (wp_spawns p))"
  by (rule prepare_exact [OF assms])

lemma prepare_starts_what_is_needed_witness:
  "wp_spawns (snd (prepare 3 (worker_pool_new 2 [True, False, True] []))) = [True]"
proof -
  let ?p = "worker_pool_new 2 [True, False, True] []"
  have p: "prepare 3 ?p = (Err WorkerUnavailable, snd (prepare 3 ?p))"
    "wp_handles (snd (prepare 3 ?p)) = 1" by code_simp+
  from prepare_starts_what_is_needed [OF p(1)] show ?thesis
    using p(2) by (simp add: worker_pool_new_def numeral_2_eq_2)
qed

section \<open>The loop of the coordinator\<close>

lemma run_scheduler_inv:
  assumes "hash_order order"
  shows "scheduler_inv maximum s \<Longrightarrow> list_all sound_completion events \<Longrightarrow>
    \<exists>closed s'. run_scheduler order maximum events s = Some (closed, s') \<and> \<not> wp_sender (pool s')
      \<and> (lifecycle s' = Closed \<or> closed \<and> lifecycle s' = ShutdownFailed)
      \<and> (closed \<longrightarrow> active s' = [] \<and> (\<forall>k. backlog k s' = []) \<and> pending s' = [] \<and> \<not> maintenance_active s')"
proof (induction events arbitrary: s)
  case Nil
  then show ?case by (auto simp: pool_shutdown_def Let_def)
next
  case (Cons event rest)
  obtain c where h: "handle_event order maximum event s = Some c"
    using Cons.prems(2) handle_event_panics [of order maximum event s]
    by (cases "handle_event order maximum event s") auto
  have inv: "scheduler_inv maximum c"
    using hash_order.handle_event_step [OF assms Cons.prems(1) h] by blast
  show ?case
  proof (cases "\<not> continues event s \<and> ready_to_close c")
    case False
    with h Cons.IH [OF inv] Cons.prems(2) show ?thesis by auto
  next
    case True
    then have run: "run_scheduler order maximum (event # rest) s = Some (True, close_down rest c)" using h by simp
    have "list_all is_close (pending c)"
      using True inv closes_only [of c]
      by (auto simp: ready_to_close_def scheduler_inv_def split: list.splits)
    then obtain p result l where e: "close_down rest c = c\<lparr>pool := p, lifecycle := l, pending := [],
      out := out c @ view (close_action result) (pending c) @ view (drain_action result) rest\<rparr>"
      "l = Closed \<and> result = Ok () \<or> l = ShutdownFailed \<and> result = Err ShutdownFailure"
      by (rule close_down_effect [of c rest])
    have "\<not> wp_sender (pool (close_down rest c))"
      by (rule close_down_sender [OF \<open>list_all is_close (pending c)\<close>])
    with True e inv run show ?thesis
      by (auto simp: ready_to_close_def scheduler_inv_def wf_sched_def queues_empty_iff backlog_def)
  qed
qed

text \<open>The loop of the coordinator ends without a panic on every sequence of events in which the
  completions carry results of their operation's kind, whatever else the events are. When it ends in the
  close check nothing is queued, pending or active; in every case the worker pool has been shut down and
  the lifecycle says so.\<close>

theorem run_scheduler_ends:
  assumes "hash_order order" "list_all sound_completion events"
  shows "\<exists>closed s'. run_scheduler order maximum events (started maximum spawns panics) = Some (closed, s')
    \<and> \<not> wp_sender (pool s') \<and> (lifecycle s' = Closed \<or> closed \<and> lifecycle s' = ShutdownFailed)
    \<and> (closed \<longrightarrow> active s' = [] \<and> (\<forall>k. backlog k s' = []) \<and> pending s' = [] \<and> \<not> maintenance_active s')"
  by (rule run_scheduler_inv [OF assms(1) _ assms(2)]) (simp add: started_def sched_new_inv)

lemma run_scheduler_ends_witness:
  "\<exists>s'. run_scheduler rotating_order 2 [Submission [] (LoadOp 0), Close 1, Completion [] None, Flush 2]
      (started 2 [] []) = Some (True, s') \<and> lifecycle s' = Closed \<and> pending s' = []"
proof -
  let ?es = "[Submission [] (LoadOp 0), Close 1, Completion [] None, Flush 2]"
  have "list_all sound_completion ?es" by simp
  from run_scheduler_ends [OF rotating.hash_order_axioms this, of 2 "[]" "[]"] obtain closed s' where
    s: "run_scheduler rotating_order 2 ?es (started 2 [] []) = Some (closed, s')" "closed \<longrightarrow> pending s' = []" by blast
  moreover have "map_option (\<lambda>(closed, s). (closed, lifecycle s)) (run_scheduler rotating_order 2 ?es (started 2 [] []))
      = Some (True, Closed)" by code_simp
  ultimately show ?thesis by auto
qed

end
