(* ===== verification/Facades.thy ===== *)
theory Facades
  imports EngineProps
begin

text \<open>
  The two public facades: \<open>src/blocking.rs\<close> and \<open>src/tokio.rs\<close>. Most methods wait for the pending result of
  the engine; the streaming ones run a loop of their own, which feeds the messages of a save from a reader
  or passes the chunks of a load to a writer. How many sends a stream accepts before the worker drops its
  end is the argument \<open>accepts\<close> (\<open>None\<close>: all of them); at which of its polls a Tokio save finds the result
  already there is the list \<open>polls\<close>. A poll that is pending only delays a loop and is not modelled.
\<close>

section \<open>Feeding a save\<close>

text \<open>How a loop ends: with an error of its own, or waiting for the result of the operation.\<close>

datatype pump_end = Rejected store_error | Awaits

definition accepts_send :: "nat option \<Rightarrow> bool" where
  "accepts_send accepts \<longleftrightarrow> accepts \<noteq> Some 0"

definition after_send :: "nat option \<Rightarrow> nat option" where
  "after_send accepts = map_option (\<lambda>n. n - 1) accepts"

text \<open>After the declared length, one more byte is asked for.\<close>

definition probe_trailing :: "nat option \<Rightarrow> u64 \<Rightarrow> reader \<Rightarrow> pump_end \<times> save_stream_message list \<times> reader" where
  "probe_trailing accepts declared_len r =
     (case read_call 1 r of
        (Err source, r) \<Rightarrow> (Rejected (InputIo source), [], r)
      | (Ok [], r) \<Rightarrow> if accepts_send accepts then (Awaits, [Complete], r) else (Awaits, [], r)
      | (Ok _, r) \<Rightarrow> (Rejected (InputHasTrailingData declared_len), [], r))"

function blocking_pump ::
  "nat option \<Rightarrow> u64 \<Rightarrow> u64 \<Rightarrow> reader \<Rightarrow> pump_end \<times> save_stream_message list \<times> reader" where
  "blocking_pump accepts declared_len read r =
     (if read < declared_len then
        (case read_call (chunk_request (declared_len - read)) r of
           (Err source, r) \<Rightarrow> (Rejected (InputIo source), [], r)
         | (Ok chunk, r) \<Rightarrow>
             if chunk = [] then (Rejected (InputEndedEarly declared_len read), [], r)
             else if \<not> accepts_send accepts then (Awaits, [], r)
             else (case blocking_pump (after_send accepts) declared_len (read + of_nat (length chunk)) r of
                     (ending, messages, r) \<Rightarrow> (ending, Chunk chunk # messages, r)))
      else probe_trailing accepts declared_len r)"
  by pat_completeness auto

lemma read_progress:
  assumes "read < declared" "read_call (chunk_request (declared - read)) r = (Ok chunk, r')"
  shows "length chunk \<le> unat declared - unat read"
    "unat (read + of_nat (length chunk)) = unat read + length chunk"
    "read + of_nat (length chunk) \<le> declared"
    "length chunk \<le> STREAM_CHUNK_SIZE"
proof -
  have "length chunk \<le> chunk_request (declared - read)" using read_call_Ok [OF assms(2)] by simp
  then have l: "length chunk \<le> unat (declared - read)" "length chunk \<le> STREAM_CHUNK_SIZE"
    by (simp_all add: chunk_request_def)
  have "unat (declared - read) = unat declared - unat read"
    using assms(1) by (simp add: unat_diff_no_borrow word_le_nat_alt word_less_nat_alt)
  with l show b: "length chunk \<le> unat declared - unat read" "length chunk \<le> STREAM_CHUNK_SIZE" by simp_all
  have "unat declared < 2 ^ 64" using unsigned_less [of declared] by simp
  moreover have "unat read \<le> unat declared" using assms(1) by (simp add: word_less_nat_alt)
  ultimately have lt: "unat read + length chunk < 2 ^ 64" using b(1) by linarith
  then show u: "unat (read + of_nat (length chunk)) = unat read + length chunk"
    using b(2) by (simp add: unat_word_ariths take_bit_eq_mod unat_of_nat STREAM_CHUNK_SIZE_def)
  then show "read + of_nat (length chunk) \<le> declared"
    using b(1) \<open>unat read \<le> unat declared\<close> by (simp add: word_le_nat_alt)
qed

termination blocking_pump
proof (relation "measure (\<lambda>(accepts, declared_len, read, r). unat declared_len - unat read)", goal_cases)
  case (2 accepts declared_len read r x r' chunk)
  then have call: "read_call (chunk_request (declared_len - read)) r = (Ok chunk, r')"
    by (cases "read_call (chunk_request (declared_len - read)) r") simp
  note p = read_progress [OF 2(1) call]
  from 2 have "0 < length chunk" "unat read < unat declared_len" by (simp_all add: word_less_nat_alt)
  then have "unat declared_len - (unat read + length chunk) < unat declared_len - unat read" by linarith
  with p(2) show ?case by simp
qed simp

declare blocking_pump.simps [simp del]

text \<open>The Tokio loop looks at the result first at every poll, and returns it when it is there.\<close>

definition result_ready :: "bool list \<Rightarrow> bool" where
  "result_ready polls \<longleftrightarrow> (case polls of [] \<Rightarrow> False | b # _ \<Rightarrow> b)"

function tokio_pump ::
  "bool list \<Rightarrow> nat option \<Rightarrow> u64 \<Rightarrow> u64 \<Rightarrow> reader \<Rightarrow> pump_end \<times> save_stream_message list \<times> reader" where
  "tokio_pump polls accepts declared_len read r =
     (if result_ready polls then (Awaits, [], r)
      else if read < declared_len then
        (case read_call (chunk_request (declared_len - read)) r of
           (Err source, r) \<Rightarrow> (Rejected (InputIo source), [], r)
         | (Ok chunk, r) \<Rightarrow>
             if chunk = [] then (Rejected (InputEndedEarly declared_len read), [], r)
             else if \<not> accepts_send accepts then (Awaits, [], r)
             else (case tokio_pump (drop 1 polls) (after_send accepts) declared_len (read + of_nat (length chunk)) r of
                     (ending, messages, r) \<Rightarrow> (ending, Chunk chunk # messages, r)))
      else probe_trailing accepts declared_len r)"
  by pat_completeness auto

termination tokio_pump
proof (relation "measure (\<lambda>(polls, accepts, declared_len, read, r). unat declared_len - unat read)", goal_cases)
  case (2 polls accepts declared_len read r x r' chunk)
  then have call: "read_call (chunk_request (declared_len - read)) r = (Ok chunk, r')"
    by (cases "read_call (chunk_request (declared_len - read)) r") simp
  note p = read_progress [OF 2(2) call]
  from 2 have "0 < length chunk" "unat read < unat declared_len" by (simp_all add: word_less_nat_alt)
  then have "unat declared_len - (unat read + length chunk) < unat declared_len - unat read" by linarith
  with p(2) show ?case by simp
qed simp

declare tokio_pump.simps [simp del]

text \<open>\<open>save_from\<close>: \<open>received\<close> is what the reply channel yields.\<close>

definition finish_pump :: "pump_end \<Rightarrow> unit pending_result \<Rightarrow> lifecycle \<Rightarrow> (reply \<Rightarrow> unit store_result option)
    \<Rightarrow> coordinator_join \<Rightarrow> (unit store_result \<times> coordinator_join) option" where
  "finish_pump ending p later received j =
     (case wait p later received j of
        None \<Rightarrow> None
      | Some (result, j) \<Rightarrow> Some (case ending of Rejected error \<Rightarrow> Err error | Awaits \<Rightarrow> result, j))"

definition blocking_save_from ::
  "blake3_lib \<Rightarrow> store_config \<Rightarrow> lifecycle \<Rightarrow> bool \<Rightarrow> lifecycle \<Rightarrow> bytes \<Rightarrow> nat option \<Rightarrow> reader \<Rightarrow> u64 \<Rightarrow> reply
     \<Rightarrow> lifecycle \<Rightarrow> (reply \<Rightarrow> unit store_result option) \<Rightarrow> coordinator_join
     \<Rightarrow> (unit store_result \<times> coordinator_join) option \<times> coordinator_event list \<times> reader" where
  "blocking_save_from B cfg seen alive state key accepts reader declared_len r later received j =
     (case blocking_pump accepts declared_len 0 reader of
        (ending, messages, reader') \<Rightarrow>
          (case start_save_stream B cfg seen alive state key declared_len messages r of
             (Err error, events) \<Rightarrow> (Some (Err error, j), events, reader)
           | (Ok p, events) \<Rightarrow> (finish_pump ending p later received j, events, reader')))"

definition tokio_save_from ::
  "blake3_lib \<Rightarrow> store_config \<Rightarrow> lifecycle \<Rightarrow> bool \<Rightarrow> lifecycle \<Rightarrow> bytes \<Rightarrow> bool list \<Rightarrow> nat option \<Rightarrow> reader \<Rightarrow> u64
     \<Rightarrow> reply \<Rightarrow> lifecycle \<Rightarrow> (reply \<Rightarrow> unit store_result option) \<Rightarrow> coordinator_join
     \<Rightarrow> (unit store_result \<times> coordinator_join) option \<times> coordinator_event list \<times> reader" where
  "tokio_save_from B cfg seen alive state key polls accepts reader declared_len r later received j =
     (case tokio_pump polls accepts declared_len 0 reader of
        (ending, messages, reader') \<Rightarrow>
          (case start_save_stream B cfg seen alive state key declared_len messages r of
             (Err error, events) \<Rightarrow> (Some (Err error, j), events, reader)
           | (Ok p, events) \<Rightarrow> (finish_pump ending p later received j, events, reader')))"

section \<open>Passing on a load\<close>

text \<open>The chunks the worker sends, written one after the other until a write fails.\<close>

fun write_chunks :: "'s write_all \<Rightarrow> bytes list \<Rightarrow> 's \<Rightarrow> io_error option \<times> 's" where
  "write_chunks write [] s = (None, s)"
| "write_chunks write (chunk # chunks) s =
     (case write chunk s of
        (Err source, s) \<Rightarrow> (Some source, s)
      | (Ok _, s) \<Rightarrow> write_chunks write chunks s)"

text \<open>The loop ends with the acknowledgement, which it sends unless a write has failed.\<close>

definition acknowledges :: "'s write_all \<Rightarrow> bytes list \<Rightarrow> 's \<Rightarrow> bool" where
  "acknowledges write chunks w \<longleftrightarrow> fst (write_chunks write chunks w) = None"

definition finish_load ::
  "io_error option \<Rightarrow> blob_metadata option pending_result \<Rightarrow> lifecycle
     \<Rightarrow> (reply \<Rightarrow> blob_metadata option store_result option) \<Rightarrow> coordinator_join
     \<Rightarrow> (blob_metadata option store_result \<times> coordinator_join) option" where
  "finish_load failed p later received j =
     (case wait p later received j of
        None \<Rightarrow> None
      | Some (result, j) \<Rightarrow> Some (case failed of Some source \<Rightarrow> Err (OutputIo source) | None \<Rightarrow> result, j))"

definition blocking_load_into ::
  "blake3_lib \<Rightarrow> lifecycle \<Rightarrow> bool \<Rightarrow> lifecycle \<Rightarrow> bytes \<Rightarrow> nat \<times> bool \<Rightarrow> bytes list \<Rightarrow> 's write_all \<Rightarrow> 's \<Rightarrow> reply
     \<Rightarrow> lifecycle \<Rightarrow> (reply \<Rightarrow> blob_metadata option store_result option) \<Rightarrow> coordinator_join
     \<Rightarrow> (blob_metadata option store_result \<times> coordinator_join) option \<times> coordinator_event list \<times> 's" where
  "blocking_load_into B seen alive state key channels chunks write w r later received j =
     (case start_load_stream B seen alive state key channels r of
        (Err error, events) \<Rightarrow> (Some (Err error, j), events, w)
      | (Ok p, events) \<Rightarrow>
          (case write_chunks write chunks w of
             (failed, w) \<Rightarrow> (finish_load failed p later received j, events, w)))"

definition tokio_load_into ::
  "blake3_lib \<Rightarrow> lifecycle \<Rightarrow> bool \<Rightarrow> lifecycle \<Rightarrow> bytes \<Rightarrow> nat \<times> bool \<Rightarrow> bytes list \<Rightarrow> 's write_all \<Rightarrow> 's \<Rightarrow> reply
     \<Rightarrow> lifecycle \<Rightarrow> (reply \<Rightarrow> blob_metadata option store_result option) \<Rightarrow> coordinator_join
     \<Rightarrow> (blob_metadata option store_result \<times> coordinator_join) option \<times> coordinator_event list \<times> 's" where
  "tokio_load_into B seen alive state key channels chunks write w r later received j =
     (case start_load_stream B seen alive state key channels r of
        (Err error, events) \<Rightarrow> (Some (Err error, j), events, w)
      | (Ok p, events) \<Rightarrow>
          (case write_chunks write chunks w of
             (failed, w) \<Rightarrow> (finish_load failed p later received j, events, w)))"

section \<open>The methods that wait\<close>

text \<open>The blocking methods wait at once; those of the Tokio facade return the future, which yields the same
  when it is polled to its end. The environment of a wait is the lifecycle at that time, what the reply
  channels yield, and the join handle.\<close>

record 'a wait_env =
  env_lifecycle :: lifecycle
  env_received :: "reply \<Rightarrow> 'a store_result option"
  env_join :: coordinator_join

definition wait_in :: "'a wait_env \<Rightarrow> 'a pending_result \<times> coordinator_event list
    \<Rightarrow> ('a store_result \<times> coordinator_join) option \<times> coordinator_event list" where
  "wait_in E call = (wait (fst call) (env_lifecycle E) (env_received E) (env_join E), snd call)"

definition blocking_open where "blocking_open = engine_open"
definition blocking_load where "blocking_load B seen alive state key r E = wait_in E (engine_load B seen alive state key r)"
definition blocking_save where "blocking_save B seen alive state key payload r E =
  wait_in E (engine_save B seen alive state key payload r)"
definition blocking_clear where "blocking_clear B seen alive state key r E = wait_in E (engine_clear B seen alive state key r)"
definition blocking_inspect where "blocking_inspect B seen alive state key r E = wait_in E (engine_inspect B seen alive state key r)"
definition blocking_quarantine where "blocking_quarantine B seen alive state key r E =
  wait_in E (engine_quarantine B seen alive state key r)"
definition blocking_cleanup_stale_temporary_files where "blocking_cleanup_stale_temporary_files seen alive state minimum_age r E =
  wait_in E (cleanup_stale_temporary_files seen alive state minimum_age r)"
definition blocking_flush where "blocking_flush seen alive state r E = wait_in E (engine_flush seen alive state r)"
definition blocking_close where "blocking_close seen alive state r E = wait_in E (engine_close seen alive state r)"
definition blocking_blob_path where "blocking_blob_path = blob_path"

datatype 'a operation_future = OperationFuture "'a pending_result"

definition operation_new :: "'a pending_result \<times> coordinator_event list
    \<Rightarrow> 'a operation_future \<times> coordinator_event list" where
  "operation_new call = (OperationFuture (fst call), snd call)"

fun poll :: "'a operation_future \<Rightarrow> 'a wait_env \<Rightarrow> ('a store_result \<times> coordinator_join) option" where
  "poll (OperationFuture p) E = wait p (env_lifecycle E) (env_received E) (env_join E)"

text \<open>Opening runs on a thread of its own, whose spawn may fail.\<close>

definition tokio_open ::
  "io_error option \<Rightarrow> io_error option \<Rightarrow> bool list \<Rightarrow> bool list \<Rightarrow> path \<Rightarrow> string \<Rightarrow> atomic_blob_store_options \<Rightarrow> fs
     \<Rightarrow> (store_config \<times> sched) store_result \<times> fs" where
  "tokio_open initializer spawned spawns panics root namespace options s =
     (case initializer of
        Some source \<Rightarrow> (io_err StartInitialization source, s)
      | None \<Rightarrow> engine_open spawned spawns panics root namespace options s)"

definition tokio_load where "tokio_load B seen alive state key r = operation_new (engine_load B seen alive state key r)"
definition tokio_save where "tokio_save B seen alive state key payload r =
  operation_new (engine_save B seen alive state key payload r)"
definition tokio_clear where "tokio_clear B seen alive state key r = operation_new (engine_clear B seen alive state key r)"
definition tokio_inspect where "tokio_inspect B seen alive state key r = operation_new (engine_inspect B seen alive state key r)"
definition tokio_quarantine where "tokio_quarantine B seen alive state key r =
  operation_new (engine_quarantine B seen alive state key r)"
definition tokio_cleanup_stale_temporary_files where "tokio_cleanup_stale_temporary_files seen alive state minimum_age r =
  operation_new (cleanup_stale_temporary_files seen alive state minimum_age r)"
definition tokio_flush where "tokio_flush seen alive state r = operation_new (engine_flush seen alive state r)"
definition tokio_close where "tokio_close seen alive state r = operation_new (engine_close seen alive state r)"
definition tokio_blob_path where "tokio_blob_path = blob_path"

end
