(* ===== verification/Contents.thy ===== *)
theory Contents
  imports Operations
begin

text \<open>
  The abstract store, on either platform: a map from key digests to payloads. The canonical file of a
  digest is given by a function \<open>P\<close>; what a file stores is what the parser of the format makes of it. The
  locale \<open>entry_store\<close> has the operations both platforms share (the loads and the inspection) and the
  shape of a change; \<open>blob_backend\<close> is the contract of a platform's operations as the workers run them,
  and in it any sequence of operations refines the map.
\<close>

section \<open>What the files store\<close>

definition stored_entry :: "crc32c_lib \<Rightarrow> store_config \<Rightarrow> node option \<Rightarrow> bytes option" where
  "stored_entry C cfg e =
     (case e of
        Some (FileNode bs _) \<Rightarrow>
          (case parse_envelope C (cfg_format cfg) (cfg_maximum cfg) bs of Ok p \<Rightarrow> Some p | Err _ \<Rightarrow> None)
      | _ \<Rightarrow> None)"

definition stored :: "crc32c_lib \<Rightarrow> store_config \<Rightarrow> (key \<Rightarrow> path) \<Rightarrow> fs \<Rightarrow> key \<Rightarrow> bytes option" where
  "stored C cfg P s h = stored_entry C cfg (entry s (P h))"

text \<open>No canonical path is taken by anything but a regular file.\<close>

definition file_or_none :: "node option \<Rightarrow> bool" where
  "file_or_none e \<longleftrightarrow> e = None \<or> (\<exists>bs t. e = Some (FileNode bs t))"

lemma file_or_none_simps [simp]: "file_or_none None" "file_or_none (Some (FileNode bs t))"
  by (simp_all add: file_or_none_def)

definition regular_store :: "(key \<Rightarrow> path) \<Rightarrow> fs \<Rightarrow> bool" where
  "regular_store P s \<longleftrightarrow> (\<forall>h. length h = 32 \<longrightarrow> file_or_none (entry s (P h)))"

lemma regular_entry: "regular_store P s \<Longrightarrow> length h = 32 \<Longrightarrow> file_or_none (entry s (P h))"
  by (simp add: regular_store_def)

lemma stored_entry_None [simp]: "stored_entry C cfg None = None"
  by (simp add: stored_entry_def)

lemma stored_entry_encoded:
  assumes "crc32c_api C" "wf_format (cfg_format cfg)"
    and "encode_envelope C (cfg_format cfg) p (cfg_maximum cfg) = Ok bs"
  shows "stored_entry C cfg (Some (FileNode bs t)) = Some p"
  using crc32c_api.parse_iff_encode [OF assms(1), of "cfg_format cfg" "cfg_maximum cfg" bs p] assms(2,3)
  by (simp add: stored_entry_def wf_format_def)

section \<open>What an operation may do to the map\<close>

text \<open>What an operation with this result may have made of the stored payload.\<close>

fun stream_payload :: "save_stream_message list \<Rightarrow> bytes" where
  "stream_payload (Chunk bs # ms) = bs @ stream_payload ms"
| "stream_payload _ = []"

definition settles :: "'a store_result \<Rightarrow> bytes option \<Rightarrow> bytes option \<Rightarrow> bytes option set" where
  "settles result old new = (case result of Ok _ \<Rightarrow> {new} | Err _ \<Rightarrow> {old, new})"

fun abstract_effect :: "operation \<Rightarrow> blocking_result \<Rightarrow> bytes option \<Rightarrow> bytes option set" where
  "abstract_effect (SaveOp payload _) (SaveResult result) old = settles result old (Some payload)"
| "abstract_effect (SaveStreamOp _ ms _) (SaveStreamResult result) old =
     settles result old (Some (stream_payload ms))"
| "abstract_effect (ClearOp _) (ClearResult result) old = settles result old None"
| "abstract_effect (QuarantineOp _) (QuarantineResult result) old = settles result old None"
| "abstract_effect (LoadOp _) (LoadResult result) old =
     (case result of Ok found \<Rightarrow> if found = old then {old} else {} | Err _ \<Rightarrow> {old})"
| "abstract_effect (LoadStreamOp _ _) (LoadStreamResult result) old =
     (case result of
        Ok m \<Rightarrow> if map_option (\<lambda>m. unat (payload_len m)) m = map_option length old then {old} else {}
      | Err _ \<Rightarrow> {old})"
| "abstract_effect (InspectOp _) (InspectResult result) old =
     (case result of Ok i \<Rightarrow> if bi_state i = Absent \<and> old \<noteq> None then {} else {old} | Err _ \<Rightarrow> {old})"
| "abstract_effect _ _ old = {}"

lemma stream_payload_complete: "stream_payload (map Chunk chunks @ Complete # rest) = concat chunks"
  by (induction chunks) simp_all

text \<open>One canonical entry goes to \<open>e\<close>, the others stay.\<close>

definition canonical_change :: "(key \<Rightarrow> path) \<Rightarrow> key \<Rightarrow> fs \<Rightarrow> node option \<Rightarrow> fs \<Rightarrow> bool" where
  "canonical_change P h s e s' \<longleftrightarrow> (\<forall>h'. length h' = 32 \<longrightarrow>
     entry s' (P h') = (if h' = h then e else entry s (P h')))"

lemma canonical_change_same: "(\<And>q. entry s' q = entry s q) \<Longrightarrow> canonical_change P h s (entry s (P h)) s'"
  by (simp add: canonical_change_def)

text \<open>The stored payload of one key changes as the operation and its result say, and no other.\<close>

definition abstractly ::
  "crc32c_lib \<Rightarrow> store_config \<Rightarrow> (key \<Rightarrow> path) \<Rightarrow> key \<Rightarrow> operation \<Rightarrow> blocking_result \<Rightarrow> fs \<Rightarrow> fs \<Rightarrow> bool" where
  "abstractly C cfg P h operation result s s' \<longleftrightarrow>
     regular_store P s'
     \<and> stored C cfg P s' h \<in> abstract_effect operation result (stored C cfg P s h)
     \<and> (\<forall>h'. length h' = 32 \<longrightarrow> h' \<noteq> h \<longrightarrow> stored C cfg P s' h' = stored C cfg P s h')"

lemma abstractlyI:
  assumes "canonical_change P h s e s'" "length h = 32" "regular_store P s" "file_or_none e"
    and "stored_entry C cfg e \<in> abstract_effect operation result (stored C cfg P s h)"
  shows "abstractly C cfg P h operation result s s'"
  using assms by (simp add: abstractly_def canonical_change_def regular_store_def stored_def)

lemma abstractly_same:
  assumes "\<And>q. entry s' q = entry s q" "length h = 32" "regular_store P s"
    and "stored C cfg P s h \<in> abstract_effect operation result (stored C cfg P s h)"
  shows "abstractly C cfg P h operation result s s'"
  using abstractlyI [OF canonical_change_same [OF assms(1)] assms(2,3) regular_entry [OF assms(3,2)], of C cfg]
    assms(4) by (simp add: stored_def)

text \<open>Operations that settle on the old payload or a new one: the old one stays only with an error.\<close>

lemma settled_abstractly:
  assumes "canonical_change P h s e s'" "length h = 32" "regular_store P s" "file_or_none e"
    and "stored_entry C cfg e = new \<or> (\<exists>error. r = Err error) \<and> stored_entry C cfg e = stored C cfg P s h"
    and "abstract_effect operation result (stored C cfg P s h) = settles r (stored C cfg P s h) new"
  shows "abstractly C cfg P h operation result s s'"
  using assms(5,6) by (intro abstractlyI [OF assms(1-4)]) (auto simp: settles_def split: sum.split)

section \<open>The operations both platforms share\<close>

lemma file_seek_quiet [quiet_calls]: "file_seek pos h s = (r, s') \<Longrightarrow> quiet V s s'"
  unfolding file_seek_def by (erule syscall_quiet) auto

lemma load_stream_quiet:
  "load_blob_into_sender C cfg p accepts acknowledged s = (r, sent, s') \<Longrightarrow> quiet V s s'"
  by (auto simp: load_blob_into_sender_def split: prod.splits sum.splits if_splits
      dest!: quiet_calls [where V = V] intro: quiet_trans)

lemma load_stream_absent:
  assumes "load_blob_into_sender C cfg p accepts acknowledged s = (Ok None, sent, s')"
    and "file_or_none (entry s p)"
  shows "entry s p = None"
proof (rule ccontr)
  assume "entry s p \<noteq> None"
  with assms(2) obtain bs t where e: "entry s p = Some (FileNode bs t)" by (auto simp: file_or_none_def)
  obtain o1 s1 where o: "file_open p s = (o1, s1)" by fastforce
  show False
  proof (cases o1)
    case (Inl e')
    have "io_kind e' \<noteq> NotFound"
      using file_open_NotFound [OF o [unfolded Inl]] resolve_file [OF e] by auto
    with assms(1) o Inl show False by (auto simp: load_blob_into_sender_def)
  next
    case (Inr h)
    with assms(1) o show False
      by (auto simp: load_blob_into_sender_def split: prod.splits sum.splits if_splits)
  qed
qed

locale entry_store =
  fixes C :: crc32c_lib and cfg :: store_config and P :: "key \<Rightarrow> path"
  assumes crc: "crc32c_api C" and format: "wf_format (cfg_format cfg)"
begin

lemma load_abstractly:
  assumes "load_blob C cfg (P h) s = (r, s')" "length h = 32" "regular_store P s"
  shows "abstractly C cfg P h (LoadOp reply) (LoadResult r) s s'"
proof (rule abstractly_same [OF _ assms(2,3)])
  show "entry s' q = entry s q" for q
    using quiet_entry [OF load_blob_quiet [OF assms(1), of "\<lambda>_. True"]] by simp
  have "res = stored C cfg P s h" if r: "r = Ok res" for res
    using regular_entry [OF assms(3,2)] unfolding file_or_none_def
  proof (elim disjE exE)
    assume "entry s (P h) = None"
    with load_blob_absent [OF assms(1) [unfolded r]] show ?thesis by (simp add: stored_def)
  next
    fix bs t assume e: "entry s (P h) = Some (FileNode bs t)"
    from load_blob_file [OF crc format assms(1) [unfolded r] e] obtain p where
      "res = Some p" "encode_envelope C (cfg_format cfg) p (cfg_maximum cfg) = Ok bs" by blast
    with e stored_entry_encoded [OF crc format] show ?thesis by (simp add: stored_def)
  qed
  then show "stored C cfg P s h \<in> abstract_effect (LoadOp reply) (LoadResult r) (stored C cfg P s h)"
    by (auto split: sum.splits)
qed

lemma load_stream_abstractly:
  assumes "load_blob_into_sender C cfg (P h) accepts acknowledged s = (r, sent, s')"
    and "length h = 32" "regular_store P s"
  shows "abstractly C cfg P h (LoadStreamOp channels reply) (LoadStreamResult r) s s'"
proof (rule abstractly_same [OF _ assms(2,3)])
  show "entry s' q = entry s q" for q
    using quiet_entry [OF load_stream_quiet [OF assms(1), of "\<lambda>_. True"]] by simp
  have "map_option (\<lambda>m. unat (payload_len m)) res = map_option length (stored C cfg P s h)"
    if r: "r = Ok res" for res
  proof (cases res)
    case None
    with load_stream_absent [OF assms(1) [unfolded r None] regular_entry [OF assms(3,2)]] show ?thesis
      by (simp add: stored_def)
  next
    case (Some m)
    have "\<exists>bs t. entry s (P h) = Some (FileNode bs t)"
    proof (rule ccontr)
      assume "\<not> ?thesis"
      with regular_entry [OF assms(3,2)] have "entry s (P h) = None" by (simp add: file_or_none_def)
      then have "\<exists>e s1. file_open (P h) s = (Err e, s1)"
        using resolve_absent unfolding file_open_def syscall_def
        by (auto split: list.splits option.splits)
      with assms(1) r Some show False
        by (auto simp: load_blob_into_sender_def split: if_splits prod.splits sum.splits)
    qed
    then obtain bs t where e: "entry s (P h) = Some (FileNode bs t)" by blast
    from load_stream_sent [OF crc format e assms(1), of m] r Some obtain p where
      "encode_envelope C (cfg_format cfg) p (cfg_maximum cfg) = Ok bs" "unat (payload_len m) = length p"
      by auto
    with e Some stored_entry_encoded [OF crc format] show ?thesis by (simp add: stored_def)
  qed
  then show "stored C cfg P s h
      \<in> abstract_effect (LoadStreamOp channels reply) (LoadStreamResult r) (stored C cfg P s h)"
    by (auto split: sum.splits)
qed

lemma inspect_abstractly:
  assumes "inspect_blob cfg (P h) s = (r, s')" "length h = 32" "regular_store P s"
  shows "abstractly C cfg P h (InspectOp reply) (InspectResult r) s s'"
proof (rule abstractly_same [OF _ assms(2,3)])
  show "entry s' q = entry s q" for q using inspect_blob_facts [OF assms(1)] by blast
  have "stored C cfg P s h = None" if "r = Ok i" "bi_state i = Absent" for i
    using inspect_blob_facts [OF assms(1)] that by (auto simp: stored_def)
  then show "stored C cfg P s h \<in> abstract_effect (InspectOp reply) (InspectResult r) (stored C cfg P s h)"
    by (auto split: sum.splits)
qed

text \<open>A save keeps the entry and fails, or leaves the encoding of its payload.\<close>

lemma save_abstractly:
  assumes "canonical_change P h s (entry s (P h)) s' \<and> (\<exists>e. r = Err e)
      \<or> (\<exists>bs t. encode_envelope C (cfg_format cfg) payload (cfg_maximum cfg) = Ok bs
           \<and> canonical_change P h s (Some (FileNode bs t)) s')"
    and "length h = 32" "regular_store P s"
    and "abstract_effect operation result (stored C cfg P s h) = settles r (stored C cfg P s h) (Some payload)"
  shows "abstractly C cfg P h operation result s s'"
  using assms(1)
proof (elim disjE exE conjE)
  fix e assume "canonical_change P h s (entry s (P h)) s'" "r = Err e"
  then show ?thesis
    by (intro settled_abstractly [OF _ assms(2,3) regular_entry [OF assms(3,2)] _ assms(4)]) (simp_all add: stored_def)
next
  fix bs t
  assume "encode_envelope C (cfg_format cfg) payload (cfg_maximum cfg) = Ok bs"
    and "canonical_change P h s (Some (FileNode bs t)) s'"
  then show ?thesis
    using stored_entry_encoded [OF crc format, of payload bs t]
    by (intro settled_abstractly [where e = "Some (FileNode bs t)", OF _ assms(2,3) _ _ assms(4)]) simp_all
qed

text \<open>A clear or a quarantine removes the entry, or fails and keeps the payload it stores.\<close>

lemma removal_abstractly:
  assumes "(\<exists>e. canonical_change P h s e s' \<and> file_or_none e \<and> stored_entry C cfg e = stored C cfg P s h
        \<and> (\<exists>error. r = Err error))
      \<or> canonical_change P h s None s'"
    and "length h = 32" "regular_store P s"
    and "abstract_effect operation result (stored C cfg P s h) = settles r (stored C cfg P s h) None"
  shows "abstractly C cfg P h operation result s s'"
  using assms(1)
proof (elim disjE exE conjE)
  fix e error
  assume "canonical_change P h s e s'" "file_or_none e" "stored_entry C cfg e = stored C cfg P s h" "r = Err error"
  then show ?thesis
    by (intro settled_abstractly [where e = e, OF _ assms(2,3) _ _ assms(4)]) simp_all
next
  assume "canonical_change P h s None s'"
  then show ?thesis
    by (intro settled_abstractly [where e = None, OF _ assms(2,3) _ _ assms(4)]) simp_all
qed

end

section \<open>A platform's operations\<close>

text \<open>A job runs an operation on the canonical file of a digest, at a time; the outer option is \<open>None\<close> when
  it does not return, the inner one when it panics. The sweep is the maintenance job.\<close>

type_synonym job =
  "system_time \<Rightarrow> key \<Rightarrow> operation \<Rightarrow> fs \<Rightarrow> ((operation \<times> blocking_result) option \<times> bytes list \<times> fs) option"

type_synonym sweep = "system_time \<Rightarrow> nat option \<Rightarrow> fs \<Rightarrow> cleanup_report store_result \<times> fs"

text \<open>Operations carried out one after the other, and the same history on a map of digests to payloads.\<close>

type_synonym history = "(key \<times> operation \<times> blocking_result) list"

inductive store_run :: "job \<Rightarrow> fs \<Rightarrow> history \<Rightarrow> fs \<Rightarrow> bool" for job :: job where
  store_run_Nil: "store_run job s [] s"
| store_run_Cons: "job now h operation s = Some (Some (operation', result), sent, s1) \<Longrightarrow> length h = 32 \<Longrightarrow>
    store_run job s1 hist s' \<Longrightarrow> store_run job s ((h, operation, result) # hist) s'"

inductive map_run :: "(key \<Rightarrow> bytes option) \<Rightarrow> history \<Rightarrow> (key \<Rightarrow> bytes option) \<Rightarrow> bool" where
  map_run_Nil: "map_run m [] m"
| map_run_Cons: "v \<in> abstract_effect operation result (m h) \<Longrightarrow> map_run (m(h := v)) hist m' \<Longrightarrow>
    map_run m ((h, operation, result) # hist) m'"

inductive_simps map_run_simps [simp]: "map_run m [] m'" "map_run m ((h, operation, result) # hist) m'"

lemma map_run_append: "map_run m xs m' \<Longrightarrow> map_run m' ys m'' \<Longrightarrow> map_run m (xs @ ys) m''"
  by (induction rule: map_run.induct) auto

definition store_view :: "crc32c_lib \<Rightarrow> store_config \<Rightarrow> (key \<Rightarrow> path) \<Rightarrow> fs \<Rightarrow> key \<Rightarrow> bytes option" where
  "store_view C cfg P s h = (if length h = 32 then stored C cfg P s h else None)"

locale blob_backend =
  fixes C :: crc32c_lib and cfg :: store_config and P :: "key \<Rightarrow> path" and job :: job and sweep :: sweep
  assumes job_abstractly: "job now h operation s = Some (Some (operation', result), sent, s') \<Longrightarrow>
      length h = 32 \<Longrightarrow> regular_store P s \<Longrightarrow> abstractly C cfg P h operation result s s'"
    and job_typed: "job now h operation s = Some (Some (operation', result), sent, s') \<Longrightarrow>
      result_matches operation' result \<and> reply_of operation' = reply_of operation \<and> result_matches operation result"
    and job_panics: "job now h operation s = Some (None, sent, s') \<Longrightarrow> s' = s"
    and sweep_spares: "sweep now age s = (r, s') \<Longrightarrow> length h = 32 \<Longrightarrow> entry s' (P h) = entry s (P h)"
begin

lemma job_view:
  assumes "job now h operation s = Some (Some (operation', result), sent, s')" "length h = 32" "regular_store P s"
  shows "\<exists>v \<in> abstract_effect operation result (store_view C cfg P s h).
      store_view C cfg P s' = (store_view C cfg P s)(h := v)"
  using job_abstractly [OF assms] assms(2)
  by (auto simp: abstractly_def store_view_def fun_eq_iff intro!: bexI [of _ "stored C cfg P s' h"])

lemma job_map_run:
  assumes "job now h operation s = Some (Some (operation', result), sent, s')" "length h = 32" "regular_store P s"
  shows "map_run (store_view C cfg P s) [(h, operation, result)] (store_view C cfg P s') \<and> regular_store P s'"
  using job_view [OF assms] job_abstractly [OF assms] by (auto simp: abstractly_def)

lemma sweep_view:
  assumes "sweep now age s = (r, s')"
  shows "store_view C cfg P s' = store_view C cfg P s" "regular_store P s' \<longleftrightarrow> regular_store P s"
  using sweep_spares [OF assms] by (auto simp: store_view_def stored_def regular_store_def)

lemma store_run_map_run:
  "store_run job s hist s' \<Longrightarrow> regular_store P s \<Longrightarrow>
     map_run (store_view C cfg P s) hist (store_view C cfg P s') \<and> regular_store P s'"
proof (induction rule: store_run.induct)
  case (store_run_Cons now h operation s operation' result sent s1 hist s')
  from job_map_run [OF store_run_Cons.hyps(1,2) store_run_Cons.prems] store_run_Cons.IH show ?case
    using map_run_append [of _ "[(h, operation, result)]" _ hist, unfolded append_Cons append_Nil] by blast
qed simp

end

end
