(* ===== verification/OperationProps.thy ===== *)
theory OperationProps
  imports Contents
begin

text \<open>
  The Unix operations refine the abstract store: what each operation does to the file system is, seen
  through the envelope parser, what its result says it did to the map, and nothing happens to any other
  key. \<open>unix_store\<close> has the Unix side of the contract \<open>blob_backend\<close>.
\<close>

section \<open>Canonical paths\<close>

lemma base_part_join:
  assumes "plain_name q"
  shows "base_part (path_join d q) = q"
proof -
  have *: "\<And>c. c \<in> set (rev q) \<Longrightarrow> c \<noteq> CHR ''/''" using assms by (auto simp: plain_name_def)
  have t: "takeWhile (\<lambda>c. c \<noteq> CHR ''/'') (rev q @ ys) = rev q @ takeWhile (\<lambda>c. c \<noteq> CHR ''/'') ys" for ys
    using * by (subst takeWhile_append2) auto
  consider "d = []" | e where "d = e @ ''/''" | "d \<noteq> []" "last d \<noteq> CHR ''/''"
    by (metis append_butlast_last_id)
  then have "takeWhile (\<lambda>c. c \<noteq> CHR ''/'') (rev (path_join d q)) = rev q"
    by cases (use t [of "[]"] t in \<open>auto simp: path_join_plain [OF assms]\<close>)
  then show ?thesis by (simp add: base_part_def)
qed

locale store_paths = blake3_api +
  fixes cfg :: store_config
  assumes format: "wf_format (cfg_format cfg)"
begin

lemma operation_path_inj:
  "length h = 32 \<Longrightarrow> length h' = 32 \<Longrightarrow> operation_path B cfg h = operation_path B cfg h' \<Longrightarrow> h = h'"
  unfolding operation_path_def by (rule blob_path_inj [OF format])

lemma operation_path_observable:
  assumes "length h = 32" "length h' = 32"
  shows "observable (operation_path B cfg h) (operation_path B cfg h')"
proof -
  have hex: "is_hex_name (blake3_to_hex B h')" by (rule to_hex_shape [OF assms(2)])
  then obtain c cs where c: "blake3_to_hex B h' = c # cs" "c \<noteq> CHR ''.''"
    using is_hex_name_chars [OF hex] by (cases "blake3_to_hex B h'") auto
  have "base_part (operation_path B cfg h') = blob_file B (cfg_format cfg) h'"
    unfolding operation_path_def by (rule base_part_join [OF blob_file_plain [OF format assms(2)]])
  with c show ?thesis by (simp add: observable_def staging_path_def blob_file_def)
qed

lemma quarantine_path_fresh:
  assumes "length h = 32" "length h' = 32" "is_hex_name i"
  shows "quarantine_path cfg (blake3_to_hex B h) i \<noteq> operation_path B cfg h'"
proof
  let ?q = "blake3_to_hex B h @ filename_suffix (cfg_format cfg) @ ''.quarantine-v1.'' @ i"
  assume "quarantine_path cfg (blake3_to_hex B h) i = operation_path B cfg h'"
  moreover have "plain_name ?q"
    using plain_name_hex [OF format to_hex_shape [OF assms(1)], of "''.quarantine-v1.'' @ i"]
      is_hex_name_chars(2) [OF assms(3)] by simp
  ultimately have "?q = blob_file B (cfg_format cfg) h'"
    unfolding quarantine_path_def operation_path_def
    using path_join_inj [OF _ blob_file_plain [OF format assms(2)]] by blast
  then have "length ?q = length (blob_file B (cfg_format cfg) h')" by simp
  then show False
    using to_hex_shape [OF assms(1)] to_hex_shape [OF assms(2)] by (simp add: blob_file_def is_hex_name_def)
qed

lemma operation_path_stem:
  "length h = 32 \<Longrightarrow> file_stem (operation_path B cfg h) = Some (blake3_to_hex B h)"
  unfolding operation_path_def by (rule blob_file_stem [OF format])

end

text \<open>The digest of the evaluation and the configuration of the fixtures.\<close>

interpretation golden_paths: store_paths padded_digest golden_config
  by unfold_locales (simp add: golden_config_def golden_wf)

section \<open>One operation\<close>

context store_paths
begin

abbreviation "path_of \<equiv> operation_path B cfg"

lemma save_change:
  assumes "old_or_new C cfg (path_of h) payload s r s'" "length h = 32"
  shows "canonical_change path_of h s (entry s (path_of h)) s' \<and> (\<exists>e. r = Err e)
    \<or> (\<exists>bs t. encode_envelope C (cfg_format cfg) payload (cfg_maximum cfg) = Ok bs
         \<and> canonical_change path_of h s (Some (FileNode bs t)) s')"
proof -
  have "entry s' (path_of h') = entry s (path_of h')"
    if "length h' = 32" "h' \<noteq> h" for h'
    using assms that operation_path_observable [OF assms(2) that(1)] operation_path_inj [OF that(1) assms(2)]
    by (auto simp: old_or_new_def)
  with assms(1) show ?thesis by (auto simp: old_or_new_def canonical_change_def)
qed

lemma clear_change:
  assumes "clear_blob cfg (path_of h) s = (r, s')" "length h = 32"
  shows "canonical_change path_of h s (entry s (path_of h)) s' \<and> (\<exists>e. r = Err e)
    \<or> canonical_change path_of h s None s'"
  using assms(1)
proof (cases rule: clear_blob_cases)
  case (removed n)
  then show ?thesis
    using installs_entry [OF removed(3)] operation_path_inj [OF _ assms(2)]
    by (auto simp: canonical_change_def)
next
  case absent
  then show ?thesis using quiet_entry [OF absent(2)] by (auto simp: canonical_change_def)
next
  case (failed e)
  then show ?thesis using quiet_entry [OF failed(1)] by (auto simp: canonical_change_def)
qed

lemma quarantine_seen:
  assumes "quarantine_blob U cfg (path_of h) s = Some (r, s')" "unix_api U staged target" "length h = 32"
  obtains (moved) i n where "is_hex_name i"
      "installs (\<lambda>_. True) [(quarantine_path cfg (blake3_to_hex B h) i, Some n), (path_of h, None)] s s'"
      "canonical_change path_of h s None s'"
    | (kept) "quiet (\<lambda>_. True) s s'" "\<exists>e. r = Err e"
proof -
  have "quarantine_outcome cfg (path_of h) (blake3_to_hex B h) s r s'"
    using quarantine_loop_outcome [OF _ assms(2)] assms(1) operation_path_stem [OF assms(3)]
      to_str_hex [OF to_hex_shape [OF assms(3)]]
    by (fastforce simp: quarantine_blob_def)
  then consider i n where "is_hex_name i"
      "installs (\<lambda>_. True) [(quarantine_path cfg (blake3_to_hex B h) i, Some n), (path_of h, None)] s s'"
    | "quiet (\<lambda>_. True) s s'" "\<exists>e. r = Err e"
    unfolding quarantine_outcome_def by metis
  then show ?thesis
  proof cases
    case 1
    have "entry s' (path_of h') = (if h' = h then None else entry s (path_of h'))"
      if "length h' = 32" for h'
      using installs_entry [OF 1(2), of "path_of h'"]
        quarantine_path_fresh [OF assms(3) that 1(1), symmetric] operation_path_inj [OF that assms(3)]
      by (cases "h' = h") auto
    then show ?thesis by (intro moved [OF 1]) (simp add: canonical_change_def)
  qed (rule kept)
qed

lemma quarantine_change:
  assumes "unix_api U staged target" "length h = 32"
    and "quarantine_blob U cfg (path_of h) s = Some (r, s')"
  shows "canonical_change path_of h s (entry s (path_of h)) s' \<and> (\<exists>e. r = Err e)
    \<or> canonical_change path_of h s None s'"
  using assms(3,1,2) by (cases rule: quarantine_seen) (auto simp: canonical_change_def quiet_same_entries)

end

text \<open>The Unix operations as jobs: the closure of a worker, and the maintenance job, which Unix refuses.\<close>

definition unix_job :: "crc32c_lib \<Rightarrow> 'w unix_lib \<Rightarrow> blake3_lib \<Rightarrow> store_config \<Rightarrow> job" where
  "unix_job C U B cfg now h operation s = run_owned_operation C U cfg (operation_path B cfg h) operation s"

definition unix_sweep :: "string \<Rightarrow> store_config \<Rightarrow> sweep" where
  "unix_sweep OS cfg now minimum_age s =
     (case minimum_age of
        None \<Rightarrow> (Ok cleanup_report_default, s)
      | Some age \<Rightarrow> cleanup_stale_files OS cfg age s)"

text \<open>What a job that returned has done, operation by operation.\<close>

lemma unix_job_cases [consumes 1]:
  assumes "unix_job C U B cfg now h operation s = Some (outcome, chunks, s')"
  obtains (save) payload reply r where "operation = SaveOp payload reply" "outcome = Some (operation, SaveResult r)"
      "save_blob C U cfg (operation_path B cfg h) payload s = (r, s')"
    | (save_stream) declared ms reply r left where "operation = SaveStreamOp declared ms reply"
      "outcome = Some (SaveStreamOp declared left reply, SaveStreamResult r)"
      "save_blob_from_receiver C U cfg (operation_path B cfg h) declared ms s = (r, left, s')"
    | (load) reply r where "operation = LoadOp reply" "outcome = Some (operation, LoadResult r)"
      "load_blob C cfg (operation_path B cfg h) s = (r, s')"
    | (load_stream) accepts acknowledged reply r where "operation = LoadStreamOp (Some (accepts, acknowledged)) reply"
      "outcome = Some (LoadStreamOp None reply, LoadStreamResult r)"
      "load_blob_into_sender C cfg (operation_path B cfg h) accepts acknowledged s = (r, chunks, s')"
    | (taken) reply where "operation = LoadStreamOp None reply" "outcome = None" "s' = s"
    | (clear) reply r where "operation = ClearOp reply" "outcome = Some (operation, ClearResult r)"
      "clear_blob cfg (operation_path B cfg h) s = (r, s')"
    | (inspect) reply r where "operation = InspectOp reply" "outcome = Some (operation, InspectResult r)"
      "inspect_blob cfg (operation_path B cfg h) s = (r, s')"
    | (quarantine) reply r where "operation = QuarantineOp reply" "outcome = Some (operation, QuarantineResult r)"
      "quarantine_blob U cfg (operation_path B cfg h) s = Some (r, s')"
  using assms
  by (cases operation) (auto simp: unix_job_def run_owned_operation_def split: prod.splits option.splits)

locale unix_store = store_paths B cfg + entry_store C cfg "operation_path B cfg" + unix_api U staged target
  for B :: blake3_lib and cfg :: store_config and C :: crc32c_lib and U :: "'w unix_lib"
    and staged :: "'w \<Rightarrow> bytes" and target :: "'w \<Rightarrow> path" +
  fixes OS :: string
begin

lemma save_stream_change:
  assumes "save_blob_from_receiver C U cfg (path_of h) declared ms s = (r, left, s')" "length h = 32"
  shows "canonical_change path_of h s (entry s (path_of h)) s' \<and> (\<exists>e. r = Err e)
    \<or> (\<exists>bs t. encode_envelope C (cfg_format cfg) (stream_payload ms) (cfg_maximum cfg) = Ok bs
         \<and> canonical_change path_of h s (Some (FileNode bs t)) s')"
  using save_stream_outcome [OF crc assms(1)]
proof (elim disjE exE conjE)
  fix e assume "quiet (observable (path_of h)) s s'" "r = Err e"
  then show ?thesis
    by (auto simp: canonical_change_def quiet_entry operation_path_observable [OF assms(2)])
next
  fix chunks rest
  assume ms: "ms = map Chunk chunks @ Complete # rest"
    and o: "save_outcome C cfg (path_of h) (concat chunks) s r s'"
  from save_change [OF conjunct1 [OF save_outcome_entries [OF o]] assms(2)]
  show ?thesis by (auto simp: ms stream_payload_complete)
qed

lemma unix_job_abstractly:
  assumes job: "unix_job C U B cfg now h operation s = Some (Some (operation', result), sent, s')"
    and h: "length h = 32" and reg: "regular_store path_of s"
  shows "abstractly C cfg path_of h operation result s s'"
  using job
proof (cases rule: unix_job_cases)
  case (save payload reply r)
  from save_abstractly [OF save_change [OF conjunct1 [OF save_outcome_entries [OF save_blob_outcome [OF save(3)]]] h] h reg]
  show ?thesis using save(1,2) by simp
next
  case (save_stream declared ms reply r left)
  from save_abstractly [OF save_stream_change [OF save_stream(3) h] h reg] show ?thesis using save_stream(1,2) by simp
next
  case (clear reply r)
  from clear_change [OF clear(3) h] regular_entry [OF reg h] clear(1,2)
  show ?thesis by (intro removal_abstractly [OF _ h reg]) (auto simp: stored_def)
next
  case (quarantine reply r)
  from quarantine_change [OF unix_api_axioms h quarantine(3)] regular_entry [OF reg h] quarantine(1,2)
  show ?thesis by (intro removal_abstractly [OF _ h reg]) (auto simp: stored_def)
qed (use load_abstractly [OF _ h reg] load_stream_abstractly [OF _ h reg] inspect_abstractly [OF _ h reg] in auto)

lemma unix_backend: "blob_backend C cfg path_of (unix_job C U B cfg) (unix_sweep OS cfg)"
proof
  fix now h operation s operation' result sent s'
  show "unix_job C U B cfg now h operation s = Some (Some (operation', result), sent, s') \<Longrightarrow>
      length h = 32 \<Longrightarrow> regular_store path_of s \<Longrightarrow> abstractly C cfg path_of h operation result s s'"
    by (rule unix_job_abstractly)
  show "unix_job C U B cfg now h operation s = Some (Some (operation', result), sent, s') \<Longrightarrow>
      result_matches operation' result \<and> reply_of operation' = reply_of operation \<and> result_matches operation result"
    unfolding unix_job_def by (rule run_owned_operation_matches)
  show "unix_job C U B cfg now h operation s = Some (None, sent, s') \<Longrightarrow> s' = s"
    by (erule unix_job_cases) simp_all
next
  fix now age s r s' h
  show "unix_sweep OS cfg now age s = (r, s') \<Longrightarrow> entry s' (path_of h) = entry s (path_of h)"
    by (auto simp: unix_sweep_def cleanup_stale_files_def split: option.splits)
qed

end

sublocale unix_store \<subseteq> unix: blob_backend C cfg "operation_path B cfg" "unix_job C U B cfg" "unix_sweep OS cfg"
  by (rule unix_backend)

interpretation golden_store: unix_store padded_digest golden_config castagnoli temp_lib tw_bytes tw_target "''linux''"
  by unfold_locales (simp add: golden_config_def golden_wf)

lemma unix_is_backend:
  assumes "unix_api U staged target" "crc32c_api C" "blake3_api B" "wf_format (cfg_format cfg)"
  shows "blob_backend C cfg (operation_path B cfg) (unix_job C U B cfg) (unix_sweep OS cfg)"
  using assms by (intro unix_store.unix_backend)
    (simp add: unix_store_def store_paths_def store_paths_axioms_def entry_store_def)

section \<open>Sequences of operations\<close>

text \<open>C17. The store refines a map from keys to payloads: for any sequence of operations on any keys, with
  any I/O faults, the payloads the files encode are the values of a map that each operation changed the
  way its result says. A successful save, streaming save, clear or quarantine set or removed the value of
  its key and a failed one left the old value or the new one; a load returned the value, a streaming load
  its length; an inspection reported absence only of a missing value; no other key was ever affected,
  and every canonical path stays free of anything but regular files.\<close>

theorem store_refines_map:
  assumes "unix_api U staged target" "crc32c_api C" "blake3_api B" "wf_format (cfg_format cfg)"
    and "regular_store (operation_path B cfg) s" "store_run (unix_job C U B cfg) s hist s'"
  shows "map_run (store_view C cfg (operation_path B cfg) s) hist (store_view C cfg (operation_path B cfg) s')
    \<and> regular_store (operation_path B cfg) s'"
proof -
  have "blob_backend C cfg (operation_path B cfg) (unix_job C U B cfg) (unix_sweep [] cfg)"
    by (rule unix_is_backend [OF assms(1-4)])
  from blob_backend.store_run_map_run [OF this assms(6,5)] show ?thesis .
qed

definition zero_key :: key where
  "zero_key = replicate 32 0"

lemma zero_operation_path: "operation_path padded_digest golden_config zero_key = zero_path"
  by (simp add: operation_path_def zero_path_def zero_key_def) (simp add: golden_config_def)

definition zero_cleared :: fs where
  "zero_cleared = zero_fs\<lparr>fs_log := [SyncDir ''/store/blobs'', Update [(zero_path, None)]]\<rparr>"

lemma zero_regular: "regular_store (operation_path padded_digest golden_config) zero_fs"
proof -
  have "entry zero_fs (operation_path padded_digest golden_config h) = None" if "length h = 32" "h \<noteq> zero_key" for h
  proof -
    have ne: "operation_path padded_digest golden_config h \<noteq> zero_path"
      using golden_paths.operation_path_inj [of h zero_key] that zero_operation_path
      by (auto simp: zero_key_def)
    have "length (operation_path padded_digest golden_config h) = 82"
      using padded_digest.blob_file_plain [OF golden_wf that(1)] that(1)
      by (simp add: operation_path_def golden_config_def path_join_plain)
         (simp add: blob_file_def padded_digest_def golden_format_def)
    then have "operation_path padded_digest golden_config h \<noteq> ''/store''"
      "operation_path padded_digest golden_config h \<noteq> ''/store/blobs''" by auto
    with ne show ?thesis by (simp add: zero_fs_def demo_fs_def entry_def)
  qed
  moreover have "file_or_none (entry zero_fs (operation_path padded_digest golden_config zero_key))"
    using zero_entries(1) by (simp add: zero_operation_path file_or_none_def)
  ultimately show ?thesis unfolding regular_store_def by (metis file_or_none_simps(1))
qed

lemma zero_clear: "clear_blob golden_config zero_path zero_fs = (Ok (), zero_cleared)"
  by (simp add: clear_blob_def fs_remove_file_def syscall_def sync_directory_def file_open_def
      resolve_dir open_node_def sync_all_def)
     (simp add: zero_cleared_def record_event_def zero_fs_def demo_fs_def)

lemma zero_run:
  "store_run (unix_job castagnoli temp_lib padded_digest golden_config) zero_fs
     [(zero_key, ClearOp 0, ClearResult (Ok ()))] zero_cleared"
proof (rule store_run_Cons [OF _ _ store_run_Nil])
  show "unix_job castagnoli temp_lib padded_digest golden_config 0 zero_key (ClearOp 0) zero_fs
      = Some (Some (ClearOp 0, ClearResult (Ok ())), [], zero_cleared)"
    by (simp add: unix_job_def run_owned_operation_def zero_operation_path zero_clear)
qed (simp add: zero_key_def)

theorem store_refines_map_witness:
  "map_run (store_view castagnoli golden_config (operation_path padded_digest golden_config) zero_fs)
     [(zero_key, ClearOp 0, ClearResult (Ok ()))] (store_view castagnoli golden_config (operation_path padded_digest golden_config) zero_cleared)"
  using store_refines_map [OF temp.unix_api_axioms castagnoli.crc32c_api_axioms
      padded_digest.blake3_api_axioms _ zero_regular zero_run] golden_wf
  by (simp add: golden_config_def)

end
