(* ===== verification/FacadeProps.thy ===== *)
theory FacadeProps
  imports Facades OperationProps
begin

text \<open>
  The streaming methods of the facades: what a save from a reader sends and when it completes, and what a
  load hands to a writer.
\<close>

section \<open>The messages of a save\<close>

lemma tokio_pump_never_ready: "tokio_pump [] accepts declared read r = blocking_pump accepts declared read r"
proof (induction accepts declared read r rule: blocking_pump.induct)
  case (1 accepts declared read r)
  show ?case
  proof (cases "read < declared")
    case False
    then show ?thesis
      by (simp add: tokio_pump.simps [of "[]" accepts declared read r] result_ready_def
          blocking_pump.simps [of accepts declared read r])
  next
    case True
    obtain got r' where c: "read_call (chunk_request (declared - read)) r = (got, r')" by fastforce
    show ?thesis
    proof (cases got)
      case (Inl e)
      with True c show ?thesis
        by (simp add: tokio_pump.simps [of "[]" accepts declared read r] result_ready_def
            blocking_pump.simps [of accepts declared read r])
    next
      case (Inr chunk)
      with True c "1.IH" show ?thesis
        by (simp add: tokio_pump.simps [of "[]" accepts declared read r] result_ready_def
            blocking_pump.simps [of accepts declared read r])
    qed
  qed
qed

lemma read_call_end:
  assumes "read_call n r = (Ok [], r')" "0 < n"
  shows "rd_rest r = []"
  using assms by (auto simp: read_call_def Let_def split: list.splits read_answer.splits)

definition pumped :: "u64 \<Rightarrow> nat \<Rightarrow> bytes \<Rightarrow> pump_end \<Rightarrow> save_stream_message list \<Rightarrow> bool" where
  "pumped declared before rest ending messages \<longleftrightarrow> (\<exists>chunks. prefix (concat chunks) rest
     \<and> (\<forall>chunk \<in> set chunks. chunk \<noteq> [] \<and> length chunk \<le> STREAM_CHUNK_SIZE)
     \<and> (messages = map Chunk chunks
        \<or> messages = map Chunk chunks @ [Complete] \<and> ending = Awaits \<and> concat chunks = rest
          \<and> before + length rest = unat declared))"

lemma pumped_Nil: "pumped declared before rest ending []"
  unfolding pumped_def by (rule exI [of _ "[]"]) simp

lemma pumped_Cons:
  assumes "pumped declared (before + length chunk) rest ending messages"
    "chunk \<noteq> []" "length chunk \<le> STREAM_CHUNK_SIZE"
  shows "pumped declared before (chunk @ rest) ending (Chunk chunk # messages)"
proof -
  obtain chunks where "prefix (concat chunks) rest"
    "\<forall>chunk \<in> set chunks. chunk \<noteq> [] \<and> length chunk \<le> STREAM_CHUNK_SIZE"
    "messages = map Chunk chunks
        \<or> messages = map Chunk chunks @ [Complete] \<and> ending = Awaits \<and> concat chunks = rest
          \<and> before + length chunk + length rest = unat declared"
    using assms(1) by (auto simp: pumped_def)
  then show ?thesis
    unfolding pumped_def using assms(2,3) by (intro exI [of _ "chunk # chunks"]) auto
qed

lemma tokio_pump_pumped:
  "tokio_pump polls accepts declared read r = (ending, messages, r') \<Longrightarrow> read \<le> declared \<Longrightarrow>
     pumped declared (unat read) (rd_rest r) ending messages"
proof (induction polls accepts declared read r arbitrary: messages rule: tokio_pump.induct)
  case (1 polls accepts declared read r)
  note unfold = tokio_pump.simps [of polls accepts declared read r]
  show ?case
  proof (cases "result_ready polls")
    case True
    with "1.prems" show ?thesis by (simp add: unfold pumped_Nil)
  next
    case False
    show ?thesis
    proof (cases "read < declared")
      case at_end: False
      with "1.prems" have e: "read = declared" by simp
      obtain got r1 where c: "read_call 1 r = (got, r1)" by fastforce
      have t: "probe_trailing accepts declared r = (ending, messages, r')"
        using "1.prems" False at_end by (simp add: unfold)
      show ?thesis
      proof (cases "got = Ok [] \<and> messages = [Complete]")
        case True
        then have "rd_rest r = []" using read_call_end [of 1 r r1] c by simp
        with True t c e show ?thesis
          by (auto simp: probe_trailing_def pumped_def split: if_splits intro!: exI [of _ "[]"])
      next
        case other: False
        then have "messages = []"
          using t c by (auto simp: probe_trailing_def split: sum.splits list.splits if_splits)
        then show ?thesis by (simp add: pumped_Nil)
      qed
    next
      case True
      obtain got r1 where c: "read_call (chunk_request (declared - read)) r = (got, r1)" by fastforce
      show ?thesis
      proof (cases "\<exists>chunk. got = Ok chunk \<and> chunk \<noteq> [] \<and> accepts_send accepts")
        case no: False
        then have "messages = []"
          using "1.prems"(1) False True c by (auto simp: unfold split: sum.splits if_splits)
        then show ?thesis by (simp add: pumped_Nil)
      next
        case yes: True
        then obtain chunk where g: "got = Ok chunk" "chunk \<noteq> []" "accepts_send accepts" by blast
        obtain ms where rec: "tokio_pump (drop 1 polls) (after_send accepts) declared
            (read + of_nat (length chunk)) r1 = (ending, ms, r')" and m: "messages = Chunk chunk # ms"
          using "1.prems"(1) False True c g by (auto simp: unfold split: prod.splits)
        note p = read_progress [OF True c [unfolded g(1)]]
        note rc = read_call_Ok [OF c [unfolded g(1)]]
        from g(3) have "\<not> \<not> accepts_send accepts" by simp
        from "1.IH" [OF False True c [symmetric] g(1,2) this rec p(3)]
        have "pumped declared (unat read + length chunk) (rd_rest r1) ending ms" using p(2) by simp
        moreover have "rd_rest r = chunk @ rd_rest r1"
          using rc by (metis append_take_drop_id)
        ultimately show ?thesis using pumped_Cons [OF _ g(2) p(4)] m by simp
      qed
    qed
  qed
qed

lemma blocking_pump_pumped:
  "blocking_pump accepts declared 0 r = (ending, messages, r') \<Longrightarrow> pumped declared 0 (rd_rest r) ending messages"
  using tokio_pump_pumped [of "[]" accepts declared 0 r ending messages r'] by (simp add: tokio_pump_never_ready)

lemma chunks_unique:
  "ms = map Chunk chunks @ Complete # rest \<Longrightarrow> ms = map Chunk chunks' @ [Complete] \<Longrightarrow> chunks = chunks'"
proof (induction chunks arbitrary: chunks' ms)
  case Nil
  then show ?case by (cases chunks') auto
next
  case (Cons c chunks)
  then show ?case by (cases chunks') auto
qed

section \<open>Saving from a reader\<close>

text \<open>A streaming save by either facade: its messages are what the worker receives.\<close>

definition save_from_run ::
  "blake3_lib \<Rightarrow> store_config \<Rightarrow> lifecycle \<Rightarrow> bool \<Rightarrow> lifecycle \<Rightarrow> bytes \<Rightarrow> bool list option \<Rightarrow> nat option \<Rightarrow> reader
     \<Rightarrow> u64 \<Rightarrow> reply \<Rightarrow> lifecycle \<Rightarrow> (reply \<Rightarrow> unit store_result option) \<Rightarrow> coordinator_join
     \<Rightarrow> (unit store_result \<times> coordinator_join) option \<times> coordinator_event list \<times> reader" where
  "save_from_run B cfg seen alive state key polls accepts reader declared_len r later received j =
     (case polls of
        None \<Rightarrow> blocking_save_from B cfg seen alive state key accepts reader declared_len r later received j
      | Some polls \<Rightarrow>
          tokio_save_from B cfg seen alive state key polls accepts reader declared_len r later received j)"

lemma start_save_stream_result:
  assumes "start_save_stream B cfg seen alive state key declared ms r = (Ok p, events)"
  shows "p = pending_new (Replies r) \<and> events = [Submission (key_hash B key) (SaveStreamOp declared ms r)]"
  using assms
  by (cases seen; cases state)
     (auto simp: start_save_stream_def submit_operation_def split: if_splits)

lemma start_save_stream_refused:
  assumes "start_save_stream B cfg seen alive state key declared ms r = (Err e, events)"
  shows "events = []"
  using assms
  by (cases seen; cases state)
     (auto simp: start_save_stream_def submit_operation_def split: if_splits)

lemma save_from_run_cases:
  assumes "save_from_run B cfg seen alive state key polls accepts reader declared r later received j
      = (Some (result, j'), events, reader')"
  obtains (refused) e where "events = []" "result = Err e" "reader' = reader"
  | (sent) ending ms where "events = [Submission (key_hash B key) (SaveStreamOp declared ms r)]"
      "pumped declared 0 (rd_rest reader) ending ms"
      "result = (case ending of Rejected error \<Rightarrow> Err error | Awaits \<Rightarrow> or_else (received r) (Err EngineFailed))"
proof -
  obtain ending ms r1 where pump: "(case polls of None \<Rightarrow> blocking_pump accepts declared 0 reader
      | Some polls \<Rightarrow> tokio_pump polls accepts declared 0 reader) = (ending, ms, r1)"
    by (metis prod_cases3)
  then have p: "pumped declared 0 (rd_rest reader) ending ms"
    using blocking_pump_pumped tokio_pump_pumped [of _ accepts declared 0 reader] by (auto split: option.splits)
  obtain st ev where start: "start_save_stream B cfg seen alive state key declared ms r = (st, ev)" by fastforce
  have run: "(Some (result, j'), events, reader') = (case st of Err error \<Rightarrow> (Some (Err error, j), ev, reader)
      | Ok p \<Rightarrow> (finish_pump ending p later received j, ev, r1))"
    using assms pump start
    by (auto simp: save_from_run_def blocking_save_from_def tokio_save_from_def split: option.splits sum.splits)
  show thesis
  proof (cases st)
    case (Inl e)
    with run start_save_stream_refused start show thesis by (intro refused) auto
  next
    case (Inr q)
    from start_save_stream_result [OF start [unfolded Inr]] run Inr show thesis
      by (intro sent [OF _ p]) (auto simp: finish_pump_def wait_def pending_new_def)
  qed
qed

text \<open>C21. A streaming save through either facade stores the whole rest of its reader or nothing: whatever the
  reader, the channel and the file system do, the job changes an observable entry only when the reader
  ended exactly after the declared length, and then only to the envelope of what it delivered; the
  method reports success only in that case, and it sends nothing else to the engine.\<close>

theorem save_from_all_or_nothing:
  assumes "unix_api U staged target" "crc32c_api C"
    and "save_from_run B cfg seen alive state key polls accepts reader declared r later received j
      = (Some (result, j'), events, reader')"
    and "events = [] \<and> s' = s
      \<or> (\<exists>ms job left. events = [Submission (key_hash B key) (SaveStreamOp declared ms r)]
           \<and> save_blob_from_receiver C U cfg p declared ms s = (job, left, s')
           \<and> received r = Some job)"
  shows "crash_safe p s s'
    \<and> ((\<forall>q. observable p q \<longrightarrow> entry s' q = entry s q) \<and> (\<exists>e. result = Err e)
       \<or> length (rd_rest reader) = unat declared \<and> old_or_new C cfg p (rd_rest reader) s result s')"
  using assms(3)
proof (cases rule: save_from_run_cases)
  case (refused e)
  with assms(4) show ?thesis using quiet_crash_safe [OF quiet_refl] by auto
next
  case (sent ending ms)
  with assms(4) obtain job left where job: "save_blob_from_receiver C U cfg p declared ms s = (job, left, s')"
    "received r = Some job" by auto
  have result: "result = (case ending of Rejected error \<Rightarrow> Err error | Awaits \<Rightarrow> job)"
    using sent(3) job(2) by (simp add: or_else_def split: pump_end.split)
  from unix_api.save_stream_outcome [OF assms(1,2) job(1)] show ?thesis
  proof
    assume "quiet (observable p) s s' \<and> (\<exists>e. job = Err e)"
    with result show ?thesis using quiet_crash_safe quiet_entry by (auto split: pump_end.splits)
  next
    assume "\<exists>chunks rest. ms = map Chunk chunks @ Complete # rest \<and> length (concat chunks) = unat declared
        \<and> save_outcome C cfg p (concat chunks) s job s'"
    then obtain chunks rest where c: "ms = map Chunk chunks @ Complete # rest"
      "save_outcome C cfg p (concat chunks) s job s'" by blast
    from sent(2) obtain chunks' where m: "ms = map Chunk chunks'
        \<or> ms = map Chunk chunks' @ [Complete] \<and> ending = Awaits \<and> concat chunks' = rd_rest reader
          \<and> length (rd_rest reader) = unat declared" by (auto simp: pumped_def)
    have "Complete \<in> set ms" using c(1) by simp
    then have m': "ms = map Chunk chunks' @ [Complete]" "ending = Awaits" "concat chunks' = rd_rest reader"
      "length (rd_rest reader) = unat declared" using m by auto
    have "chunks = chunks'"
      using c(1) m'(1) by (rule chunks_unique)
    with c(2) m' result save_outcome_entries show ?thesis by auto
  qed
qed

lemma demo_pump:
  "blocking_pump None 3 0 (cursor [0x61,0x62,0x63])
     = (Awaits, [Chunk [0x61,0x62,0x63], Complete], (cursor [0x61,0x62,0x63])\<lparr>rd_pos := 3\<rparr>)"
proof -
  have "blocking_pump None 3 3 \<lparr>rd_content = [0x61,0x62,0x63], rd_pos = Suc (Suc (Suc 0)), rd_script = []\<rparr>
      = (Awaits, [Complete], (cursor [0x61,0x62,0x63])\<lparr>rd_pos := 3\<rparr>)"
    by (simp add: blocking_pump.simps [of None 3 3] probe_trailing_def accepts_send_def read_call_def
        cursor_def rd_rest_def)
  then show ?thesis
    by (simp add: blocking_pump.simps [of None 3 0] accepts_send_def after_send_def read_call_def
        cursor_def rd_rest_def chunk_request_def STREAM_CHUNK_SIZE_def Let_def)
qed

lemma save_from_all_or_nothing_witness:
  "old_or_new castagnoli golden_config demo_path [0x61,0x62,0x63] demo_fs (Ok ()) demo_saved"
proof -
  have "save_from_run padded_digest golden_config Open True Open [7] None None (cursor [0x61,0x62,0x63]) 3 0
      Open (\<lambda>_. Some (Ok ())) (coordinator_join_new False)
    = (Some (Ok (), coordinator_join_new False),
       [Submission (key_hash padded_digest [7]) (SaveStreamOp 3 [Chunk [0x61,0x62,0x63], Complete] 0)],
       (cursor [0x61,0x62,0x63])\<lparr>rd_pos := 3\<rparr>)"
    by (simp add: save_from_run_def blocking_save_from_def demo_pump start_save_stream_def
        submit_operation_def golden_config_def finish_pump_def wait_def pending_new_def or_else_def)
  from save_from_all_or_nothing [OF temp.unix_api_axioms castagnoli.crc32c_api_axioms this] demo_stream_save
  have "(\<forall>q. observable demo_path q \<longrightarrow> entry demo_saved q = entry demo_fs q) \<and> (\<exists>e. Ok () = Err e)
      \<or> old_or_new castagnoli golden_config demo_path [0x61,0x62,0x63] demo_fs (Ok ()) demo_saved"
    by fastforce
  then show ?thesis by auto
qed

lemma blocking_pump_verdict:
  "accepts = None \<Longrightarrow> no_faults r \<Longrightarrow> read \<le> declared \<Longrightarrow>
     fst (blocking_pump accepts declared read r)
       = (if unat read + length (rd_rest r) < unat declared
          then Rejected (InputEndedEarly declared (read + of_nat (length (rd_rest r))))
          else if unat declared < unat read + length (rd_rest r) then Rejected (InputHasTrailingData declared)
          else Awaits)
     \<and> (unat read + length (rd_rest r) = unat declared \<longrightarrow>
          (\<exists>chunks. fst (snd (blocking_pump accepts declared read r)) = map Chunk chunks @ [Complete]
             \<and> concat chunks = rd_rest r))"
proof (induction accepts declared read r rule: blocking_pump.induct)
  case (1 accepts declared read r)
  have open': "accepts_send accepts" "after_send accepts = None"
    using "1.prems"(1) by (simp_all add: accepts_send_def after_send_def)
  then have acc: "\<not> \<not> accepts_send accepts" "after_send accepts = None" by simp_all
  show ?case
  proof (cases "read < declared")
    case False
    then have e: "read = declared" using "1.prems"(3) by simp
    obtain got r' where c: "read_call 1 r = (Ok got, r')" "no_faults r'"
      by (rule read_call_no_faults [OF "1.prems"(2)])
    have g: "got = take 1 (rd_rest r)"
      using c(1) read_call_Ok [OF c(1)] read_call_end [of 1 r r']
      by (cases got) (auto simp: take_Suc split: list.splits)
    have b: "blocking_pump accepts declared read r = (case got of [] \<Rightarrow> (Awaits, [Complete], r')
        | _ \<Rightarrow> (Rejected (InputHasTrailingData declared), [], r'))"
      using False c(1) by (simp add: blocking_pump.simps [of accepts declared read r] probe_trailing_def
          open'(1) split: list.split)
    show ?thesis
      using g e by (cases "rd_rest r") (auto simp: b [unfolded e] intro!: exI [of _ "[]"])
  next
    case True
    obtain got r' where c: "read_call (chunk_request (declared - read)) r = (Ok got, r')" "no_faults r'"
      by (rule read_call_no_faults [OF "1.prems"(2)])
    note p = read_progress [OF True c(1)]
    note rc = read_call_Ok [OF c(1)]
    have q: "0 < chunk_request (declared - read)"
      using True by (intro chunk_request_bounds(1)) auto
    show ?thesis
    proof (cases "got = []")
      case Nil: True
      then have "rd_rest r = []" using read_call_end [of _ r r'] c(1) q by simp
      with True c(1) Nil show ?thesis
        by (simp add: blocking_pump.simps [of accepts declared read r] word_less_nat_alt)
    next
      case False
      have split: "rd_rest r = got @ rd_rest r'" using rc by (metis append_take_drop_id)
      have b: "blocking_pump accepts declared read r = (case blocking_pump (after_send accepts) declared (read + of_nat (length got)) r'
          of (ending, messages, r) \<Rightarrow> (ending, Chunk got # messages, r))"
        using True c(1) False
        by (simp add: blocking_pump.simps [of accepts declared read r] open'(1))
      from "1.IH" [OF True c(1) [symmetric] refl False acc c(2) p(3)]
      have ih: "fst (blocking_pump (after_send accepts) declared (read + of_nat (length got)) r')
          = (if unat read + length (rd_rest r) < unat declared
             then Rejected (InputEndedEarly declared (read + of_nat (length (rd_rest r))))
             else if unat declared < unat read + length (rd_rest r) then Rejected (InputHasTrailingData declared)
             else Awaits)"
        "unat read + length (rd_rest r) = unat declared \<longrightarrow>
          (\<exists>chunks. fst (snd (blocking_pump (after_send accepts) declared (read + of_nat (length got)) r')) = map Chunk chunks @ [Complete]
             \<and> concat chunks = rd_rest r')"
        by (simp_all add: p(2) split ac_simps)
      show ?thesis
      proof
        show "fst (blocking_pump accepts declared read r)
          = (if unat read + length (rd_rest r) < unat declared
             then Rejected (InputEndedEarly declared (read + of_nat (length (rd_rest r))))
             else if unat declared < unat read + length (rd_rest r) then Rejected (InputHasTrailingData declared)
             else Awaits)"
          unfolding ih(1) [symmetric] b by (simp split: prod.split)
        show "unat read + length (rd_rest r) = unat declared \<longrightarrow>
          (\<exists>chunks. fst (snd (blocking_pump accepts declared read r)) = map Chunk chunks @ [Complete]
             \<and> concat chunks = rd_rest r)"
        proof
          assume "unat read + length (rd_rest r) = unat declared"
          with ih(2) obtain chunks where "fst (snd (blocking_pump (after_send accepts) declared (read + of_nat (length got)) r'))
              = map Chunk chunks @ [Complete]" "concat chunks = rd_rest r'" by blast
          then show "\<exists>chunks. fst (snd (blocking_pump accepts declared read r)) = map Chunk chunks @ [Complete]
             \<and> concat chunks = rd_rest r"
            unfolding b using split by (intro exI [of _ "got # chunks"]) (auto split: prod.split)
        qed
      qed
    qed
  qed
qed

text \<open>When the reader does not fail and the stream is not cut off, the result of a streaming save is decided
  by the amount of data: less than declared is \<open>InputEndedEarly\<close> with the amount, more is
  \<open>InputHasTrailingData\<close>, and exactly the declared amount is sent completely, so that the result of the
  operation is returned. The Tokio facade agrees as long as no poll finds the result early.\<close>

theorem save_from_reports_input:
  assumes "no_faults reader" "declared \<le> cfg_maximum cfg"
  shows "fst (blocking_save_from B cfg Open True Open key None reader declared r later received j)
      = Some (if length (rd_rest reader) < unat declared
              then Err (InputEndedEarly declared (of_nat (length (rd_rest reader))))
              else if unat declared < length (rd_rest reader) then Err (InputHasTrailingData declared)
              else or_else (received r) (Err EngineFailed), j)
    \<and> tokio_save_from B cfg Open True Open key [] None reader declared r later received j
      = blocking_save_from B cfg Open True Open key None reader declared r later received j"
proof
  obtain ending ms r1 where pump: "blocking_pump None declared 0 reader = (ending, ms, r1)" by (metis prod_cases3)
  have "ending = (if length (rd_rest reader) < unat declared
          then Rejected (InputEndedEarly declared (of_nat (length (rd_rest reader))))
          else if unat declared < length (rd_rest reader) then Rejected (InputHasTrailingData declared)
          else Awaits)"
    using blocking_pump_verdict [OF refl assms(1), of 0 declared] pump by simp
  then show "fst (blocking_save_from B cfg Open True Open key None reader declared r later received j)
      = Some (if length (rd_rest reader) < unat declared
              then Err (InputEndedEarly declared (of_nat (length (rd_rest reader))))
              else if unat declared < length (rd_rest reader) then Err (InputHasTrailingData declared)
              else or_else (received r) (Err EngineFailed), j)"
    using assms(2)
    by (simp add: blocking_save_from_def pump start_save_stream_def submit_operation_def linorder_not_le [symmetric]
        finish_pump_def wait_def pending_new_def)
  show "tokio_save_from B cfg Open True Open key [] None reader declared r later received j
      = blocking_save_from B cfg Open True Open key None reader declared r later received j"
    by (simp add: tokio_save_from_def blocking_save_from_def tokio_pump_never_ready)
qed

lemma save_from_reports_input_witness:
  "fst (blocking_save_from padded_digest golden_config Open True Open [7] None (cursor [0x61,0x62,0x63]) 5 0
      Open (\<lambda>_. Some (Ok ())) (coordinator_join_new False))
    = Some (Err (InputEndedEarly 5 3), coordinator_join_new False)"
  using save_from_reports_input [of "cursor [0x61,0x62,0x63]" 5 golden_config padded_digest "[7]" 0 Open
      "\<lambda>_. Some (Ok ())" "coordinator_join_new False"]
  by (simp add: golden_config_def)

section \<open>Loading into a writer\<close>

context byte_sink
begin

lemma write_chunks_contents:
  "write_chunks write_all chunks s = (failed, s') \<Longrightarrow>
     \<exists>k. contents s' = contents s @ take k (concat chunks) \<and> (failed = None \<longrightarrow> length (concat chunks) \<le> k)"
proof (induction chunks arbitrary: s)
  case Nil
  then show ?case by simp
next
  case (Cons chunk chunks)
  obtain o1 s1 where w: "write_all chunk s = (o1, s1)" by fastforce
  show ?case
  proof (cases o1)
    case (Inl e)
    then obtain k where "contents s1 = contents s @ take k chunk" using write_Err w by blast
    then have "contents s1 = contents s @ take (min k (length chunk)) (concat (chunk # chunks))"
      by (simp add: min_def)
    with Cons.prems w Inl show ?thesis
      by (intro exI [of _ "min k (length chunk)"]) auto
  next
    case (Inr u)
    then have c: "contents s1 = contents s @ chunk" using write_Ok w by blast
    from Cons.prems w Inr have "write_chunks write_all chunks s1 = (failed, s')" by simp
    from Cons.IH [OF this] obtain k where
      "contents s' = contents s1 @ take k (concat chunks)" "failed = None \<longrightarrow> length (concat chunks) \<le> k" by blast
    with c show ?thesis by (intro exI [of _ "length chunk + k"]) auto
  qed
qed

end

text \<open>A load through either facade.\<close>

definition load_into_run ::
  "bool \<Rightarrow> blake3_lib \<Rightarrow> lifecycle \<Rightarrow> bool \<Rightarrow> lifecycle \<Rightarrow> bytes \<Rightarrow> nat \<times> bool \<Rightarrow> bytes list \<Rightarrow> 's write_all \<Rightarrow> 's \<Rightarrow> reply
     \<Rightarrow> lifecycle \<Rightarrow> (reply \<Rightarrow> blob_metadata option store_result option) \<Rightarrow> coordinator_join
     \<Rightarrow> (blob_metadata option store_result \<times> coordinator_join) option \<times> coordinator_event list \<times> 's" where
  "load_into_run on_tokio B seen alive state key channels chunks write w r later received j =
     (if on_tokio then tokio_load_into B seen alive state key channels chunks write w r later received j
      else blocking_load_into B seen alive state key channels chunks write w r later received j)"

lemma start_load_stream_cases:
  obtains (refused) e where "start_load_stream B seen alive state key channels r = (Err e, [])"
  | (sent) "start_load_stream B seen alive state key channels r
        = (Ok (pending_new (Replies r)), [Submission (key_hash B key) (LoadStreamOp (Some channels) r)])"
  by (cases seen; cases state; cases alive) (simp_all add: start_load_stream_def submit_operation_def)

lemma load_into_run_cases:
  assumes "load_into_run on_tokio B seen alive state key channels chunks write w r later received j
      = (Some (result, j'), events, w')"
  obtains (refused) e where "events = []" "result = Err e" "w' = w"
  | (sent) failed where "events = [Submission (key_hash B key) (LoadStreamOp (Some channels) r)]"
      "write_chunks write chunks w = (failed, w')"
      "result = (case failed of Some source \<Rightarrow> Err (OutputIo source) | None \<Rightarrow> or_else (received r) (Err EngineFailed))"
proof (cases rule: start_load_stream_cases [of B seen alive state key channels r])
  case (refused e)
  with assms show thesis
    by (intro that(1)) (auto simp: load_into_run_def tokio_load_into_def blocking_load_into_def split: if_splits)
next
  case sent
  obtain failed w1 where "write_chunks write chunks w = (failed, w1)" by fastforce
  with sent assms show thesis
    by (intro that(2) [of failed]) (auto simp: load_into_run_def tokio_load_into_def blocking_load_into_def
        finish_load_def wait_def pending_new_def split: if_splits)
qed

text \<open>C22. A load into a writer through either facade, with the job its submission becomes in the worker, whatever
  the writer, the channel and the file system do: the writer is given bytes of the stored payload only, in
  order and only after the whole file has been validated; success means that the writer has taken all of
  the payload and reports its length; a write that fails is reported as \<open>OutputIo\<close>, and a call that submits
  nothing fails and writes nothing. Conversely the load succeeds when the calls of the worker meet no
  fault, the file is the envelope of a payload, and the channel and the writer take all of it.\<close>

theorem load_into_delivers:
  assumes "byte_sink write contents" "crc32c_api C" "wf_format (cfg_format cfg)"
    and "entry s (operation_path B cfg (key_hash B key)) = Some (FileNode bs t)"
    and "load_into_run on_tokio B seen alive state key (sends, acknowledges write chunks w) chunks write w r later received j
      = (Some (result, j'), events, w')"
    and "events = []
      \<or> (\<exists>k operation operation' job s'. events = [Submission k operation]
           \<and> unix_job C U B cfg now k operation s = Some (Some (operation', LoadStreamResult job), chunks, s')
           \<and> received r = Some job)"
  shows "(\<exists>k payload. contents w' = contents w @ take k payload
        \<and> (contents w' \<noteq> contents w \<longrightarrow> encode_envelope C (cfg_format cfg) payload (cfg_maximum cfg) = Ok bs))
    \<and> (\<forall>m. result = Ok (Some m) \<longrightarrow> (\<exists>payload. encode_envelope C (cfg_format cfg) payload (cfg_maximum cfg) = Ok bs
          \<and> contents w' = contents w @ payload \<and> unat (payload_len m) = length payload))
    \<and> (if events = [] then w' = w \<and> (\<exists>e. result = Err e)
       else \<not> acknowledges write chunks w \<longrightarrow> (\<exists>source. result = Err (OutputIo source)))
    \<and> (\<forall>payload. events \<noteq> [] \<and> calm s \<and> encode_envelope C (cfg_format cfg) payload (cfg_maximum cfg) = Ok bs
          \<and> length payload \<le> sends * STREAM_CHUNK_SIZE \<and> acknowledges write chunks w
        \<longrightarrow> result = Ok (Some \<lparr>payload_len = of_nat (length payload)\<rparr>) \<and> contents w' = contents w @ payload)"
  using assms(5)
proof (cases rule: load_into_run_cases)
  case (refused e)
  then show ?thesis by (auto intro: exI [of _ 0])
next
  case (sent failed)
  let ?p = "operation_path B cfg (key_hash B key)" and ?a = "acknowledges write chunks w"
  from assms(6) sent(1) obtain job s' where
    job: "load_blob_into_sender C cfg ?p sends ?a s = (job, chunks, s')" "received r = Some job"
    by (auto simp: unix_job_def run_owned_operation_def split: prod.splits)
  have a: "?a \<longleftrightarrow> failed = None" using sent(2) by (simp add: acknowledges_def)
  have result: "result = (case failed of Some source \<Rightarrow> Err (OutputIo source) | None \<Rightarrow> job)"
    using sent(3) job(2) by (simp add: or_else_def split: option.split)
  note stream = load_stream_sent [OF assms(2-4) job(1)]
  from byte_sink.write_chunks_contents [OF assms(1) sent(2)] obtain k where
    k: "contents w' = contents w @ take k (concat chunks)" "failed = None \<longrightarrow> length (concat chunks) \<le> k" by blast
  have given: "\<exists>k payload. contents w' = contents w @ take k payload
      \<and> (contents w' \<noteq> contents w \<longrightarrow> encode_envelope C (cfg_format cfg) payload (cfg_maximum cfg) = Ok bs)"
  proof (cases "contents w' = contents w")
    case True
    then show ?thesis by (intro exI [of _ 0]) simp
  next
    case False
    then have "chunks \<noteq> []" using k(1) by auto
    with stream obtain payload where p: "encode_envelope C (cfg_format cfg) payload (cfg_maximum cfg) = Ok bs"
      "prefix (concat chunks) payload" by blast
    then have "take k (concat chunks) = take (min k (length (concat chunks))) payload"
      by (auto simp: prefix_def min_def)
    with k(1) p(1) show ?thesis by auto
  qed
  have all: "\<exists>payload. encode_envelope C (cfg_format cfg) payload (cfg_maximum cfg) = Ok bs
      \<and> contents w' = contents w @ payload \<and> unat (payload_len m) = length payload" if ok: "result = Ok (Some m)" for m
  proof -
    have f: "failed = None" "job = Ok (Some m)" using ok result by (auto split: option.splits)
    with stream [of m] k show ?thesis by auto
  qed
  have "result = Ok (Some \<lparr>payload_len = of_nat (length payload)\<rparr>) \<and> contents w' = contents w @ payload"
    if "calm s" "encode_envelope C (cfg_format cfg) payload (cfg_maximum cfg) = Ok bs"
      "length payload \<le> sends * STREAM_CHUNK_SIZE" ?a for payload
  proof -
    have "job = Ok (Some \<lparr>payload_len = of_nat (length payload)\<rparr>)"
      using load_stream_complete [OF assms(2,3) that(1) assms(4) that(2,3)] job(1) that(4) by simp
    with result a that(4) have r: "result = Ok (Some \<lparr>payload_len = of_nat (length payload)\<rparr>)" by simp
    obtain q where "encode_envelope C (cfg_format cfg) q (cfg_maximum cfg) = Ok bs" "contents w' = contents w @ q"
      using all [OF r] by blast
    moreover have "length (domain_tag (cfg_format cfg)) = 8" using assms(3) by (simp add: wf_format_def)
    note parse = crc32c_api.parse_iff_encode [OF assms(2) this, symmetric]
    ultimately show ?thesis using r that(2) by (simp add: parse)
  qed
  with given all sent(1) result a show ?thesis by (auto split: option.splits)
qed

text \<open>The demonstration file, at the canonical path of the key, is loaded into a vector by either facade.\<close>

definition stored_path :: path where
  "stored_path = operation_path padded_digest golden_config (key_hash padded_digest [7])"

definition stored_fs :: fs where
  "stored_fs = demo_fs\<lparr>fs_base := (fs_base demo_fs)(stored_path \<mapsto> FileNode golden_valid None)\<rparr>"

lemma stored_load:
  "load_blob_into_sender castagnoli golden_config stored_path 1 True stored_fs
     = (Ok (Some \<lparr>payload_len = 3\<rparr>), [[0x61,0x62,0x63]], stored_fs)"
proof -
  have e: "entry stored_fs stored_path = Some (FileNode golden_valid None)"
    by (simp add: entry_def stored_fs_def demo_fs_def)
  have f: "fs_faults stored_fs = []" "fs_scripts stored_fs = []" by (simp_all add: stored_fs_def demo_fs_def)
  have o: "file_open stored_path stored_fs
      = (Ok \<lparr>fh_path = stored_path, fh_reader = file_reader golden_valid []\<rparr>, stored_fs)"
    by (simp add: file_open_def syscall_def resolve_file [OF e] open_node_def f)
  have sp: "send_payload 3 (Suc 0) \<lparr>rd_content = golden_valid, rd_pos = 18, rd_script = []\<rparr>
      = (Ok (), [[0x61,0x62,0x63]])"
    by (simp add: send_payload.simps read_section_def read_exact.simps read_call_def rd_rest_def
        golden_valid_def golden_header_def chunk_request_def STREAM_CHUNK_SIZE_def Let_def)
  show ?thesis
    by (simp add: load_blob_into_sender_def o golden_config_def demo_validate file_seek_def
        syscall_def f seek_start_def config_consts sp)
qed

lemma load_into_delivers_witness:
  "fst (load_into_run False padded_digest Open True Open [7] (1, True) [[0x61,0x62,0x63]] vec_write_all
      \<lparr>vs_bytes = [9], vs_faults = []\<rparr> 0 Open (\<lambda>_. Some (Ok (Some \<lparr>payload_len = 3\<rparr>))) (coordinator_join_new False))
     = Some (Ok (Some \<lparr>payload_len = 3\<rparr>), coordinator_join_new False)
   \<and> encode_envelope castagnoli golden_format [0x61,0x62,0x63] 67108864 = Ok golden_valid"
proof -
  let ?w = "\<lparr>vs_bytes = [9], vs_faults = []\<rparr>" and ?w' = "\<lparr>vs_bytes = [9,0x61,0x62,0x63], vs_faults = []\<rparr>"
  have w: "acknowledges vec_write_all [[0x61,0x62,0x63]] ?w = True"
    by (simp add: acknowledges_def vec_write_all_def)
  let ?run = "load_into_run False padded_digest Open True Open [7] (1, True) [[0x61,0x62,0x63]] vec_write_all ?w 0
      Open (\<lambda>_. Some (Ok (Some \<lparr>payload_len = 3\<rparr>))) (coordinator_join_new False)"
  have run: "?run = (Some (Ok (Some \<lparr>payload_len = 3\<rparr>), coordinator_join_new False),
       [Submission (key_hash padded_digest [7]) (LoadStreamOp (Some (1, True)) 0)], ?w')"
    by (simp add: load_into_run_def tokio_load_into_def blocking_load_into_def start_load_stream_def
        submit_operation_def vec_write_all_def finish_load_def wait_def pending_new_def or_else_def)
  have wf: "wf_format (cfg_format golden_config)" using golden_config_wf by (simp add: wf_config_def)
  have e: "entry stored_fs (operation_path padded_digest golden_config (key_hash padded_digest [7]))
      = Some (FileNode golden_valid None)"
    by (simp add: entry_def stored_fs_def demo_fs_def stored_path_def)
  have job: "unix_job castagnoli temp_lib padded_digest golden_config 0 (key_hash padded_digest [7])
        (LoadStreamOp (Some (1, True)) 0) stored_fs
      = Some (Some (LoadStreamOp None 0, LoadStreamResult (Ok (Some \<lparr>payload_len = 3\<rparr>))), [[0x61,0x62,0x63]], stored_fs)"
    using stored_load by (simp add: unix_job_def run_owned_operation_def stored_path_def)
  note delivers = load_into_delivers [OF vec.byte_sink_axioms castagnoli.crc32c_api_axioms wf e,
      where sends = 1 and w = "?w" and chunks = "[[0x61,0x62,0x63]]" and r = 0, unfolded w, OF run]
  have "\<exists>payload. encode_envelope castagnoli golden_format payload 67108864 = Ok golden_valid
      \<and> vs_bytes ?w' = vs_bytes ?w @ payload"
    using delivers [where now = 0 and U = temp_lib] job by (fastforce simp: golden_config_def)
  then show ?thesis using run by auto
qed

end
