(* ===== verification/WinPaths.thy ===== *)
theory WinPaths
  imports Paths
begin

text \<open>
  The path code of the Windows half of \<open>src/filesystem/mod.rs\<close>: the extended wide form in which a path is
  handed to Win32 (\<open>wide_path\<close>) and the recognition of staging names (\<open>is_owned_temporary_filename\<close>), with
  what they use of the standard library on Windows. A path is the sequence of bytes Rust keeps for it
  (WTF-8). Of the path prefixes the drive letter is modelled; a UNC, verbatim or device prefix matters to
  \<open>join\<close> and \<open>file_stem\<close> only where nothing stands behind it, which no path of the store has.
\<close>

section \<open>Wide strings\<close>

text \<open>\<open>OsStr::encode_wide\<close>: the UTF-16 units of the scalar values and lone surrogates of a WTF-8 string.\<close>

abbreviation unit_of :: "char \<Rightarrow> u16" where
  "unit_of c \<equiv> of_char c"

definition code_point2 :: "char \<Rightarrow> char \<Rightarrow> u16" where
  "code_point2 a b = push_bit 6 (unit_of a AND 0x1f) OR (unit_of b AND 0x3f)"

definition code_point3 :: "char \<Rightarrow> char \<Rightarrow> char \<Rightarrow> u16" where
  "code_point3 a b c = push_bit 12 (unit_of a AND 0x0f) OR push_bit 6 (unit_of b AND 0x3f) OR (unit_of c AND 0x3f)"

definition surrogates :: "char \<Rightarrow> char \<Rightarrow> char \<Rightarrow> char \<Rightarrow> u16 list" where
  "surrogates a b c d =
     (let scalar = push_bit 18 ((of_char a :: u32) AND 0x07) OR push_bit 12 (of_char b AND 0x3f)
            OR push_bit 6 (of_char c AND 0x3f) OR (of_char d AND 0x3f);
          rest = scalar - 0x10000
      in [0xD800 OR ucast (drop_bit 10 rest), 0xDC00 OR (ucast rest AND 0x3ff)])"

fun encode_wide :: "string \<Rightarrow> u16 list" where
  "encode_wide [] = []"
| "encode_wide (a # s) =
     (if unit_of a < 0x80 then unit_of a # encode_wide s
      else case s of [] \<Rightarrow> [] | b # s \<Rightarrow>
        if unit_of a < 0xE0 then code_point2 a b # encode_wide s
        else case s of [] \<Rightarrow> [] | c # s \<Rightarrow>
          if unit_of a < 0xF0 then code_point3 a b c # encode_wide s
          else case s of [] \<Rightarrow> [] | d # s \<Rightarrow> surrogates a b c d @ encode_wide s)"

lemma unit_of_nat: "unat (unit_of c) = of_char c"
proof -
  have "unat (of_nat (of_char c) :: u16) = of_char c"
    by (rule unat_of_nat_small, rule order_less_le_trans [OF nat_of_char_less_256]) simp
  then show ?thesis by (simp only: of_nat_of_char)
qed

lemma unit_of_inj [simp]: "unit_of a = unit_of b \<longleftrightarrow> a = b"
  by (metis unit_of_nat of_char_eq_iff)

lemma unit_of_ascii: "unit_of c < 0x80 \<longleftrightarrow> (of_char c :: nat) < 0x80"
  by (simp add: word_less_nat_alt unit_of_nat)

lemma encode_wide_ascii: "ascii_string s \<Longrightarrow> encode_wide s = map unit_of s"
  by (induction s) (simp_all add: ascii_string_def unit_of_ascii)

lemma map_unit_of_inj [simp]: "map unit_of s = map unit_of t \<longleftrightarrow> s = t"
  by (rule inj_map_eq_map) (auto intro: injI)

section \<open>\<open>wide_path\<close>\<close>

definition SEPARATOR :: u16 where "SEPARATOR = 0x5C"
definition ALTERNATE_SEPARATOR :: u16 where "ALTERNATE_SEPARATOR = 0x2F"
definition VERBATIM_PREFIX :: "u16 list" where "VERBATIM_PREFIX = [SEPARATOR, SEPARATOR, 0x3F, SEPARATOR]"
definition DEVICE_PREFIX :: "u16 list" where "DEVICE_PREFIX = [SEPARATOR, SEPARATOR, 0x2E, SEPARATOR]"
definition UNC_PREFIX :: "u16 list" where
  "UNC_PREFIX = [SEPARATOR, SEPARATOR, 0x3F, SEPARATOR, 0x55, 0x4E, 0x43, SEPARATOR]"

lemmas wide_consts = SEPARATOR_def ALTERNATE_SEPARATOR_def VERBATIM_PREFIX_def DEVICE_PREFIX_def UNC_PREFIX_def

definition wide_path :: "path \<Rightarrow> u16 list" where
  "wide_path p =
     (let units = encode_wide p;
          (extension, remainder) =
            (if take 4 units = VERBATIM_PREFIX \<or> take 4 units = DEVICE_PREFIX then ([], units)
             else if take 2 units = [SEPARATOR, SEPARATOR] then (UNC_PREFIX, drop 2 units)
             else (VERBATIM_PREFIX, units))
      in extension @ map (\<lambda>unit. if unit = ALTERNATE_SEPARATOR then SEPARATOR else unit) remainder @ [0])"

text \<open>An absolute path on a drive, as \<open>std::path::absolute\<close> returns it: ASCII, with its separators
  already normalized and no NUL.\<close>

definition drive_letter :: "char \<Rightarrow> bool" where
  "drive_letter c \<longleftrightarrow> (0x41 \<le> unit_of c \<and> unit_of c \<le> 0x5A) \<or> (0x61 \<le> unit_of c \<and> unit_of c \<le> 0x7A)"

definition drive_path :: "path \<Rightarrow> bool" where
  "drive_path p \<longleftrightarrow> 3 \<le> length p \<and> drive_letter (p ! 0) \<and> p ! 1 = CHR '':'' \<and> p ! 2 = CHR 0x5C
     \<and> ascii_string p \<and> CHR ''/'' \<notin> set p \<and> CHR 0x00 \<notin> set p"

lemma drive_path_wide:
  assumes "drive_path p"
  shows "wide_path p = VERBATIM_PREFIX @ map unit_of p @ [0]"
proof -
  obtain c rest where p: "p = c # CHR '':'' # rest" "drive_letter c"
    using assms by (cases p; cases "tl p") (auto simp: drive_path_def)
  have e: "encode_wide p = map unit_of p"
    using assms by (intro encode_wide_ascii) (simp add: drive_path_def)
  have "unit_of x \<noteq> ALTERNATE_SEPARATOR" if "x \<in> set p" for x
    using that assms unit_of_inj [of x "CHR ''/''"] by (auto simp: drive_path_def ALTERNATE_SEPARATOR_def)
  then have m: "map (\<lambda>unit. if unit = ALTERNATE_SEPARATOR then SEPARATOR else unit) (map unit_of p) = map unit_of p"
    by simp
  have "unit_of c \<noteq> SEPARATOR" using p(2) by (auto simp: drive_letter_def SEPARATOR_def)
  then have "take 4 (map unit_of p) \<noteq> VERBATIM_PREFIX" "take 4 (map unit_of p) \<noteq> DEVICE_PREFIX"
    "take 2 (map unit_of p) \<noteq> [SEPARATOR, SEPARATOR]"
    by (auto simp: p(1) VERBATIM_PREFIX_def DEVICE_PREFIX_def)
  with m show ?thesis by (simp add: wide_path_def e Let_def)
qed

lemma drive_path_wide_inj:
  "drive_path p \<Longrightarrow> drive_path q \<Longrightarrow> wide_path p = wide_path q \<longleftrightarrow> p = q"
  by (simp add: drive_path_wide)

text \<open>Every wide path is extended, NUL-terminated and free of the alternate separator.\<close>

definition one_separator :: "u16 \<Rightarrow> u16" where
  "one_separator unit = (if unit = ALTERNATE_SEPARATOR then SEPARATOR else unit)"

lemma one_separator_simps [simp]: "one_separator unit \<noteq> ALTERNATE_SEPARATOR"
  "map one_separator VERBATIM_PREFIX = VERBATIM_PREFIX" "map one_separator DEVICE_PREFIX = DEVICE_PREFIX"
  by (auto simp: one_separator_def wide_consts)

lemma wide_path_extended:
  "(take 4 (wide_path p) = VERBATIM_PREFIX \<or> take 4 (wide_path p) = DEVICE_PREFIX)
   \<and> last (wide_path p) = 0 \<and> ALTERNATE_SEPARATOR \<notin> set (wide_path p)"
proof -
  let ?u = "encode_wide p"
  have n: "ALTERNATE_SEPARATOR \<notin> set (map one_separator us @ [0])" for us
    by (auto simp: ALTERNATE_SEPARATOR_def [THEN sym] dest: sym) (simp add: ALTERNATE_SEPARATOR_def)
  have k: "take 4 (map one_separator us @ [0]) = map one_separator pre"
    if "take 4 us = pre" "length pre = 4" for us pre :: "u16 list"
  proof -
    have "4 \<le> length us" using that by (metis length_take min.cobounded1 min_def)
    with that(1) show ?thesis by (simp add: take_map)
  qed
  have w: "wide_path p =
     (if take 4 ?u = VERBATIM_PREFIX \<or> take 4 ?u = DEVICE_PREFIX then map one_separator ?u @ [0]
      else if take 2 ?u = [SEPARATOR, SEPARATOR] then UNC_PREFIX @ map one_separator (drop 2 ?u) @ [0]
      else VERBATIM_PREFIX @ map one_separator ?u @ [0])"
    by (simp add: wide_path_def one_separator_def Let_def)
  have l: "length VERBATIM_PREFIX = 4" "length DEVICE_PREFIX = 4" by (simp_all add: wide_consts)
  have u: "take 4 (UNC_PREFIX @ us) = VERBATIM_PREFIX" "take 4 (VERBATIM_PREFIX @ us) = VERBATIM_PREFIX"
    "ALTERNATE_SEPARATOR \<notin> set UNC_PREFIX" "ALTERNATE_SEPARATOR \<notin> set VERBATIM_PREFIX" for us
    by (simp_all add: wide_consts)
  consider "take 4 ?u = VERBATIM_PREFIX" | "take 4 ?u = DEVICE_PREFIX"
    | "\<not> (take 4 ?u = VERBATIM_PREFIX \<or> take 4 ?u = DEVICE_PREFIX)" "take 2 ?u = [SEPARATOR, SEPARATOR]"
    | "\<not> (take 4 ?u = VERBATIM_PREFIX \<or> take 4 ?u = DEVICE_PREFIX)" "take 2 ?u \<noteq> [SEPARATOR, SEPARATOR]" by blast
  then show ?thesis
  proof cases
    case 1
    then have "wide_path p = map one_separator ?u @ [0]" by (simp add: w)
    then show ?thesis using k [OF 1 l(1)] n [of ?u] by simp
  next
    case 2
    then have "wide_path p = map one_separator ?u @ [0]" by (simp add: w)
    then show ?thesis using k [OF 2 l(2)] n [of ?u] by simp
  next
    case 3
    then have "wide_path p = UNC_PREFIX @ map one_separator (drop 2 ?u) @ [0]" by (simp only: w if_False if_True simp_thms)
    then show ?thesis using u n [of "drop 2 ?u"] by (simp del: take_append)
  next
    case 4
    then have "wide_path p = VERBATIM_PREFIX @ map one_separator ?u @ [0]" by (simp only: w if_False)
    then show ?thesis using u n [of ?u] by (simp del: take_append)
  qed
qed

section \<open>Paths on a drive\<close>

definition windows_separator :: "char \<Rightarrow> bool" where
  "windows_separator c \<longleftrightarrow> c = CHR 0x5C \<or> c = CHR ''/''"

definition drive_prefix :: "path \<Rightarrow> path" where
  "drive_prefix p = (if 2 \<le> length p \<and> drive_letter (p ! 0) \<and> p ! 1 = CHR '':'' then take 2 p else [])"

text \<open>\<open>Path::join\<close>: a second path with a prefix replaces the first, one with a root keeps its prefix.\<close>

definition windows_join :: "path \<Rightarrow> path \<Rightarrow> path" where
  "windows_join p q =
     (if drive_prefix q \<noteq> [] then q
      else if q \<noteq> [] \<and> windows_separator (hd q) then drive_prefix p @ q
      else if p = [] \<or> windows_separator (last p) \<or> drive_prefix p = p then p @ q
      else p @ CHR 0x5C # q)"

definition windows_file_name :: "path \<Rightarrow> string option" where
  "windows_file_name p =
     (let body = map (\<lambda>c. if c = CHR 0x5C then CHR ''/'' else c) (drop (length (drive_prefix p)) p)
      in case rev (List.map_filter segment_component (split_on CHR ''/'' body)) of
           NormalComp s # _ \<Rightarrow> Some s
         | _ \<Rightarrow> None)"

definition windows_file_stem :: "path \<Rightarrow> string option" where
  "windows_file_stem p = map_option stem_of_name (windows_file_name p)"

definition windows_plain :: "string \<Rightarrow> bool" where
  "windows_plain s \<longleftrightarrow> plain_name s \<and> CHR 0x5C \<notin> set s \<and> CHR '':'' \<notin> set s \<and> CHR 0x00 \<notin> set s \<and> ascii_string s"

lemma windows_plain_drive: "windows_plain q \<Longrightarrow> drive_prefix q = []"
  by (cases q; cases "tl q") (auto simp: windows_plain_def drive_prefix_def)

lemma windows_plain_hd: "windows_plain q \<Longrightarrow> q \<noteq> [] \<and> \<not> windows_separator (hd q)"
  by (cases q) (auto simp: windows_plain_def plain_name_def windows_separator_def)

lemma drive_path_not_prefix: "drive_path p \<Longrightarrow> drive_prefix p \<noteq> p"
proof
  assume "drive_path p" "drive_prefix p = p"
  then have "length (drive_prefix p) = 2 \<or> drive_prefix p = []" "3 \<le> length p"
    by (auto simp: drive_prefix_def drive_path_def)
  with \<open>drive_prefix p = p\<close> show False by auto
qed

lemma windows_join_plain:
  assumes "drive_path p" "windows_plain q"
  shows "windows_join p q = (if last p = CHR 0x5C then p @ q else p @ CHR 0x5C # q)"
proof -
  have "p \<noteq> []" "last p \<noteq> CHR ''/''" using assms(1) by (cases p rule: rev_cases; auto simp: drive_path_def)+
  then show ?thesis
    using windows_plain_drive [OF assms(2)] windows_plain_hd [OF assms(2)] drive_path_not_prefix [OF assms(1)]
    by (simp add: windows_join_def) (simp add: windows_separator_def)
qed

lemma drive_path_join:
  assumes "drive_path p" "windows_plain q"
  shows "drive_path (windows_join p q)"
proof -
  obtain a b c rest where "p = a # b # c # rest"
    using assms(1) by (metis drive_path_def One_nat_def Suc_le_length_iff numeral_3_eq_3)
  then have "drive_path (p @ q)" "drive_path (p @ CHR 0x5C # q)"
    using assms by (auto simp: drive_path_def windows_plain_def plain_name_def ascii_string_def)
  then show ?thesis by (simp only: windows_join_plain [OF assms] split: if_split) simp
qed

lemma windows_join_inj:
  "drive_path p \<Longrightarrow> windows_plain q \<Longrightarrow> windows_plain r \<Longrightarrow> windows_join p q = windows_join p r \<Longrightarrow> q = r"
  by (simp add: windows_join_plain split: if_splits)

lemma windows_join_longer: "drive_path p \<Longrightarrow> windows_plain q \<Longrightarrow> windows_join p q \<noteq> p"
  using windows_plain_hd [of q] by (auto simp: windows_join_plain)

lemma windows_file_name_join:
  assumes "drive_path p" "windows_plain q"
  shows "windows_file_name (windows_join p q) = Some q"
proof -
  let ?f = "\<lambda>c. if c = CHR 0x5C then CHR ''/'' else c"
  let ?j = "windows_join p q"
  have j: "drive_path ?j" by (rule drive_path_join [OF assms])
  then have d: "length (drive_prefix ?j) = 2" by (simp add: drive_path_def drive_prefix_def)
  obtain a b c rest where p: "p = a # b # c # rest"
    using assms(1) by (metis drive_path_def One_nat_def Suc_le_length_iff numeral_3_eq_3)
  have c: "c = CHR 0x5C" using assms(1) p by (simp add: drive_path_def numeral_2_eq_2)
  have q: "map ?f q = q" using assms(2) by (intro map_idI) (auto simp: windows_plain_def)
  have "\<exists>pre. drop 2 ?j = pre @ CHR 0x5C # q"
  proof (cases "last p = CHR 0x5C")
    case True
    then have "last (c # rest) = CHR 0x5C" by (simp add: p)
    then have e: "c # rest = butlast (c # rest) @ [CHR 0x5C]"
      using append_butlast_last_id [of "c # rest"] by simp
    have "drop 2 ?j = (c # rest) @ q" 
      by (simp only: windows_join_plain [OF assms] True if_True) (simp add: p)
    also have "\<dots> = butlast (c # rest) @ CHR 0x5C # q" by (subst e) simp
    finally show ?thesis by blast
  next
    case False
    then have "drop 2 ?j = (c # rest) @ CHR 0x5C # q"
      by (simp only: windows_join_plain [OF assms] if_False) (simp add: p)
    then show ?thesis by blast
  qed
  then obtain pre where "drop 2 ?j = pre @ CHR 0x5C # q" by blast
  then have "map ?f (drop 2 ?j) = map ?f pre @ CHR ''/'' # q" using q by simp
  then have "split_on CHR ''/'' (map ?f (drop 2 ?j)) = split_on CHR ''/'' (map ?f pre) @ [q]"
    using assms(2) by (simp add: split_on_append_sep split_on_no_sep windows_plain_def plain_name_def)
  moreover have "segment_component q = Some (NormalComp q)"
    using assms(2) by (simp add: segment_component_def windows_plain_def plain_name_def)
  ultimately show ?thesis
    by (simp add: windows_file_name_def d Let_def map_filter_append List.map_filter_def)
qed

text \<open>Two names in one directory.\<close>

definition same_directory :: "path \<Rightarrow> path \<Rightarrow> bool" where
  "same_directory p q \<longleftrightarrow>
     (\<exists>d m n. drive_path d \<and> windows_plain m \<and> windows_plain n \<and> p = windows_join d m \<and> q = windows_join d n)"

lemma same_directoryI:
  "drive_path d \<Longrightarrow> windows_plain m \<Longrightarrow> windows_plain n \<Longrightarrow> same_directory (windows_join d m) (windows_join d n)"
  by (auto simp: same_directory_def)

section \<open>Names of the store\<close>

text \<open>\<open>str::split_once\<close>: the parts before and behind the first occurrence of the pattern.\<close>

primrec split_once :: "string \<Rightarrow> string \<Rightarrow> (string \<times> string) option" where
  "split_once pattern [] = (if pattern = [] then Some ([], []) else None)"
| "split_once pattern (c # cs) =
     (if take (length pattern) (c # cs) = pattern then Some ([], drop (length pattern) (c # cs))
      else map_option (\<lambda>(before, after). (c # before, after)) (split_once pattern cs))"

definition is_owned_temporary_filename :: "string \<Rightarrow> string \<Rightarrow> bool" where
  "is_owned_temporary_filename name suffix =
     (case split_once (suffix @ ''.tmp-v1.'') name of
        None \<Rightarrow> False
      | Some (hash, rest) \<Rightarrow>
          if length hash \<noteq> 64 \<or> \<not> list_all lower_hex hash then False
          else (case split_once ''.'' rest of
                  None \<Rightarrow> False
                | Some (kind, identifier') \<Rightarrow>
                    (kind = ''save'' \<or> kind = ''clear'')
                    \<and> length identifier' = 64 \<and> list_all lower_hex identifier'))"

definition staging_name :: "blob_format_identity \<Rightarrow> string \<Rightarrow> string \<Rightarrow> string \<Rightarrow> string" where
  "staging_name format hash kind identifier' =
     hash @ filename_suffix format @ ''.tmp-v1.'' @ kind @ ''.'' @ identifier'"

definition quarantine_name :: "blob_format_identity \<Rightarrow> string \<Rightarrow> string \<Rightarrow> string" where
  "quarantine_name format hash identifier' = hash @ filename_suffix format @ ''.quarantine-v1.'' @ identifier'"

lemma split_once_Some: "split_once m s = Some (a, b) \<Longrightarrow> s = a @ m @ b"
proof (induction s arbitrary: a)
  case (Cons c cs)
  show ?case
  proof (cases "take (length m) (c # cs) = m")
    case True
    then have "c # cs = m @ drop (length m) (c # cs)" by (metis append_take_drop_id)
    with Cons.prems True show ?thesis by auto
  next
    case False
    with Cons show ?thesis by auto
  qed
qed (auto split: if_splits)

lemma split_once_first:
  assumes "c \<notin> set a"
  shows "split_once (c # m) (a @ c # m @ b) = Some (a, b)"
  using assms by (induction a) auto

text \<open>The generated names have the recognised shape, and no other name has it.\<close>

lemma owned_exactly:
  assumes "wf_format f"
  shows "is_owned_temporary_filename name (filename_suffix f) \<longleftrightarrow>
     (\<exists>h kind i. is_hex_name h \<and> is_hex_name i \<and> kind \<in> {''save'', ''clear''} \<and> name = staging_name f h kind i)"
proof
  assume own: "is_owned_temporary_filename name (filename_suffix f)"
  then obtain h r where h: "split_once (filename_suffix f @ ''.tmp-v1.'') name = Some (h, r)"
    by (cases "split_once (filename_suffix f @ ''.tmp-v1.'') name") (auto simp: is_owned_temporary_filename_def)
  with own have "is_hex_name h \<and> (case split_once ''.'' r of None \<Rightarrow> False | Some (kind, i) \<Rightarrow>
      kind \<in> {''save'', ''clear''} \<and> is_hex_name i)"
    by (auto simp: is_owned_temporary_filename_def is_hex_name_def split: if_splits option.splits)
  then obtain kind i where i: "split_once ''.'' r = Some (kind, i)"
    "is_hex_name i" "kind \<in> {''save'', ''clear''}" "is_hex_name h"
    by (cases "split_once ''.'' r") auto
  note s = h i(1)
  have "name = staging_name f h kind i"
    using split_once_Some [OF s(1)] split_once_Some [OF s(2)] by (simp add: staging_name_def)
  with i(2-4) show "\<exists>h kind i. is_hex_name h \<and> is_hex_name i \<and> kind \<in> {''save'', ''clear''} \<and> name = staging_name f h kind i"
    by blast
next
  assume "\<exists>h kind i. is_hex_name h \<and> is_hex_name i \<and> kind \<in> {''save'', ''clear''} \<and> name = staging_name f h kind i"
  then obtain h kind i where n: "is_hex_name h" "is_hex_name i" "kind \<in> {''save'', ''clear''}"
    "name = staging_name f h kind i" by blast
  obtain body where b: "filename_suffix f = CHR ''.'' # body" by (rule wf_format_suffix [OF assms])
  have "split_once (filename_suffix f @ ''.tmp-v1.'') name = Some (h, kind @ ''.'' @ i)"
    using split_once_first [OF is_hex_name_chars(1) [OF n(1)], of "body @ ''.tmp-v1.''" "kind @ ''.'' @ i"]
    by (simp add: n(4) staging_name_def b)
  moreover have "split_once ''.'' (kind @ ''.'' @ i) = Some (kind, i)"
    using split_once_first [of "CHR ''.''" kind "[]" i] n(3) by auto
  ultimately show "is_owned_temporary_filename name (filename_suffix f)"
    using n(1-3) by (simp add: is_owned_temporary_filename_def is_hex_name_def)
qed

text \<open>The cleanup recognises exactly the names the store gives its staging files: a digest, the suffix of
  the format, the marker, the kind and an identifier. Such a name determines its parts, and no canonical
  or quarantine name of any format with that suffix is one of them.\<close>

theorem owned_names_exact:
  assumes "wf_format f" "is_hex_name h" "is_hex_name i" "kind \<in> {''save'', ''clear''}"
  shows "is_owned_temporary_filename (staging_name f h kind i) (filename_suffix f)
    \<and> (is_owned_temporary_filename name (filename_suffix f) \<longrightarrow>
         (\<exists>h kind i. is_hex_name h \<and> is_hex_name i \<and> kind \<in> {''save'', ''clear''} \<and> name = staging_name f h kind i))
    \<and> (\<forall>h' kind' i'. is_hex_name h' \<and> is_hex_name i' \<and> kind' \<in> {''save'', ''clear''}
         \<and> staging_name f h kind i = staging_name f h' kind' i' \<longrightarrow> h' = h \<and> kind' = kind \<and> i' = i)
    \<and> \<not> is_owned_temporary_filename (h @ filename_suffix f) (filename_suffix f)
    \<and> \<not> is_owned_temporary_filename (quarantine_name f h i) (filename_suffix f)"
proof (intro conjI allI impI)
  show "is_owned_temporary_filename (staging_name f h kind i) (filename_suffix f)"
    using assms owned_exactly by blast
  show "\<exists>h kind i. is_hex_name h \<and> is_hex_name i \<and> kind \<in> {''save'', ''clear''} \<and> name = staging_name f h kind i"
    if "is_owned_temporary_filename name (filename_suffix f)" using that owned_exactly [OF assms(1)] by blast
  show "\<not> is_owned_temporary_filename (h @ filename_suffix f) (filename_suffix f)"
    using assms(2) by (auto simp: owned_exactly [OF assms(1)] staging_name_def is_hex_name_def dest!: arg_cong [where f = length])
  show "\<not> is_owned_temporary_filename (quarantine_name f h i) (filename_suffix f)"
    using assms(2) by (auto simp: owned_exactly [OF assms(1)] staging_name_def quarantine_name_def is_hex_name_def append_eq_append_conv)
  fix h' kind' i'
  assume "is_hex_name h' \<and> is_hex_name i' \<and> kind' \<in> {''save'', ''clear''}
      \<and> staging_name f h kind i = staging_name f h' kind' i'"
  then have s: "staging_name f h kind i = staging_name f h' kind' i'" and k: "kind' \<in> {''save'', ''clear''}"
    and l: "length h = length h'" using assms(2) by (auto simp: is_hex_name_def)
  from s l show "h' = h" by (simp add: staging_name_def)
  with s assms(4) k show "kind' = kind" "i' = i" by (auto simp: staging_name_def)
qed

lemma owned_names_exact_witness:
  "is_owned_temporary_filename (replicate 64 CHR ''0'' @ ''.blob.tmp-v1.save.'' @ replicate 64 CHR ''f'') ''.blob''
   \<and> \<not> is_owned_temporary_filename (replicate 64 CHR ''0'' @ ''.blob'') ''.blob''"
proof -
  let ?f = "\<lparr>domain_tag = [1,2,3,4,5,6,7,8], filename_suffix = ''.blob'', envelope_version = 1\<rparr> :: blob_format_identity"
  have "wf_format ?f"
    by (simp add: wf_format_def validate_suffix_def config_consts suffix_byte_def is_ascii_lowercase_def)
  moreover have "is_hex_name (replicate 64 CHR ''0'')" "is_hex_name (replicate 64 CHR ''f'')"
    by (simp_all add: is_hex_name_def list_all_length lower_hex_def is_ascii_hexdigit_def is_ascii_digit_def is_ascii_uppercase_def)
  ultimately show ?thesis
    using owned_names_exact [of ?f "replicate 64 CHR ''0''" "replicate 64 CHR ''f''" "''save''"]
    by (simp add: staging_name_def)
qed

end
