(* ===== verification/WinApi.thy ===== *)
theory WinApi
  imports UnixApi WinPaths
begin

text \<open>
  What the Windows half of \<open>src/filesystem/mod.rs\<close> calls through \<open>windows-sys\<close> (moving, deleting, creating
  and flushing files, setting their time), with \<open>write_all\<close> on the created file, the enumeration of a
  directory and the random source. They are a record of parameters; the locale states the documented
  behaviour the store relies on, for absolute paths on a drive in their wide form. The interpretation at
  the end works on the entries of the file system directly.
\<close>

section \<open>Constants and error codes\<close>

definition MOVEFILE_REPLACE_EXISTING :: u32 where "MOVEFILE_REPLACE_EXISTING = 0x1"
definition MOVEFILE_WRITE_THROUGH :: u32 where "MOVEFILE_WRITE_THROUGH = 0x8"
definition GENERIC_WRITE :: u32 where "GENERIC_WRITE = 0x40000000"
definition FILE_WRITE_ATTRIBUTES :: u32 where "FILE_WRITE_ATTRIBUTES = 0x100"
definition FILE_SHARE_READ :: u32 where "FILE_SHARE_READ = 0x1"
definition FILE_SHARE_WRITE :: u32 where "FILE_SHARE_WRITE = 0x2"
definition FILE_SHARE_DELETE :: u32 where "FILE_SHARE_DELETE = 0x4"
definition CREATE_NEW :: u32 where "CREATE_NEW = 1"
definition OPEN_EXISTING :: u32 where "OPEN_EXISTING = 3"
definition FILE_ATTRIBUTE_NORMAL :: u32 where "FILE_ATTRIBUTE_NORMAL = 0x80"
definition FILE_FLAG_WRITE_THROUGH :: u32 where "FILE_FLAG_WRITE_THROUGH = 0x80000000"
definition FILE_FLAG_BACKUP_SEMANTICS :: u32 where "FILE_FLAG_BACKUP_SEMANTICS = 0x02000000"

definition ERROR_FILE_NOT_FOUND :: nat where "ERROR_FILE_NOT_FOUND = 2"
definition ERROR_FILE_EXISTS :: nat where "ERROR_FILE_EXISTS = 80"
definition ERROR_ALREADY_EXISTS :: nat where "ERROR_ALREADY_EXISTS = 183"

lemmas windows_codes = ERROR_FILE_NOT_FOUND_def ERROR_FILE_EXISTS_def ERROR_ALREADY_EXISTS_def

lemma disposition_distinct [simp]: "OPEN_EXISTING \<noteq> CREATE_NEW" "CREATE_NEW \<noteq> OPEN_EXISTING"
  by (simp_all add: OPEN_EXISTING_def CREATE_NEW_def)

text \<open>The kind the standard library gives to an error code on Windows.\<close>

definition windows_kind :: "nat \<Rightarrow> io_error_kind" where
  "windows_kind c = (if c \<in> {2, 3, 15, 53, 67} then NotFound
     else if c \<in> {80, 183} then AlreadyExists else OtherKind c)"

definition last_os_error :: "nat \<Rightarrow> io_error" where
  "last_os_error c = OsError c (windows_kind c)"

lemma last_os_error_simps [simp]:
  "io_kind (last_os_error c) = windows_kind c" "raw_os_error (last_os_error c) = Some c"
  by (simp_all add: last_os_error_def)

lemma windows_kind_simps [simp]:
  "windows_kind ERROR_FILE_NOT_FOUND = NotFound" "windows_kind ERROR_FILE_EXISTS = AlreadyExists"
  "windows_kind ERROR_ALREADY_EXISTS = AlreadyExists"
  by (simp_all add: windows_kind_def windows_codes)

lemma windows_kind_exists: "windows_kind c = AlreadyExists \<longleftrightarrow> c = ERROR_FILE_EXISTS \<or> c = ERROR_ALREADY_EXISTS"
  by (auto simp: windows_kind_def windows_codes)

section \<open>File times\<close>

record filetime =
  dwLowDateTime :: u32
  dwHighDateTime :: u32

definition WINDOWS_EPOCH_OFFSET_100NS :: u64 where "WINDOWS_EPOCH_OFFSET_100NS = 116444736000000000"
definition HUNDRED_NS_PER_SECOND :: u64 where "HUNDRED_NS_PER_SECOND = 10000000"

definition filetime_ticks :: "filetime \<Rightarrow> nat" where
  "filetime_ticks t = unat (dwHighDateTime t) * 2 ^ 32 + unat (dwLowDateTime t)"

definition filetime_time :: "filetime \<Rightarrow> system_time" where
  "filetime_time t = (int (filetime_ticks t) - 116444736000000000) * 100"

section \<open>Interface\<close>

text \<open>A code that means ``not found'' says that no regular file is there when a file is opened (a reparse
  point with a missing target is not found either), and that the source is missing when a file is moved
  within one directory (a missing directory of the destination is not found either). \<open>DeleteFileW\<close> is taken
  to unlink the name at once, the POSIX semantics NTFS gives it; a deletion that stays pending while another
  process holds the file open is not modelled.\<close>

record 'h windows_lib =
  MoveFileExW :: "u16 list \<Rightarrow> u16 list \<Rightarrow> u32 \<Rightarrow> fs \<Rightarrow> (nat, unit) result \<times> fs"
  DeleteFileW :: "u16 list \<Rightarrow> fs \<Rightarrow> (nat, unit) result \<times> fs"
  CreateFileW :: "u16 list \<Rightarrow> u32 \<Rightarrow> u32 \<Rightarrow> u32 \<Rightarrow> u32 \<Rightarrow> fs \<Rightarrow> (nat, 'h) result \<times> fs"
  FlushFileBuffers :: "'h \<Rightarrow> fs \<Rightarrow> (nat, unit) result \<times> fs"
  SetFileTime :: "'h \<Rightarrow> filetime \<Rightarrow> fs \<Rightarrow> (nat, unit) result \<times> fs"
  file_write_all :: "('h \<times> fs) write_all"
  fs_read_dir :: "path \<Rightarrow> (io_error, string) result list syscall"
  random_fill :: "nat \<Rightarrow> fs \<Rightarrow> (getrandom_error, bytes) result \<times> fs"

definition holds_file :: "fs \<Rightarrow> path \<Rightarrow> bytes \<Rightarrow> bool" where
  "holds_file s p bs \<longleftrightarrow> (\<exists>t. entry s p = Some (FileNode bs t))"

definition file_bytes :: "fs \<Rightarrow> path \<Rightarrow> bytes" where
  "file_bytes s p = (case entry s p of Some (FileNode bs _) \<Rightarrow> bs | _ \<Rightarrow> [])"

lemma holds_file_bytes: "holds_file s p bs \<Longrightarrow> holds_file s p (file_bytes s p) \<and> file_bytes s p = bs"
  by (auto simp: holds_file_def file_bytes_def)

text \<open>A call that changes nothing but the entry of \<open>p\<close>.\<close>

definition touches :: "path \<Rightarrow> fs \<Rightarrow> fs \<Rightarrow> bool" where
  "touches p s s' \<longleftrightarrow> quiet (\<lambda>q. q \<noteq> p) s s'"

locale windows_api =
  fixes W :: "'h windows_lib" and opened :: "'h \<Rightarrow> path"
  assumes create_new_Ok: "drive_path p \<Longrightarrow> CreateFileW W (wide_path p) access share CREATE_NEW flags s = (Ok h, s') \<Longrightarrow>
      entry s p = None \<and> holds_file s' p [] \<and> touches p s s' \<and> opened h = p"
    and create_new_Err: "drive_path p \<Longrightarrow> CreateFileW W (wide_path p) access share CREATE_NEW flags s = (Err c, s') \<Longrightarrow>
      quiet (\<lambda>_. True) s s' \<and> (windows_kind c = AlreadyExists \<longrightarrow> entry s p \<noteq> None)"
    and open_Ok: "drive_path p \<Longrightarrow> CreateFileW W (wide_path p) access share OPEN_EXISTING flags s = (Ok h, s') \<Longrightarrow>
      quiet (\<lambda>_. True) s s' \<and> entry s p \<noteq> None \<and> opened h = p"
    and open_Err: "drive_path p \<Longrightarrow> CreateFileW W (wide_path p) access share OPEN_EXISTING flags s = (Err c, s') \<Longrightarrow>
      quiet (\<lambda>_. True) s s' \<and> (windows_kind c = NotFound \<longrightarrow> (\<forall>bs t. entry s p \<noteq> Some (FileNode bs t)))"
    and write_touches: "file_write_all W bs (h, s) = (outcome, h', s') \<Longrightarrow>
      touches (opened h) s s' \<and> opened h' = opened h
      \<and> (holds_file s (opened h) (file_bytes s (opened h)) \<longrightarrow> holds_file s' (opened h) (file_bytes s' (opened h)))"
    and write_Ok: "file_write_all W bs (h, s) = (Ok u, h', s') \<Longrightarrow>
      file_bytes s' (opened h) = file_bytes s (opened h) @ bs"
    and write_Err: "file_write_all W bs (h, s) = (Err e, h', s') \<Longrightarrow>
      io_kind e \<noteq> AlreadyExists \<and> (\<exists>k. file_bytes s' (opened h) = file_bytes s (opened h) @ take k bs)"
    and flush_quiet: "FlushFileBuffers W h s = (r, s') \<Longrightarrow> quiet (\<lambda>_. True) s s'"
    and flush_Err: "FlushFileBuffers W h s = (Err c, s') \<Longrightarrow>
      windows_kind c \<noteq> AlreadyExists \<and> windows_kind c \<noteq> NotFound"
    and set_time_Ok: "SetFileTime W h time s = (Ok u, s') \<Longrightarrow> entry s (opened h) = Some (FileNode bs t) \<Longrightarrow>
      installs (\<lambda>_. True) [(opened h, Some (FileNode bs (Some (filetime_time time))))] s s'"
    and set_time_Err: "SetFileTime W h time s = (Err c, s') \<Longrightarrow>
      quiet (\<lambda>_. True) s s' \<and> windows_kind c \<noteq> NotFound"
    and move_Ok: "drive_path p \<Longrightarrow> drive_path q \<Longrightarrow> MoveFileExW W (wide_path p) (wide_path q) flags s = (Ok u, s') \<Longrightarrow>
      \<exists>n. entry s p = Some n \<and> (flags AND MOVEFILE_REPLACE_EXISTING = 0 \<longrightarrow> entry s q = None)
        \<and> installs (\<lambda>_. True) [(q, Some n), (p, None)] s s'"
    and move_Err: "drive_path p \<Longrightarrow> drive_path q \<Longrightarrow> MoveFileExW W (wide_path p) (wide_path q) flags s = (Err c, s') \<Longrightarrow>
      quiet (\<lambda>_. True) s s'
        \<and> (windows_kind c = NotFound \<longrightarrow> same_directory p q \<longrightarrow> entry s p = None)
        \<and> (windows_kind c = AlreadyExists \<longrightarrow> entry s q \<noteq> None)
      \<or> windows_kind c \<noteq> NotFound \<and> windows_kind c \<noteq> AlreadyExists
        \<and> (\<exists>n. entry s p = Some n \<and> installs (\<lambda>_. True) [(q, Some n), (p, None)] s s')"
    and delete_Ok: "drive_path p \<Longrightarrow> DeleteFileW W (wide_path p) s = (Ok u, s') \<Longrightarrow>
      entry s p \<noteq> None \<and> installs (\<lambda>_. True) [(p, None)] s s'"
    and delete_Err: "drive_path p \<Longrightarrow> DeleteFileW W (wide_path p) s = (Err c, s') \<Longrightarrow>
      quiet (\<lambda>_. True) s s' \<or> entry s p \<noteq> None \<and> installs (\<lambda>_. True) [(p, None)] s s'"
    and read_dir_quiet: "fs_read_dir W d s = (listing, s') \<Longrightarrow> quiet (\<lambda>_. True) s s'"
    and fill_Ok: "random_fill W n s = (Ok bs, s') \<Longrightarrow> length bs = n"
    and fill_quiet: "random_fill W n s = (g, s') \<Longrightarrow> quiet (\<lambda>_. True) s s'"

section \<open>An implementation on the entries\<close>

definition narrow :: "u16 list \<Rightarrow> path" where
  "narrow units = map (\<lambda>u. char_of (unat u)) (butlast (drop 4 units))"

lemma narrow_wide [simp]: "drive_path p \<Longrightarrow> narrow (wide_path p) = p"
  by (simp add: narrow_def drive_path_wide VERBATIM_PREFIX_def comp_def unit_of_nat)

definition api_fault :: "nat \<Rightarrow> nat" where
  "api_fault c = (if windows_kind c = OtherKind c then c else 5)"

definition api_call :: "(fs \<Rightarrow> (nat, 'a) result \<times> fs) \<Rightarrow> fs \<Rightarrow> (nat, 'a) result \<times> fs" where
  "api_call act s =
     (case fs_faults s of
        [] \<Rightarrow> act s
      | None # faults \<Rightarrow> act (s\<lparr>fs_faults := faults\<rparr>)
      | Some c # faults \<Rightarrow> (Err (api_fault c), s\<lparr>fs_faults := faults\<rparr>))"

definition mem_create :: "u16 list \<Rightarrow> u32 \<Rightarrow> u32 \<Rightarrow> u32 \<Rightarrow> u32 \<Rightarrow> fs \<Rightarrow> (nat, path) result \<times> fs" where
  "mem_create units access share disposition flags = api_call (\<lambda>s.
     let p = narrow units
     in if disposition = CREATE_NEW then
          (if entry s p \<noteq> None then (Err ERROR_FILE_EXISTS, s)
           else (Ok p, record_event (Update [(p, Some (FileNode [] None))]) s))
        else (if entry s p = None then Err ERROR_FILE_NOT_FOUND else Ok p, s))"

definition mem_move :: "u16 list \<Rightarrow> u16 list \<Rightarrow> u32 \<Rightarrow> fs \<Rightarrow> (nat, unit) result \<times> fs" where
  "mem_move source destination flags = api_call (\<lambda>s.
     let p = narrow source; q = narrow destination
     in case entry s p of
          None \<Rightarrow> (Err ERROR_FILE_NOT_FOUND, s)
        | Some n \<Rightarrow>
            if flags AND MOVEFILE_REPLACE_EXISTING = 0 \<and> entry s q \<noteq> None then (Err ERROR_ALREADY_EXISTS, s)
            else (Ok (), record_event (Update [(q, Some n), (p, None)]) s))"

definition mem_delete :: "u16 list \<Rightarrow> fs \<Rightarrow> (nat, unit) result \<times> fs" where
  "mem_delete units = api_call (\<lambda>s.
     let p = narrow units
     in case entry s p of
          None \<Rightarrow> (Err ERROR_FILE_NOT_FOUND, s)
        | Some DirNode \<Rightarrow> (Err 5, s)
        | Some _ \<Rightarrow> (Ok (), record_event (Update [(p, None)]) s))"

definition mem_set_time :: "path \<Rightarrow> filetime \<Rightarrow> fs \<Rightarrow> (nat, unit) result \<times> fs" where
  "mem_set_time p time = api_call (\<lambda>s.
     case entry s p of
       Some (FileNode bs t) \<Rightarrow>
         (Ok (), record_event (Update [(p, Some (FileNode bs (Some (filetime_time time))))]) s)
     | _ \<Rightarrow> (Err 6, s))"

definition mem_append :: "bytes \<Rightarrow> path \<Rightarrow> fs \<Rightarrow> (nat, unit) result \<times> fs" where
  "mem_append bs p = api_call (\<lambda>s.
     case entry s p of
       Some (FileNode old t) \<Rightarrow> (Ok (), record_event (Update [(p, Some (FileNode (old @ bs) t))]) s)
     | _ \<Rightarrow> (Err 6, s))"

definition mem_write :: "(path \<times> fs) write_all" where
  "mem_write bs h =
     (case mem_append bs (fst h) (snd h) of
        (Err c, s) \<Rightarrow> (Err (last_os_error c), fst h, s)
      | (Ok _, s) \<Rightarrow> (Ok (), fst h, s))"

text \<open>The names in a directory: those of the entries the log mentions and that are there.\<close>

fun logged_paths :: "fs_event list \<Rightarrow> path list" where
  "logged_paths [] = []"
| "logged_paths (Update us # evs) = map fst us @ logged_paths evs"
| "logged_paths (SyncDir d # evs) = logged_paths evs"

definition mem_read_dir :: "path \<Rightarrow> (io_error, string) result list syscall" where
  "mem_read_dir d s =
     (let present = filter (\<lambda>p. entry s p \<noteq> None) (remdups (logged_paths (fs_log s)))
      in (Ok [Ok n. p \<leftarrow> present, n \<leftarrow> (case windows_file_name p of None \<Rightarrow> [] | Some n \<Rightarrow> [n]), windows_join d n = p], s))"

definition mem_lib :: "path windows_lib" where
  "mem_lib = \<lparr>MoveFileExW = mem_move, DeleteFileW = mem_delete, CreateFileW = mem_create,
     FlushFileBuffers = (\<lambda>_. api_call (\<lambda>s. (Ok (), s))), SetFileTime = mem_set_time,
     file_write_all = mem_write, fs_read_dir = mem_read_dir, random_fill = temp_fill\<rparr>"

lemma api_fault_kind [simp]: "windows_kind (api_fault c) \<noteq> NotFound" "windows_kind (api_fault c) \<noteq> AlreadyExists"
  by (auto simp: api_fault_def windows_kind_def)

lemma api_call_cases:
  assumes "api_call act s = (r, s')"
  obtains (fault) c where "r = Err (api_fault c)" "quiet V s s'"
  | (call) f where "act (s\<lparr>fs_faults := f\<rparr>) = (r, s')"
  using assms by (auto simp: api_call_def split: list.splits option.splits)
    (metis (no_types, lifting) fs.surjective fs.update_convs(4))

lemma record_installs:
  "filter (\<lambda>(p, _). V p) us = us' \<Longrightarrow> us' \<noteq> [] \<Longrightarrow> installs V us' s (record_event (Update us) (s\<lparr>fs_faults := f\<rparr>))"
  by (rule quiet_installs [OF quiet_frame(1) installs_update])

lemma record_touches: "touches p s (record_event (Update [(p, v)]) (s\<lparr>fs_faults := f\<rparr>))"
  unfolding touches_def by (rule quiet_trans [OF quiet_frame(1) quiet_update]) simp

lemma quiet_touches: "quiet (\<lambda>_. True) s s' \<Longrightarrow> touches p s s'"
  unfolding touches_def by (rule quiet_all)

lemma mem_create_cases:
  assumes "drive_path p" "mem_create (wide_path p) access share disposition flags s = (r, s')"
  shows "disposition = CREATE_NEW \<Longrightarrow> r = Ok h \<Longrightarrow> entry s p = None \<and> holds_file s' p [] \<and> touches p s s' \<and> h = p"
    "disposition = CREATE_NEW \<Longrightarrow> r = Err c \<Longrightarrow>
      quiet (\<lambda>_. True) s s' \<and> (windows_kind c = AlreadyExists \<longrightarrow> entry s p \<noteq> None)"
    "disposition = OPEN_EXISTING \<Longrightarrow> r = Ok h \<Longrightarrow> quiet (\<lambda>_. True) s s' \<and> entry s p \<noteq> None \<and> h = p"
    "disposition = OPEN_EXISTING \<Longrightarrow> r = Err c \<Longrightarrow>
      quiet (\<lambda>_. True) s s' \<and> (windows_kind c = NotFound \<longrightarrow> entry s p = None)"
  using assms(2) narrow_wide [OF assms(1)] unfolding mem_create_def
  by (auto elim!: api_call_cases [where V = "\<lambda>_. True"] simp: Let_def record_touches holds_file_def split: if_splits)

lemma mem_move_cases:
  assumes "drive_path p" "drive_path q" "mem_move (wide_path p) (wide_path q) flags s = (r, s')"
  shows "case r of
      Ok _ \<Rightarrow> \<exists>n. entry s p = Some n \<and> (flags AND MOVEFILE_REPLACE_EXISTING = 0 \<longrightarrow> entry s q = None)
        \<and> installs (\<lambda>_. True) [(q, Some n), (p, None)] s s'
    | Err c \<Rightarrow> quiet (\<lambda>_. True) s s'
        \<and> (windows_kind c = NotFound \<longrightarrow> entry s p = None) \<and> (windows_kind c = AlreadyExists \<longrightarrow> entry s q \<noteq> None)"
  using assms(3) narrow_wide [OF assms(1)] narrow_wide [OF assms(2)] unfolding mem_move_def
  by (auto elim!: api_call_cases [where V = "\<lambda>_. True"] simp: Let_def record_installs split: if_splits option.splits)

lemma mem_delete_cases:
  assumes "drive_path p" "mem_delete (wide_path p) s = (r, s')"
  shows "case r of Ok _ \<Rightarrow> entry s p \<noteq> None \<and> installs (\<lambda>_. True) [(p, None)] s s' | Err c \<Rightarrow> quiet (\<lambda>_. True) s s'"
  using assms(2) narrow_wide [OF assms(1)] unfolding mem_delete_def
  by (auto elim!: api_call_cases [where V = "\<lambda>_. True"] simp: Let_def record_installs
      split: if_splits option.splits node.splits)

lemma mem_append_cases:
  assumes "mem_append bs p s = (r, s')"
  shows "touches p s s'" "holds_file s p (file_bytes s p) \<Longrightarrow> holds_file s' p (file_bytes s' p)"
    "r = Ok u \<Longrightarrow> file_bytes s' p = file_bytes s p @ bs"
    "r = Err c \<Longrightarrow> windows_kind c \<noteq> AlreadyExists \<and> file_bytes s' p = file_bytes s p"
proof -
  have k: "windows_kind 6 \<noteq> AlreadyExists" by (simp add: windows_kind_def)
  have q: "entry s' p = entry s p" if "quiet (\<lambda>_. True) s s'" using quiet_entry [OF that] by simp
  note calls = api_call_cases [where V = "\<lambda>_. True", OF assms [unfolded mem_append_def]]
  show "touches p s s'"
    by (rule calls) (auto simp: record_touches quiet_touches split: option.splits node.splits)
  show "holds_file s p (file_bytes s p) \<Longrightarrow> holds_file s' p (file_bytes s' p)"
    by (rule calls) (auto simp: holds_file_def file_bytes_def q split: option.splits node.splits)
  show "r = Ok u \<Longrightarrow> file_bytes s' p = file_bytes s p @ bs"
    by (rule calls) (auto simp: file_bytes_def split: option.splits node.splits)
  show "r = Err c \<Longrightarrow> windows_kind c \<noteq> AlreadyExists \<and> file_bytes s' p = file_bytes s p"
    by (rule calls) (auto simp: file_bytes_def q k split: option.splits node.splits)
qed

lemma mem_write_append:
  "mem_write bs (h, s) = (r, h', s') \<Longrightarrow>
     \<exists>a. mem_append bs h s = (a, s') \<and> h' = h \<and> r = (case a of Err c \<Rightarrow> Err (last_os_error c) | Ok _ \<Rightarrow> Ok ())"
  by (auto simp: mem_write_def split: sum.splits prod.splits)

lemma mem_write_cases:
  assumes "mem_write bs (h, s) = (r, h', s')"
  shows "touches h s s' \<and> h' = h \<and> (holds_file s h (file_bytes s h) \<longrightarrow> holds_file s' h (file_bytes s' h))
    \<and> (case r of Ok _ \<Rightarrow> file_bytes s' h = file_bytes s h @ bs
       | Err e \<Rightarrow> io_kind e \<noteq> AlreadyExists \<and> file_bytes s' h = file_bytes s h)"
proof -
  obtain a where a: "mem_append bs h s = (a, s')" "h' = h"
    "r = (case a of Err c \<Rightarrow> Err (last_os_error c) | Ok _ \<Rightarrow> Ok ())"
    using mem_write_append [OF assms] by blast
  then show ?thesis using mem_append_cases [OF a(1)] by (cases a) simp_all
qed

lemma mem_set_time_cases:
  assumes "mem_set_time p time s = (r, s')"
  shows "case r of
      Ok _ \<Rightarrow> \<forall>bs t. entry s p = Some (FileNode bs t) \<longrightarrow>
        installs (\<lambda>_. True) [(p, Some (FileNode bs (Some (filetime_time time))))] s s'
    | Err c \<Rightarrow> quiet (\<lambda>_. True) s s' \<and> windows_kind c \<noteq> NotFound"
proof -
  have "windows_kind 6 \<noteq> NotFound" by (simp add: windows_kind_def)
  then show ?thesis
  using assms unfolding mem_set_time_def
  by (auto elim!: api_call_cases [where V = "\<lambda>_. True"] simp: record_installs split: option.splits node.splits)
qed

lemma mem_flush_cases:
  assumes "api_call (\<lambda>s. (Ok (), s)) s = (r :: (nat, unit) result, s')"
  shows "quiet (\<lambda>_. True) s s' \<and> (\<forall>c. r = Err c \<longrightarrow> windows_kind c \<noteq> AlreadyExists \<and> windows_kind c \<noteq> NotFound)"
  using assms by (auto elim!: api_call_cases [where V = "\<lambda>_. True"])

lemma temp_fill_cases:
  assumes "temp_fill n s = (g, s')"
  shows "quiet (\<lambda>_. True) s s' \<and> (\<forall>bs. g = Ok bs \<longrightarrow> length bs = n)"
  using assms by (auto simp: temp_fill_def split: list.splits sum.splits if_splits)

interpretation mem: windows_api mem_lib id
proof (unfold_locales, goal_cases)
  case 1 then show ?case using mem_create_cases(1) by (simp add: mem_lib_def)
next
  case 2 then show ?case using mem_create_cases(2) by (simp add: mem_lib_def)
next
  case 3 then show ?case using mem_create_cases(3) by (simp add: mem_lib_def)
next
  case 4 then show ?case using mem_create_cases(4) by (simp add: mem_lib_def)
next
  case 5 then show ?case using mem_write_cases by (fastforce simp: mem_lib_def)
next
  case (6 bs h s u h' s')
  then show ?case using mem_write_cases [of bs h s "Ok u" h' s'] by (simp add: mem_lib_def)
next
  case (7 bs h s e h' s')
  then show ?case using mem_write_cases [of bs h s "Err e" h' s'] by (auto simp: mem_lib_def intro: exI [of _ 0])
next
  case 8 then show ?case using mem_flush_cases by (simp add: mem_lib_def)
next
  case (9 h s c s') then show ?case using mem_flush_cases [of s "Err c" s'] by (simp add: mem_lib_def)
next
  case (10 h time s u s' bs t)
  then show ?case using mem_set_time_cases [of h time s "Ok u" s'] by (simp add: mem_lib_def)
next
  case (11 h time s c s') then show ?case using mem_set_time_cases [of h time s "Err c" s'] by (simp add: mem_lib_def)
next
  case (12 p q flags s u s') then show ?case using mem_move_cases [of p q flags s "Ok u" s'] by (simp add: mem_lib_def)
next
  case (13 p q flags s c s') then show ?case using mem_move_cases [of p q flags s "Err c" s'] by (simp add: mem_lib_def)
next
  case (14 p s u s') then show ?case using mem_delete_cases [of p s "Ok u" s'] by (simp add: mem_lib_def)
next
  case (15 p s c s') then show ?case using mem_delete_cases [of p s "Err c" s'] by (simp add: mem_lib_def)
next
  case 16 then show ?case by (simp add: mem_lib_def mem_read_dir_def Let_def)
next
  case (17 n s bs s') then show ?case using temp_fill_cases [of n s "Ok bs" s'] by (simp add: mem_lib_def)
next
  case 18 then show ?case using temp_fill_cases by (simp add: mem_lib_def)
qed

end
