(* ===== verification/WinFiles.thy ===== *)
theory WinFiles
  imports BlobFiles WinApi
begin

text \<open>
  The blob operations on Windows: the \<open>cfg(windows)\<close> half of \<open>src/filesystem/mod.rs\<close>, each function as a
  transformer of the file system. A save writes a staging file of its own, flushes it, moves it over the
  canonical file and flushes the directory; a clear moves the canonical file to a staging name first. The
  loops over random identifiers may run forever (\<open>None\<close>). The time of a call is its argument \<open>now\<close>.
  \<open>initialize_platform\<close> resolves the root with \<open>std::path::absolute\<close>, a parameter.
\<close>

section \<open>Calls\<close>

definition move_file :: "'h windows_lib \<Rightarrow> path \<Rightarrow> path \<Rightarrow> u32 \<Rightarrow> unit syscall" where
  "move_file W source destination flags s =
     (case MoveFileExW W (wide_path source) (wide_path destination) flags s of
        (Err code, s) \<Rightarrow> (Err (last_os_error code), s)
      | (Ok _, s) \<Rightarrow> (Ok (), s))"

definition commit_windows_staging :: "'h windows_lib \<Rightarrow> path \<Rightarrow> path \<Rightarrow> fs \<Rightarrow> unit store_result \<times> fs" where
  "commit_windows_staging W staging destination s =
     (case move_file W staging destination MOVEFILE_WRITE_THROUGH s of
        (Ok _, s) \<Rightarrow> (Ok (), s)
      | (Err error, s) \<Rightarrow>
          if raw_os_error error \<in> {Some ERROR_FILE_EXISTS, Some ERROR_ALREADY_EXISTS} then
            (case move_file W staging destination (MOVEFILE_REPLACE_EXISTING OR MOVEFILE_WRITE_THROUGH) s of
               (Err source, s) \<Rightarrow> (Err (AtomicCommit source), s)
             | (Ok _, s) \<Rightarrow> (Ok (), s))
          else (Err (AtomicCommit error), s))"

definition delete_file :: "'h windows_lib \<Rightarrow> path \<Rightarrow> unit syscall" where
  "delete_file W p s =
     (case DeleteFileW W (wide_path p) s of
        (Err code, s) \<Rightarrow> (Err (last_os_error code), s)
      | (Ok _, s) \<Rightarrow> (Ok (), s))"

definition sync_windows_directory :: "'h windows_lib \<Rightarrow> store_config \<Rightarrow> unit syscall" where
  "sync_windows_directory W cfg s =
     (case CreateFileW W (wide_path (cfg_namespace cfg)) GENERIC_WRITE
             (FILE_SHARE_READ OR FILE_SHARE_WRITE OR FILE_SHARE_DELETE) OPEN_EXISTING
             FILE_FLAG_BACKUP_SEMANTICS s of
        (Err code, s) \<Rightarrow> (Err (last_os_error code), s)
      | (Ok handle, s) \<Rightarrow>
          (case FlushFileBuffers W handle s of
             (Err code, s) \<Rightarrow> (Err (last_os_error code), s)
           | (Ok _, s) \<Rightarrow> (Ok (), s)))"

section \<open>Staging files\<close>

definition create_staging_file :: "'h windows_lib \<Rightarrow> path \<Rightarrow> fs \<Rightarrow> 'h store_result \<times> fs" where
  "create_staging_file W p s =
     (case CreateFileW W (wide_path p) GENERIC_WRITE 0 CREATE_NEW
             (FILE_ATTRIBUTE_NORMAL OR FILE_FLAG_WRITE_THROUGH) s of
        (Err code, s) \<Rightarrow> (io_err OpenAtomicWriter (last_os_error code), s)
      | (Ok handle, s) \<Rightarrow> (Ok handle, s))"

definition flush_staging_file :: "'h windows_lib \<Rightarrow> 'h \<Rightarrow> fs \<Rightarrow> unit store_result \<times> fs" where
  "flush_staging_file W handle s =
     (case FlushFileBuffers W handle s of
        (Err code, s) \<Rightarrow> (io_err WriteEnvelope (last_os_error code), s)
      | (Ok _, s) \<Rightarrow> (Ok (), s))"

definition create_windows_staging ::
  "'h windows_lib \<Rightarrow> path \<Rightarrow> bytes \<Rightarrow> bytes \<Rightarrow> bytes \<Rightarrow> fs \<Rightarrow> unit store_result \<times> fs" where
  "create_windows_staging W p header payload checksum s =
     (case create_staging_file W p s of
        (Err e, s) \<Rightarrow> (Err e, s)
      | (Ok handle, s) \<Rightarrow>
          (case write_sections (file_write_all W) [header, payload, checksum] (handle, s) of
             (Err e, handle, s) \<Rightarrow> (Err e, s)
           | (Ok _, handle, s) \<Rightarrow> flush_staging_file W handle s))"

definition create_windows_streaming_staging ::
  "crc32c_lib \<Rightarrow> 'h windows_lib \<Rightarrow> store_config \<Rightarrow> path \<Rightarrow> u64 \<Rightarrow> save_stream_message list \<Rightarrow> fs
     \<Rightarrow> unit store_result \<times> save_stream_message list \<times> fs" where
  "create_windows_streaming_staging C W cfg p declared_len chunks s =
     (case create_staging_file W p s of
        (Err e, s) \<Rightarrow> (Err e, chunks, s)
      | (Ok handle, s) \<Rightarrow>
          (case write_stream_envelope C (file_write_all W) cfg declared_len chunks (handle, s) of
             (Err e, chunks, handle, s) \<Rightarrow> (Err e, chunks, s)
           | (Ok _, chunks, handle, s) \<Rightarrow>
               (case flush_staging_file W handle s of (result, s) \<Rightarrow> (result, chunks, s))))"

text \<open>\<open>from_le_bytes\<close> of the halves of \<open>to_le_bytes\<close>.\<close>

definition filetime_of_ticks :: "u64 \<Rightarrow> filetime" where
  "filetime_of_ticks ticks =
     (let le = rev (be64 ticks)
      in \<lparr>dwLowDateTime = from_be_bytes (rev (take 4 le)), dwHighDateTime = from_be_bytes (rev (drop 4 le))\<rparr>)"

definition windows_ticks :: "u64 \<Rightarrow> u32 \<Rightarrow> u64 option" where
  "windows_ticks secs subsec_nanos =
     (case checked_mul secs HUNDRED_NS_PER_SECOND of
        None \<Rightarrow> None
      | Some ticks \<Rightarrow>
          (case checked_add ticks (ucast (subsec_nanos div 100)) of
             None \<Rightarrow> None
           | Some ticks \<Rightarrow> checked_add ticks WINDOWS_EPOCH_OFFSET_100NS))"

definition refresh_windows_clear_age :: "'h windows_lib \<Rightarrow> system_time \<Rightarrow> path \<Rightarrow> unit syscall" where
  "refresh_windows_clear_age W now p s =
     (if now < 0 then (Err (io_error_other ''second time provided was later than self''), s)
      else case windows_ticks (of_int (now div 1000000000)) (of_int (now mod 1000000000)) of
        None \<Rightarrow> (Err (io_error_other ''current time cannot be represented as a Windows file time''), s)
      | Some ticks \<Rightarrow>
          (case CreateFileW W (wide_path p) (GENERIC_WRITE OR FILE_WRITE_ATTRIBUTES) 0 OPEN_EXISTING
                  (FILE_ATTRIBUTE_NORMAL OR FILE_FLAG_WRITE_THROUGH) s of
             (Err code, s) \<Rightarrow> (Err (last_os_error code), s)
           | (Ok handle, s) \<Rightarrow>
               (case SetFileTime W handle (filetime_of_ticks ticks) s of
                  (Err code, s) \<Rightarrow> (Err (last_os_error code), s)
                | (Ok _, s) \<Rightarrow>
                    (case FlushFileBuffers W handle s of
                       (Err code, s) \<Rightarrow> (Err (last_os_error code), s)
                     | (Ok _, s) \<Rightarrow> (Ok (), s)))))"

section \<open>Saving\<close>

definition windows_random_identifier :: "'h windows_lib \<Rightarrow> fs \<Rightarrow> string store_result \<times> fs" where
  "windows_random_identifier W s =
     (case random_fill W 32 s of
        (Err source, s) \<Rightarrow> (Err (IdentifierGeneration source), s)
      | (Ok bs, s) \<Rightarrow> (Ok (hex_encode bs), s))"

definition windows_staging :: "store_config \<Rightarrow> string \<Rightarrow> string \<Rightarrow> string \<Rightarrow> path" where
  "windows_staging cfg hash kind identifier' =
     windows_join (cfg_namespace cfg) (staging_name (cfg_format cfg) hash kind identifier')"

text \<open>The errors that make a save draw another identifier.\<close>

definition staging_taken :: "store_error \<Rightarrow> bool" where
  "staging_taken e = (case e of Io _ source \<Rightarrow> io_kind source = AlreadyExists | _ \<Rightarrow> False)"

definition install_staging :: "'h windows_lib \<Rightarrow> store_config \<Rightarrow> path \<Rightarrow> path \<Rightarrow> fs \<Rightarrow> unit store_result \<times> fs" where
  "install_staging W cfg staging p s =
     (case commit_windows_staging W staging p s of
        (Err e, s) \<Rightarrow> (Err e, s)
      | (Ok _, s) \<Rightarrow>
          (case sync_windows_directory W cfg s of
             (Err source, s) \<Rightarrow> (io_err SyncNamespaceDirectory source, s)
           | (Ok _, s) \<Rightarrow> (Ok (), s)))"

partial_function (option) windows_save_loop ::
  "'h windows_lib \<Rightarrow> store_config \<Rightarrow> path \<Rightarrow> string \<Rightarrow> bytes \<Rightarrow> bytes \<Rightarrow> bytes \<Rightarrow> fs
     \<Rightarrow> (unit store_result \<times> fs) option" where
  "windows_save_loop W cfg p hash header payload checksum s =
     (case windows_random_identifier W s of
        (Err e, s1) \<Rightarrow> Some (Err e, s1)
      | (Ok identifier', s1) \<Rightarrow>
          (let staging = windows_staging cfg hash ''save'' identifier'
           in case create_windows_staging W staging header payload checksum s1 of
                (Ok _, s2) \<Rightarrow> Some (install_staging W cfg staging p s2)
              | (Err e, s2) \<Rightarrow>
                  if staging_taken e then windows_save_loop W cfg p hash header payload checksum s2
                  else Some (Err e, s2)))"

definition windows_save_blob ::
  "crc32c_lib \<Rightarrow> 'h windows_lib \<Rightarrow> store_config \<Rightarrow> path \<Rightarrow> bytes \<Rightarrow> fs \<Rightarrow> (unit store_result \<times> fs) option" where
  "windows_save_blob C W cfg p payload s =
     (case envelope_parts C (cfg_format cfg) payload (cfg_maximum cfg) of
        Err e \<Rightarrow> Some (Err e, s)
      | Ok (header, checksum) \<Rightarrow>
          (case Option.bind (windows_file_stem p) to_str of
             None \<Rightarrow> Some (Err UnexpectedFileType, s)
           | Some hash \<Rightarrow> windows_save_loop W cfg p hash header payload checksum s))"

partial_function (option) windows_save_stream_loop ::
  "crc32c_lib \<Rightarrow> 'h windows_lib \<Rightarrow> store_config \<Rightarrow> path \<Rightarrow> string \<Rightarrow> u64 \<Rightarrow> save_stream_message list \<Rightarrow> fs
     \<Rightarrow> (unit store_result \<times> save_stream_message list \<times> fs) option" where
  "windows_save_stream_loop C W cfg p hash declared_len chunks s =
     (case windows_random_identifier W s of
        (Err e, s1) \<Rightarrow> Some (Err e, chunks, s1)
      | (Ok identifier', s1) \<Rightarrow>
          (let staging = windows_staging cfg hash ''save'' identifier'
           in case create_windows_streaming_staging C W cfg staging declared_len chunks s1 of
                (Ok _, chunks2, s2) \<Rightarrow>
                  (case install_staging W cfg staging p s2 of (result, s3) \<Rightarrow> Some (result, chunks2, s3))
              | (Err e, chunks2, s2) \<Rightarrow>
                  if staging_taken e then windows_save_stream_loop C W cfg p hash declared_len chunks2 s2
                  else Some (Err e, chunks2, snd (delete_file W staging s2))))"

definition windows_save_blob_from_receiver ::
  "crc32c_lib \<Rightarrow> 'h windows_lib \<Rightarrow> store_config \<Rightarrow> path \<Rightarrow> u64 \<Rightarrow> save_stream_message list \<Rightarrow> fs
     \<Rightarrow> (unit store_result \<times> save_stream_message list \<times> fs) option" where
  "windows_save_blob_from_receiver C W cfg p declared_len chunks s =
     (case envelope_header (cfg_format cfg) declared_len (cfg_maximum cfg) of
        Err e \<Rightarrow> Some (Err e, chunks, s)
      | Ok _ \<Rightarrow>
          (case Option.bind (windows_file_stem p) to_str of
             None \<Rightarrow> Some (Err UnexpectedFileType, chunks, s)
           | Some hash \<Rightarrow> windows_save_stream_loop C W cfg p hash declared_len chunks s))"

section \<open>Clearing\<close>

partial_function (option) windows_clear_loop ::
  "'h windows_lib \<Rightarrow> store_config \<Rightarrow> path \<Rightarrow> string \<Rightarrow> fs \<Rightarrow> (unit store_result \<times> fs) option" where
  "windows_clear_loop W cfg p hash s =
     (case windows_random_identifier W s of
        (Err e, s1) \<Rightarrow> Some (Err e, s1)
      | (Ok identifier', s1) \<Rightarrow>
          (let staging = windows_staging cfg hash ''clear'' identifier'
           in case move_file W p staging MOVEFILE_WRITE_THROUGH s1 of
                (Ok _, s2) \<Rightarrow>
                  (case sync_windows_directory W cfg s2 of
                     (Err source, s3) \<Rightarrow> Some (io_err SyncNamespaceDirectory source, s3)
                   | (Ok _, s3) \<Rightarrow>
                       (case delete_file W staging s3 of
                          (Err source, s4) \<Rightarrow> Some (io_err RemoveTemporaryFile source, s4)
                        | (Ok _, s4) \<Rightarrow> Some (Ok (), s4)))
              | (Err error, s2) \<Rightarrow>
                  if io_kind error = NotFound then Some (ensure_namespace_available cfg s2)
                  else if io_kind error = AlreadyExists then windows_clear_loop W cfg p hash s2
                  else Some (io_err RemoveBlob error, s2)))"

definition windows_clear_blob ::
  "'h windows_lib \<Rightarrow> system_time \<Rightarrow> store_config \<Rightarrow> path \<Rightarrow> fs \<Rightarrow> (unit store_result \<times> fs) option" where
  "windows_clear_blob W now cfg p s =
     (case Option.bind (windows_file_stem p) to_str of
        None \<Rightarrow> Some (Err UnexpectedFileType, s)
      | Some hash \<Rightarrow>
          (case refresh_windows_clear_age W now p s of
             (Ok _, s) \<Rightarrow> windows_clear_loop W cfg p hash s
           | (Err source, s) \<Rightarrow>
               if io_kind source = NotFound then Some (ensure_namespace_available cfg s)
               else Some (io_err RefreshClearStagingAge source, s)))"

section \<open>Quarantine\<close>

partial_function (option) windows_quarantine_loop ::
  "'h windows_lib \<Rightarrow> store_config \<Rightarrow> path \<Rightarrow> string \<Rightarrow> fs \<Rightarrow> (quarantine_info store_result \<times> fs) option" where
  "windows_quarantine_loop W cfg p hash s =
     (case windows_random_identifier W s of
        (Err e, s1) \<Rightarrow> Some (Err e, s1)
      | (Ok identifier', s1) \<Rightarrow>
          (let destination = windows_join (cfg_namespace cfg) (quarantine_name (cfg_format cfg) hash identifier')
           in case move_file W p destination MOVEFILE_WRITE_THROUGH s1 of
                (Ok _, s2) \<Rightarrow>
                  (let quarantine = \<lparr>qi_identifier = identifier', diagnostic_path = destination\<rparr>
                   in case sync_windows_directory W cfg s2 of
                        (Err source, s3) \<Rightarrow> Some (Err (QuarantineNamespaceSync quarantine source), s3)
                      | (Ok _, s3) \<Rightarrow> Some (Ok quarantine, s3))
              | (Err error, s2) \<Rightarrow>
                  if io_kind error = NotFound then
                    (case ensure_namespace_available cfg s2 of
                       (Err e, s3) \<Rightarrow> Some (Err e, s3)
                     | (Ok _, s3) \<Rightarrow> Some (Err QuarantineSourceMissing, s3))
                  else if io_kind error = AlreadyExists then windows_quarantine_loop W cfg p hash s2
                  else Some (Err (QuarantineCommit error), s2)))"

definition windows_quarantine_blob ::
  "'h windows_lib \<Rightarrow> store_config \<Rightarrow> path \<Rightarrow> fs \<Rightarrow> (quarantine_info store_result \<times> fs) option" where
  "windows_quarantine_blob W cfg p s =
     (case Option.bind (windows_file_stem p) to_str of
        None \<Rightarrow> Some (Err UnexpectedFileType, s)
      | Some hash \<Rightarrow> windows_quarantine_loop W cfg p hash s)"

section \<open>Cleanup\<close>

text \<open>\<open>OsStr::to_string_lossy\<close>: a lone surrogate becomes the replacement character.\<close>

fun to_string_lossy :: "string \<Rightarrow> string" where
  "to_string_lossy (a # b # c # s) =
     (if a = CHR 0xED \<and> (of_char b :: nat) \<ge> 0xA0
      then CHR 0xEF # CHR 0xBF # CHR 0xBD # to_string_lossy s
      else a # to_string_lossy (b # c # s))"
| "to_string_lossy s = s"

definition add_failure :: "string \<Rightarrow> io_error \<Rightarrow> cleanup_report \<Rightarrow> cleanup_report" where
  "add_failure name source report =
     report\<lparr>cr_failures := cr_failures report @ [\<lparr>cf_identifier = name, cf_source = source\<rparr>]\<rparr>"

definition old_enough :: "system_time \<Rightarrow> nat \<Rightarrow> metadata \<Rightarrow> bool" where
  "old_enough now minimum_age m =
     (case md_modified m of None \<Rightarrow> False | Some t \<Rightarrow> t \<le> now \<and> int minimum_age \<le> now - t)"

definition cleanup_owned ::
  "'h windows_lib \<Rightarrow> system_time \<Rightarrow> nat \<Rightarrow> path \<Rightarrow> string \<Rightarrow> cleanup_report \<Rightarrow> fs \<Rightarrow> cleanup_report \<times> fs" where
  "cleanup_owned W now minimum_age p name report s =
     (case fs_symlink_metadata p s of
        (Err source, s) \<Rightarrow> (add_failure name source report, s)
      | (Ok m, s) \<Rightarrow>
          if md_type m \<noteq> IsFile
          then (add_failure name (io_error_other ''owned staging name is not a regular file'') report, s)
          else if \<not> old_enough now minimum_age m then (report\<lparr>cr_skipped := cr_skipped report @ [name]\<rparr>, s)
          else (case delete_file W p s of
                  (Ok _, s) \<Rightarrow> (report\<lparr>cr_removed := cr_removed report @ [name]\<rparr>, s)
                | (Err source, s) \<Rightarrow> (add_failure name source report, s)))"

fun cleanup_entries ::
  "'h windows_lib \<Rightarrow> store_config \<Rightarrow> system_time \<Rightarrow> nat \<Rightarrow> (io_error, string) result list \<Rightarrow> cleanup_report \<Rightarrow> fs
     \<Rightarrow> cleanup_report \<times> fs" where
  "cleanup_entries W cfg now minimum_age [] report s = (report, s)"
| "cleanup_entries W cfg now minimum_age (Err source # entries) report s =
     cleanup_entries W cfg now minimum_age entries (add_failure ''<directory-entry>'' source report) s"
| "cleanup_entries W cfg now minimum_age (Ok file # entries) report s =
     (let name = to_string_lossy file
      in if \<not> is_owned_temporary_filename name (filename_suffix (cfg_format cfg))
         then cleanup_entries W cfg now minimum_age entries report s
         else (case cleanup_owned W now minimum_age (windows_join (cfg_namespace cfg) file) name report s of
                 (report, s) \<Rightarrow> cleanup_entries W cfg now minimum_age entries report s))"

definition windows_cleanup_stale_files ::
  "'h windows_lib \<Rightarrow> system_time \<Rightarrow> store_config \<Rightarrow> nat \<Rightarrow> fs \<Rightarrow> cleanup_report store_result \<times> fs" where
  "windows_cleanup_stale_files W now cfg minimum_age s =
     (case fs_read_dir W (cfg_namespace cfg) s of
        (Err source, s) \<Rightarrow> (io_err EnumerateTemporaryFiles source, s)
      | (Ok entries, s) \<Rightarrow>
          (case cleanup_entries W cfg now minimum_age entries cleanup_report_default s of
             (report, s) \<Rightarrow> (Ok report, s)))"

section \<open>Opening a namespace\<close>

text \<open>\<open>std::fs::create_dir\<close> needs the parent directory, which on Windows ends at the last separator.\<close>

definition windows_parent :: "path \<Rightarrow> path" where
  "windows_parent p = rev (drop 1 (dropWhile (\<lambda>c. \<not> windows_separator c) (rev p)))"

definition windows_create_dir :: "path \<Rightarrow> unit syscall" where
  "windows_create_dir p = syscall (\<lambda>s.
     (case entry s p of
        Some _ \<Rightarrow> (Err (last_os_error ERROR_ALREADY_EXISTS), s)
      | None \<Rightarrow>
          if entry s (windows_parent p) = Some DirNode \<or> entry s (windows_parent p @ [CHR 0x5C]) = Some DirNode
          then (Ok (), record_event (Update [(p, Some DirNode)]) s)
          else (Err (last_os_error ERROR_FILE_NOT_FOUND), s)))"

definition windows_initialize_platform ::
  "(path \<Rightarrow> path io_result) \<Rightarrow> path \<Rightarrow> path \<Rightarrow> blob_format_identity \<Rightarrow> u64 \<Rightarrow> nat \<Rightarrow> fs \<Rightarrow> store_config store_result \<times> fs" where
  "windows_initialize_platform absolute root namespace_component format maximum max_concurrent_operations s =
   (case absolute root of
      Err source \<Rightarrow> (io_err NormalizeRoot source, s)
    | Ok root \<Rightarrow>
   case fs_metadata root s of
      (Err source, s) \<Rightarrow>
        (if io_kind source = NotFound then Err RootDoesNotExist else io_err InspectRoot source, s)
    | (Ok m, s) \<Rightarrow>
   if md_type m \<noteq> IsDir then (Err RootIsNotDirectory, s) else
   let namespace = windows_join root namespace_component;
       config = \<lparr>cfg_namespace = namespace, cfg_format = format, cfg_maximum = maximum,
                 cfg_max_concurrent_operations = max_concurrent_operations\<rparr>
   in case windows_create_dir namespace s of
      (Ok _, s) \<Rightarrow> (Ok config, s)
    | (Err source, s) \<Rightarrow>
        if io_kind source = AlreadyExists then
          (case fs_metadata namespace s of
             (Err source, s) \<Rightarrow> (io_err InspectNamespace source, s)
           | (Ok m, s) \<Rightarrow>
               (if md_type m \<noteq> IsDir then Err NamespacePathIsNotDirectory else Ok config, s))
        else (io_err CreateNamespace source, s))"

end
