(* ===== verification/WinProps.thy ===== *)
theory WinProps
  imports BlobProps WinFiles
begin

text \<open>
  Saving and clearing on Windows. What an application sees is every path but the staging names of the
  store in its namespace. A save leaves the canonical file old or new at every point at which the process
  can stop, and with a fresh identifier it returns; a clear refreshes the time of the file before it takes
  it away, and nothing else changes.
\<close>

section \<open>Observers\<close>

lemma visible_restrict:
  assumes "\<And>p. V p \<Longrightarrow> V' p"
  shows "visible_updates V evs = filter (\<lambda>us. us \<noteq> []) (map (filter (\<lambda>(p, _). V p)) (visible_updates V' evs))"
proof (induction evs)
  case (Cons ev evs)
  show ?case
  proof (cases ev)
    case (Update us)
    have f: "filter (\<lambda>(p, _). V p) (filter (\<lambda>(p, _). V' p) us) = filter (\<lambda>(p, _). V p) us"
      unfolding filter_filter using assms by (intro filter_cong) auto
    then show ?thesis using Cons Update
      by (cases "filter (\<lambda>(p, _). V' p) us = []") (simp_all add: Let_def)
  next
    case (SyncDir d)
    with Cons show ?thesis by simp
  qed
qed simp

lemma quiet_restrict:
  assumes "quiet V' s s'" "\<And>p. V p \<Longrightarrow> V' p"
  shows "quiet V s s'"
  using assms(1) visible_restrict [where V = V and V' = V', OF assms(2)]
  by (simp add: quiet_def visible_def)

lemma installs_restrict:
  assumes "installs V' us s s'" "\<And>p. V p \<Longrightarrow> V' p" "filter (\<lambda>(p, _). V p) us = us'"
  shows "if us' = [] then quiet V s s' else installs V us' s s'"
  using assms(1,3) visible_restrict [where V = V and V' = V', OF assms(2)]
  by (auto simp: quiet_def installs_def visible_def)
definition windows_observable :: "store_config \<Rightarrow> path \<Rightarrow> bool" where
  "windows_observable cfg q \<longleftrightarrow>
     \<not> (\<exists>n. is_owned_temporary_filename n (filename_suffix (cfg_format cfg)) \<and> q = windows_join (cfg_namespace cfg) n)"

text \<open>A configuration whose namespace is a directory on a drive, and its canonical files.\<close>

definition drive_config :: "store_config \<Rightarrow> bool" where
  "drive_config cfg \<longleftrightarrow> wf_format (cfg_format cfg) \<and> drive_path (cfg_namespace cfg)"

definition windows_blob_path :: "store_config \<Rightarrow> string \<Rightarrow> path" where
  "windows_blob_path cfg hash = windows_join (cfg_namespace cfg) (hash @ filename_suffix (cfg_format cfg))"

lemma lower_hex_plain: "lower_hex c \<Longrightarrow> c \<noteq> CHR '':'' \<and> c \<noteq> CHR 0x5C \<and> c \<noteq> CHR 0x00 \<and> (of_char c :: nat) < 0x80"
  by (auto simp: lower_hex_def is_ascii_hexdigit_def is_ascii_digit_def)

lemma suffix_byte_plain: "suffix_byte c \<Longrightarrow> c \<noteq> CHR '':'' \<and> c \<noteq> CHR 0x5C \<and> c \<noteq> CHR 0x00 \<and> (of_char c :: nat) < 0x80"
  by (auto simp: suffix_byte_def is_ascii_lowercase_def is_ascii_digit_def)

lemma windows_plain_name:
  assumes "wf_format f" "is_hex_name h" "windows_plain (CHR ''x'' # tail)"
  shows "windows_plain (h @ filename_suffix f @ tail)"
proof -
  obtain body where b: "filename_suffix f = CHR ''.'' # body" "list_all suffix_byte body"
    by (rule wf_format_suffix [OF assms(1)])
  have "plain_name (h @ filename_suffix f @ tail)"
    using assms(3) by (intro plain_name_hex [OF assms(1,2)]) (simp add: windows_plain_def plain_name_def)
  then show ?thesis
    using assms(2,3) b lower_hex_plain suffix_byte_plain
    by (auto simp: windows_plain_def is_hex_name_def list_all_iff ascii_string_def)
qed

lemma windows_plain_hex_tail:
  assumes "is_hex_name i" "windows_plain (CHR ''x'' # t)"
  shows "windows_plain (CHR ''x'' # t @ i)"
  using assms lower_hex_plain lower_hex_not_slash
  by (auto simp: windows_plain_def plain_name_def is_hex_name_def list_all_iff ascii_string_def)

lemma windows_plain_marks:
  "windows_plain (CHR ''x'' # ''.tmp-v1.save.'')" "windows_plain (CHR ''x'' # ''.tmp-v1.clear.'')"
  "windows_plain (CHR ''x'' # ''.quarantine-v1.'')" "windows_plain [CHR ''x'']"
  by (simp_all add: windows_plain_def plain_name_def ascii_string_def)

lemma store_names_plain:
  assumes "drive_config cfg" "is_hex_name h"
  shows "windows_plain (h @ filename_suffix (cfg_format cfg))"
    "is_hex_name i \<Longrightarrow> kind \<in> {''save'', ''clear''} \<Longrightarrow> windows_plain (staging_name (cfg_format cfg) h kind i)"
    "is_hex_name i \<Longrightarrow> windows_plain (quarantine_name (cfg_format cfg) h i)"
proof -
  have wf: "wf_format (cfg_format cfg)" using assms(1) by (simp add: drive_config_def)
  note n = windows_plain_name [OF wf assms(2)]
  show "windows_plain (h @ filename_suffix (cfg_format cfg))" using n [of "[]"] windows_plain_marks(4) by simp
  show "is_hex_name i \<Longrightarrow> kind \<in> {''save'', ''clear''} \<Longrightarrow> windows_plain (staging_name (cfg_format cfg) h kind i)"
    using n [OF windows_plain_hex_tail [OF _ windows_plain_marks(1)]]
      n [OF windows_plain_hex_tail [OF _ windows_plain_marks(2)]]
    by (auto simp: staging_name_def)
  show "is_hex_name i \<Longrightarrow> windows_plain (quarantine_name (cfg_format cfg) h i)"
    using n [OF windows_plain_hex_tail [OF _ windows_plain_marks(3)]] by (simp add: quarantine_name_def)
qed

lemma owned_windows_plain:
  assumes "drive_config cfg" "is_owned_temporary_filename n (filename_suffix (cfg_format cfg))"
  shows "windows_plain n"
  using assms store_names_plain(2) owned_exactly [of "cfg_format cfg"] by (fastforce simp: drive_config_def)

lemma store_paths:
  assumes "drive_config cfg" "is_hex_name h"
  shows "drive_path (cfg_namespace cfg)" "drive_path (windows_blob_path cfg h)"
    "windows_observable cfg (windows_blob_path cfg h)"
    "windows_file_stem (windows_blob_path cfg h) = Some h"
proof -
  have wf: "wf_format (cfg_format cfg)" and d: "drive_path (cfg_namespace cfg)"
    using assms(1) by (simp_all add: drive_config_def)
  note plain = store_names_plain [OF assms]
  show "drive_path (cfg_namespace cfg)" by (rule d)
  show "drive_path (windows_blob_path cfg h)" unfolding windows_blob_path_def by (rule drive_path_join [OF d plain(1)])
  show "windows_file_stem (windows_blob_path cfg h) = Some h"
    by (simp add: windows_blob_path_def windows_file_stem_def windows_file_name_join [OF d plain(1)]
        stem_of_hex_name [OF wf assms(2)])
  show "windows_observable cfg (windows_blob_path cfg h)"
  proof (unfold windows_observable_def, intro notI, elim exE conjE)
    fix n assume n: "is_owned_temporary_filename n (filename_suffix (cfg_format cfg))"
      "windows_blob_path cfg h = windows_join (cfg_namespace cfg) n"
    have "h @ filename_suffix (cfg_format cfg) = n"
      using n(2) unfolding windows_blob_path_def
      by (rule windows_join_inj [OF d plain(1) owned_windows_plain [OF assms(1) n(1)]])
    with n(1) assms(2) show False
      by (auto simp: owned_exactly [OF wf] staging_name_def is_hex_name_def dest!: arg_cong [where f = length])
  qed
qed

lemma staging_paths:
  assumes "drive_config cfg" "is_hex_name h" "is_hex_name i" "kind \<in> {''save'', ''clear''}"
  shows "drive_path (windows_staging cfg h kind i)" "\<not> windows_observable cfg (windows_staging cfg h kind i)"
proof -
  have wf: "wf_format (cfg_format cfg)" and d: "drive_path (cfg_namespace cfg)"
    using assms(1) by (simp_all add: drive_config_def)
  show "drive_path (windows_staging cfg h kind i)"
    unfolding windows_staging_def
    by (rule drive_path_join [OF d store_names_plain(2) [OF assms]])
  have "is_owned_temporary_filename (staging_name (cfg_format cfg) h kind i) (filename_suffix (cfg_format cfg))"
    using owned_exactly [OF wf] assms(2-4) by blast
  then show "\<not> windows_observable cfg (windows_staging cfg h kind i)"
    by (auto simp: windows_observable_def windows_staging_def)
qed

lemma clear_staging_directory:
  "drive_config cfg \<Longrightarrow> is_hex_name h \<Longrightarrow> is_hex_name i \<Longrightarrow>
     same_directory (windows_blob_path cfg h) (windows_staging cfg h ''clear'' i)"
  unfolding windows_blob_path_def windows_staging_def
  by (rule same_directoryI) (simp_all add: drive_config_def store_names_plain(1,2))

section \<open>The steps of a save\<close>

sublocale windows_api \<subseteq> staged: byte_sink "file_write_all W" "\<lambda>(h, s). file_bytes s (opened h)"
proof (unfold_locales, goal_cases)
  case (1 bs a u b)
  then show ?case using write_Ok write_touches by (cases a; cases b) fastforce
next
  case (2 bs a e b)
  then show ?case using write_Err write_touches by (cases a; cases b) fastforce
qed

text \<open>No error of a writer that never reports an existing file makes a save draw again.\<close>

lemma staging_taken_simps [simp]:
  "staging_taken (Io operation source) \<longleftrightarrow> io_kind source = AlreadyExists"
  "\<not> staging_taken StreamCancelled" "\<not> staging_taken (InputHasTrailingData d)"
  "\<not> staging_taken (InputEndedEarly d a)" "\<not> staging_taken (BlobTooLarge a b)"
  by (simp_all add: staging_taken_def)

lemma write_sections_not_taken:
  assumes "\<And>bs s e s'. write bs s = (Err e, s') \<Longrightarrow> io_kind e \<noteq> AlreadyExists"
  shows "write_sections write sections s = (Err e, s') \<Longrightarrow> \<not> staging_taken e"
  by (induction sections arbitrary: s) (auto split: prod.splits sum.splits dest: assms)

lemma write_stream_not_taken:
  assumes "\<And>bs s e s'. write bs s = (Err e, s') \<Longrightarrow> io_kind e \<noteq> AlreadyExists"
    and "write_stream_envelope C write cfg declared ms s = (Err e, rest, s')"
  shows "\<not> staging_taken e"
proof -
  have loop: "write_stream_loop C write declared checksum written ms s = (Err e, rest, s') \<Longrightarrow> \<not> staging_taken e"
    for checksum written ms s
  proof (induction ms arbitrary: checksum written s)
    case (Cons m ms)
    then show ?case by (cases m) (auto split: if_splits prod.splits sum.splits dest: assms(1))
  qed auto
  with assms(2) show ?thesis
    by (auto simp: write_stream_envelope_def envelope_header_def split: if_splits prod.splits sum.splits
        dest: assms(1))
qed

text \<open>A staging file that was written: only its own entry has changed, and it holds the envelope.\<close>

definition staged_file :: "path \<Rightarrow> bytes \<Rightarrow> fs \<Rightarrow> fs \<Rightarrow> bool" where
  "staged_file p bs s s' \<longleftrightarrow> touches p s s' \<and> holds_file s' p bs"

lemma touches_trans [trans]: "touches p a b \<Longrightarrow> touches p b c \<Longrightarrow> touches p a c"
  unfolding touches_def by (rule quiet_trans)

text \<open>The move over the canonical file: the observer sees one update, or none.\<close>

definition commits :: "store_config \<Rightarrow> path \<Rightarrow> bytes \<Rightarrow> fs \<Rightarrow> fs \<Rightarrow> bool" where
  "commits cfg p bs s s' \<longleftrightarrow> (\<exists>t. installs (windows_observable cfg) [(p, Some (FileNode bs t))] s s')"

lemma move_commits:
  assumes "windows_observable cfg p" "\<not> windows_observable cfg st" "holds_file s st bs" "entry s st = Some n"
    and "installs (\<lambda>_. True) [(p, Some n), (st, None)] s s'"
  shows "commits cfg p bs s s'"
proof -
  obtain t where "n = FileNode bs t" using assms(3,4) by (auto simp: holds_file_def)
  with installs_restrict [OF assms(5), of "windows_observable cfg" "[(p, Some n)]"] assms(1,2)
  show ?thesis by (auto simp: commits_def)
qed

text \<open>The outcome of a save, as an observer sees it.\<close>

definition windows_outcome :: "store_config \<Rightarrow> path \<Rightarrow> bytes \<Rightarrow> fs \<Rightarrow> unit store_result \<Rightarrow> fs \<Rightarrow> bool" where
  "windows_outcome cfg p bs s r s' \<longleftrightarrow>
     quiet (windows_observable cfg) s s' \<and> (\<exists>e. r = Err e)
     \<or> commits cfg p bs s s' \<and> (r = Ok () \<or> (\<exists>source. r = Err (AtomicCommit source))
          \<or> (\<exists>source. r = Err (Io SyncNamespaceDirectory source)))"

lemma windows_outcome_quiet:
  "quiet (windows_observable cfg) s s1 \<Longrightarrow> windows_outcome cfg p bs s1 r s' \<Longrightarrow> windows_outcome cfg p bs s r s'"
  unfolding windows_outcome_def commits_def by (blast intro: quiet_trans quiet_installs)

lemma touches_quiet: "touches st s s' \<Longrightarrow> \<not> windows_observable cfg st \<Longrightarrow> quiet (windows_observable cfg) s s'"
  unfolding touches_def by (erule quiet_restrict) auto

context windows_api
begin

text \<open>Writes keep the handle, and touch nothing but the file.\<close>

definition handle_step :: "'h \<times> fs \<Rightarrow> 'h \<times> fs \<Rightarrow> bool" where
  "handle_step a b \<longleftrightarrow> opened (fst b) = opened (fst a) \<and> touches (opened (fst a)) (snd a) (snd b)
     \<and> (holds_file (snd a) (opened (fst a)) (file_bytes (snd a) (opened (fst a))) \<longrightarrow>
        holds_file (snd b) (opened (fst a)) (file_bytes (snd b) (opened (fst a))))"

lemma handle_step_write: "file_write_all W bs a = (r, b) \<Longrightarrow> handle_step a b"
  using write_touches by (cases a; cases b) (simp add: handle_step_def)

lemma handle_step_refl: "handle_step a a"
  by (simp add: handle_step_def touches_def)

lemma handle_step_trans: "handle_step a b \<Longrightarrow> handle_step b c \<Longrightarrow> handle_step a c"
  using touches_trans by (auto simp: handle_step_def)

lemma writes_not_taken: "file_write_all W bs a = (Err e, b) \<Longrightarrow> io_kind e \<noteq> AlreadyExists"
  using write_Err by (cases a; cases b) blast

lemma create_staging_file_cases:
  assumes "drive_path p" "create_staging_file W p s = (r, s')"
  shows "case r of
      Ok h \<Rightarrow> entry s p = None \<and> holds_file s' p [] \<and> touches p s s' \<and> opened h = p
    | Err e \<Rightarrow> quiet (\<lambda>_. True) s s' \<and> (staging_taken e \<longrightarrow> entry s p \<noteq> None)"
  using assms(2) create_new_Ok [OF assms(1)] create_new_Err [OF assms(1)]
  by (fastforce simp: create_staging_file_def io_err_def split: prod.splits sum.splits)

lemma flush_staging_file_cases:
  assumes "flush_staging_file W h s = (r, s')"
  shows "quiet (\<lambda>_. True) s s' \<and> (\<forall>e. r = Err e \<longrightarrow> \<not> staging_taken e)"
  using assms flush_quiet flush_Err
  by (fastforce simp: flush_staging_file_def io_err_def split: prod.splits sum.splits)

lemma staged_quiet: "staged_file p bs s s' \<Longrightarrow> quiet (\<lambda>_. True) s' s'' \<Longrightarrow> staged_file p bs s s''"
  using quiet_touches touches_trans by (auto simp: staged_file_def holds_file_def quiet_same_entries)

lemma create_windows_staging_cases:
  assumes "drive_path p" "create_windows_staging W p header payload checksum s = (r, s')"
  shows "case r of
      Ok _ \<Rightarrow> staged_file p (header @ payload @ checksum) s s'
    | Err e \<Rightarrow> touches p s s' \<and> (staging_taken e \<longrightarrow> quiet (\<lambda>_. True) s s' \<and> entry s p \<noteq> None)"
proof -
  obtain o1 s1 where c: "create_staging_file W p s = (o1, s1)" by fastforce
  note o = create_staging_file_cases [OF assms(1) c]
  show ?thesis
  proof (cases o1)
    case (Inl e)
    with assms(2) c o show ?thesis by (auto simp: create_windows_staging_def quiet_touches)
  next
    case h: (Inr h)
    obtain r2 h2 s2 where wr:
      "write_sections (file_write_all W) [header, payload, checksum] (h, s1) = (r2, h2, s2)"
      by (cases "write_sections (file_write_all W) [header, payload, checksum] (h, s1)") auto
    have "handle_step (h, s1) (h2, s2)"
      by (rule write_sections_keeps [where R = handle_step, OF handle_step_write handle_step_refl
            handle_step_trans wr])
    moreover have f1: "holds_file s1 p (file_bytes s1 p) \<and> file_bytes s1 p = []"
      using o h by (intro holds_file_bytes) simp
    ultimately have t: "touches p s s2" "holds_file s2 p (file_bytes s2 p)" and h2: "opened h2 = p"
      using o h by (auto simp: handle_step_def intro: touches_trans)
    show ?thesis
    proof (cases r2)
      case (Inl e)
      with assms(2) c h wr have "r = Err e" "s' = s2" by (auto simp: create_windows_staging_def)
      with t write_sections_not_taken [OF writes_not_taken wr [unfolded Inl]] show ?thesis by simp
    next
      case ok: (Inr u)
      with assms(2) c h wr have f: "flush_staging_file W h2 s2 = (r, s')"
        by (simp add: create_windows_staging_def)
      have "file_bytes s2 p = header @ payload @ checksum"
        using staged.write_sections_Ok [OF wr [unfolded ok]] h2 o h f1 by simp
      with t have st: "staged_file p (header @ payload @ checksum) s s2" by (simp add: staged_file_def)
      note q = flush_staging_file_cases [OF f]
      from staged_quiet [OF st] q have "staged_file p (header @ payload @ checksum) s s'" by blast
      with q show ?thesis by (cases r) (auto simp: staged_file_def)
    qed
  qed
qed

lemma create_windows_streaming_staging_cases:
  assumes "drive_path p" "crc32c_api C" "create_windows_streaming_staging C W cfg p declared ms s = (r, rest, s')"
  shows "case r of
      Ok _ \<Rightarrow> (\<exists>chunks bs. ms = map Chunk chunks @ Complete # rest \<and> length (concat chunks) = unat declared
        \<and> encode_envelope C (cfg_format cfg) (concat chunks) (cfg_maximum cfg) = Ok bs \<and> staged_file p bs s s')
    | Err e \<Rightarrow> touches p s s' \<and> (staging_taken e \<longrightarrow> quiet (\<lambda>_. True) s s' \<and> entry s p \<noteq> None \<and> rest = ms)"
proof -
  obtain o1 s1 where c: "create_staging_file W p s = (o1, s1)" by fastforce
  note o = create_staging_file_cases [OF assms(1) c]
  show ?thesis
  proof (cases o1)
    case (Inl e)
    with assms(3) c o show ?thesis by (auto simp: create_windows_streaming_staging_def quiet_touches)
  next
    case h: (Inr h)
    obtain r2 rest2 h2 s2 where wr:
      "write_stream_envelope C (file_write_all W) cfg declared ms (h, s1) = (r2, rest2, h2, s2)"
      by (cases "write_stream_envelope C (file_write_all W) cfg declared ms (h, s1)") auto
    have "handle_step (h, s1) (h2, s2)"
      by (rule write_stream_envelope_keeps [where R = handle_step, OF wr handle_step_write
            handle_step_refl handle_step_trans])
    moreover have f1: "holds_file s1 p (file_bytes s1 p) \<and> file_bytes s1 p = []"
      using o h by (intro holds_file_bytes) simp
    ultimately have t: "touches p s s2" "holds_file s2 p (file_bytes s2 p)" and h2: "opened h2 = p"
      using o h by (auto simp: handle_step_def intro: touches_trans)
    show ?thesis
    proof (cases r2)
      case (Inl e)
      with assms(3) c h wr have "r = Err e" "s' = s2" by (auto simp: create_windows_streaming_staging_def)
      with t write_stream_not_taken [OF writes_not_taken wr [unfolded Inl]] show ?thesis by simp
    next
      case ok: (Inr u)
      with assms(3) c h wr have f: "flush_staging_file W h2 s2 = (r, s')" "rest2 = rest"
        by (auto simp: create_windows_streaming_staging_def split: prod.splits)
      from write_stream_envelope_Ok [OF staged.byte_sink_axioms assms(2) wr [unfolded ok]]
      obtain chunks bs where e: "ms = map Chunk chunks @ Complete # rest2"
        "length (concat chunks) = unat declared"
        "encode_envelope C (cfg_format cfg) (concat chunks) (cfg_maximum cfg) = Ok bs"
        "file_bytes s2 p = bs" using h2 o h f1 by auto
      with t have st: "staged_file p bs s s2" by (simp add: staged_file_def)
      note q = flush_staging_file_cases [OF f(1)]
      from staged_quiet [OF st] q have "staged_file p bs s s'" by blast
      with q e f(2) show ?thesis by (cases r) (auto simp: staged_file_def)
    qed
  qed
qed

lemma move_file_cases:
  assumes "drive_path p" "drive_path q" "move_file W p q flags s = (r, s')"
  obtains (moved) n where "r = Ok () \<or> (\<exists>e. r = Err e \<and> io_kind e \<noteq> NotFound \<and> io_kind e \<noteq> AlreadyExists)"
      "entry s p = Some n" "r = Ok () \<Longrightarrow> flags AND MOVEFILE_REPLACE_EXISTING = 0 \<Longrightarrow> entry s q = None"
      "installs (\<lambda>_. True) [(q, Some n), (p, None)] s s'"
  | (still) e where "r = Err e" "quiet (\<lambda>_. True) s s'" "io_kind e = NotFound \<Longrightarrow> same_directory p q \<Longrightarrow> entry s p = None"
      "io_kind e = AlreadyExists \<Longrightarrow> entry s q \<noteq> None"
proof -
  obtain a where a: "MoveFileExW W (wide_path p) (wide_path q) flags s = (a, s')"
    and r: "r = (case a of Err c \<Rightarrow> Err (last_os_error c) | Ok _ \<Rightarrow> Ok ())"
    using assms(3) by (auto simp: move_file_def split: prod.splits sum.splits)
  show thesis
  proof (cases a)
    case (Inr u)
    with r move_Ok [OF assms(1,2) a [unfolded Inr]] show thesis by (auto intro: moved)
  next
    case (Inl c)
    then have e: "r = Err (last_os_error c)" using r by simp
    from move_Err [OF assms(1,2) a [unfolded Inl]] show thesis
    proof (elim disjE conjE exE)
      fix n
      assume *: "windows_kind c \<noteq> NotFound" "windows_kind c \<noteq> AlreadyExists" "entry s p = Some n"
        "installs (\<lambda>_. True) [(q, Some n), (p, None)] s s'"
      have "r = Ok () \<or> (\<exists>e. r = Err e \<and> io_kind e \<noteq> NotFound \<and> io_kind e \<noteq> AlreadyExists)"
        using e *(1,2) by simp
      from moved [OF this *(3) _ *(4)] e show thesis by simp
    next
      assume *: "quiet (\<lambda>_. True) s s'" "windows_kind c = NotFound \<longrightarrow> same_directory p q \<longrightarrow> entry s p = None"
        "windows_kind c = AlreadyExists \<longrightarrow> entry s q \<noteq> None"
      from still [OF e *(1)] *(2,3) show thesis by simp
    qed
  qed
qed

lemma sync_windows_directory_quiet:
  assumes "drive_path (cfg_namespace cfg)" "sync_windows_directory W cfg s = (r, s')"
  shows "quiet (\<lambda>_. True) s s'"
  using assms(2) unfolding sync_windows_directory_def
  by (auto split: prod.splits sum.splits dest!: open_Ok [OF assms(1)] open_Err [OF assms(1)] flush_quiet
      intro: quiet_trans)

lemma delete_file_cases:
  assumes "drive_path p" "delete_file W p s = (r, s')"
  shows "(r = Ok () \<or> (\<exists>e. r = Err e)) \<and> (quiet (\<lambda>_. True) s s' \<and> (\<exists>e. r = Err e)
    \<or> entry s p \<noteq> None \<and> installs (\<lambda>_. True) [(p, None)] s s')"
  using assms(2) delete_Ok [OF assms(1)] delete_Err [OF assms(1)]
  by (fastforce simp: delete_file_def split: prod.splits sum.splits)

lemma windows_random_identifier_cases:
  assumes "windows_random_identifier W s = (r, s')"
  shows "quiet (\<lambda>_. True) s s' \<and> (case r of Ok i \<Rightarrow> is_hex_name i | Err e \<Rightarrow> \<exists>source. e = IdentifierGeneration source)"
  using assms fill_Ok fill_quiet is_hex_name_encode
  by (fastforce simp: windows_random_identifier_def split: prod.splits sum.splits)

lemma commit_windows_staging_cases:
  assumes "drive_path st" "drive_path p" "windows_observable cfg p" "\<not> windows_observable cfg st"
    and "holds_file s st bs" "commit_windows_staging W st p s = (r, s')"
  shows "(quiet (windows_observable cfg) s s' \<or> commits cfg p bs s s')
    \<and> (r = Ok () \<and> commits cfg p bs s s' \<or> (\<exists>source. r = Err (AtomicCommit source)))"
proof -
  let ?V = "windows_observable cfg"
  have q: "quiet (\<lambda>_. True) a b \<Longrightarrow> quiet ?V a b" for a b by (rule quiet_all)
  obtain o1 s1 where m1: "move_file W st p MOVEFILE_WRITE_THROUGH s = (o1, s1)" by fastforce
  from assms(1,2) m1 show ?thesis
  proof (cases rule: move_file_cases)
    case (moved n)
    have c: "commits cfg p bs s s1" by (rule move_commits [OF assms(3-5) moved(2,4)])
    from moved(1) show ?thesis
    proof
      assume "o1 = Ok ()"
      with assms(6) m1 c show ?thesis by (simp add: commit_windows_staging_def)
    next
      assume "\<exists>e. o1 = Err e \<and> io_kind e \<noteq> NotFound \<and> io_kind e \<noteq> AlreadyExists"
      then obtain e where e: "o1 = Err e" "io_kind e \<noteq> AlreadyExists" by blast
      obtain code where "e = last_os_error code"
        using m1 e(1) by (auto simp: move_file_def split: prod.splits sum.splits)
      with e have "raw_os_error e \<notin> {Some ERROR_FILE_EXISTS, Some ERROR_ALREADY_EXISTS}"
        by (auto simp: windows_kind_exists)
      with assms(6) m1 e(1) c show ?thesis by (auto simp: commit_windows_staging_def)
    qed
  next
    case (still e)
    show ?thesis
    proof (cases "raw_os_error e \<in> {Some ERROR_FILE_EXISTS, Some ERROR_ALREADY_EXISTS}")
      case False
      with assms(6) m1 still(1,2) q show ?thesis by (auto simp: commit_windows_staging_def)
    next
      case True
      obtain o2 where m2: "move_file W st p (MOVEFILE_REPLACE_EXISTING OR MOVEFILE_WRITE_THROUGH) s1 = (o2, s')"
        and r: "r = (case o2 of Err source \<Rightarrow> Err (AtomicCommit source) | Ok _ \<Rightarrow> Ok ())"
        using assms(6) m1 still(1) True by (auto simp: commit_windows_staging_def split: prod.splits sum.splits)
      have h: "holds_file s1 st bs" using assms(5) quiet_same_entries [OF still(2)] by (simp add: holds_file_def)
      from assms(1,2) m2 show ?thesis
      proof (cases rule: move_file_cases)
        case (moved n)
        have "commits cfg p bs s1 s'" by (rule move_commits [OF assms(3,4) h moved(2,4)])
        then have "commits cfg p bs s s'"
          unfolding commits_def using quiet_installs [OF q [OF still(2)]] by blast
        with moved(1) r show ?thesis by (auto split: sum.splits)
      next
        case (still e2)
        with r quiet_trans [OF q [OF \<open>quiet (\<lambda>_. True) s s1\<close>] q [OF still(2)]] show ?thesis by simp
      qed
    qed
  qed
qed

lemma install_staging_outcome:
  assumes "drive_config cfg" "is_hex_name h" "is_hex_name i"
    and "staged_file (windows_staging cfg h ''save'' i) bs s s1"
    and "install_staging W cfg (windows_staging cfg h ''save'' i) (windows_blob_path cfg h) s1 = (r, s')"
  shows "windows_outcome cfg (windows_blob_path cfg h) bs s r s'"
proof -
  let ?st = "windows_staging cfg h ''save'' i" and ?p = "windows_blob_path cfg h"
  note ps = store_paths [OF assms(1,2)]
  have st: "drive_path ?st" "\<not> windows_observable cfg ?st" using staging_paths [OF assms(1-3)] by simp_all
  obtain o1 s2 where c: "commit_windows_staging W ?st ?p s1 = (o1, s2)" by fastforce
  have hf: "holds_file s1 ?st bs" using assms(4) by (simp add: staged_file_def)
  note cc = commit_windows_staging_cases [OF st(1) ps(2) ps(3) st(2) hf c]
  have "windows_outcome cfg ?p bs s1 r s'"
  proof (cases o1)
    case (Inl e)
    with assms(5) c have "r = Err e" "s' = s2" by (auto simp: install_staging_def)
    with cc Inl show ?thesis by (auto simp: windows_outcome_def)
  next
    case (Inr u)
    obtain o2 s3 where y: "sync_windows_directory W cfg s2 = (o2, s3)" by fastforce
    have q: "quiet (windows_observable cfg) s2 s3" by (rule quiet_all [OF sync_windows_directory_quiet [OF ps(1) y]])
    have "commits cfg ?p bs s1 s2" using cc Inr by auto
    then have "commits cfg ?p bs s1 s3" unfolding commits_def using installs_quiet [OF _ q] by blast
    with assms(5) c Inr y show ?thesis
      by (auto simp: install_staging_def windows_outcome_def io_err_def split: sum.splits)
  qed
  moreover have "quiet (windows_observable cfg) s s1"
    using assms(4) st(2) by (auto simp: staged_file_def intro: touches_quiet)
  ultimately show ?thesis using windows_outcome_quiet by blast
qed

end

section \<open>Saving\<close>

lemma windows_save_loop_outcome:
  assumes "windows_save_loop W cfg p h header payload checksum s = Some y"
  shows "windows_api W opened \<Longrightarrow> drive_config cfg \<Longrightarrow> is_hex_name h \<Longrightarrow> p = windows_blob_path cfg h \<Longrightarrow>
     windows_outcome cfg p (header @ payload @ checksum) s (fst y) (snd y)"
  using assms
proof (induction rule: windows_save_loop.raw_induct [rotated, consumes 1, case_names step])
  case (step loop W cfg p h header payload checksum s y)
  note api = step.prems(1) and cfg = step.prems(2) and h = step.prems(3) and p = step.prems(4)
  obtain ri s1 where ri: "windows_random_identifier W s = (ri, s1)" by fastforce
  note r = windows_api.windows_random_identifier_cases [OF api ri]
  then have q: "quiet (windows_observable cfg) s s1" by (blast intro: quiet_all)
  show ?case
  proof (cases ri)
    case (Inl e)
    with step.hyps ri q show ?thesis by (auto simp: windows_outcome_def)
  next
    case i: (Inr i)
    with r have hex: "is_hex_name i" by simp
    let ?st = "windows_staging cfg h ''save'' i"
    have st: "drive_path ?st" "\<not> windows_observable cfg ?st" using staging_paths [OF cfg h hex] by simp_all
    obtain o2 s2 where c: "create_windows_staging W ?st header payload checksum s1 = (o2, s2)" by fastforce
    note cc = windows_api.create_windows_staging_cases [OF api st(1) c]
    have "windows_outcome cfg p (header @ payload @ checksum) s1 (fst y) (snd y)"
    proof (cases o2)
      case (Inr u)
      with step.hyps ri i c have "install_staging W cfg ?st p s2 = (fst y, snd y)" by simp
      with windows_api.install_staging_outcome [OF api cfg h hex] cc Inr p show ?thesis by simp
    next
      case (Inl e)
      with cc st(2) have qt: "quiet (windows_observable cfg) s1 s2" by (auto intro: touches_quiet)
      show ?thesis
      proof (cases "staging_taken e")
        case True
        with step.hyps ri i c Inl have "loop W cfg p h header payload checksum s2 = Some y" by simp
        from windows_outcome_quiet [OF qt step.IH [OF this api cfg h p]] show ?thesis .
      next
        case False
        with step.hyps ri i c Inl have "y = (Err e, s2)" by simp
        with qt show ?thesis by (simp add: windows_outcome_def)
      qed
    qed
    with windows_outcome_quiet [OF q] show ?thesis .
  qed
qed

lemma windows_save_stream_loop_outcome:
  assumes "windows_save_stream_loop C W cfg p h declared ms s = Some y"
  shows "windows_api W opened \<Longrightarrow> crc32c_api C \<Longrightarrow> drive_config cfg \<Longrightarrow> is_hex_name h \<Longrightarrow> p = windows_blob_path cfg h \<Longrightarrow>
     quiet (windows_observable cfg) s (snd (snd y)) \<and> (\<exists>e. fst y = Err e)
     \<or> (\<exists>chunks bs. ms = map Chunk chunks @ Complete # fst (snd y) \<and> length (concat chunks) = unat declared
          \<and> encode_envelope C (cfg_format cfg) (concat chunks) (cfg_maximum cfg) = Ok bs
          \<and> windows_outcome cfg p bs s (fst y) (snd (snd y)))"
  using assms
proof (induction rule: windows_save_stream_loop.raw_induct [rotated, consumes 1, case_names step])
  case (step loop C W cfg p h declared ms s y)
  note api = step.prems(1) and crc = step.prems(2) and cfg = step.prems(3) and h = step.prems(4) and p = step.prems(5)
  obtain ri s1 where ri: "windows_random_identifier W s = (ri, s1)" by fastforce
  note r = windows_api.windows_random_identifier_cases [OF api ri]
  then have q: "quiet (windows_observable cfg) s s1" by (blast intro: quiet_all)
  show ?case
  proof (cases ri)
    case (Inl e)
    with step.hyps ri q show ?thesis by auto
  next
    case i: (Inr i)
    with r have hex: "is_hex_name i" by simp
    let ?st = "windows_staging cfg h ''save'' i"
    have st: "drive_path ?st" "\<not> windows_observable cfg ?st" using staging_paths [OF cfg h hex] by simp_all
    obtain o2 ms2 s2 where c: "create_windows_streaming_staging C W cfg ?st declared ms s1 = (o2, ms2, s2)"
      by (metis prod_cases3)
    note cc = windows_api.create_windows_streaming_staging_cases [OF api st(1) crc c]
    show ?thesis
    proof (cases o2)
      case (Inr u)
      obtain o3 s3 where inst: "install_staging W cfg ?st p s2 = (o3, s3)" by fastforce
      with step.hyps ri i c Inr have y: "y = (o3, ms2, s3)" by simp
      from cc Inr obtain chunks bs where e: "ms = map Chunk chunks @ Complete # ms2"
        "length (concat chunks) = unat declared"
        "encode_envelope C (cfg_format cfg) (concat chunks) (cfg_maximum cfg) = Ok bs" "staged_file ?st bs s1 s2"
        by auto
      from windows_api.install_staging_outcome [OF api cfg h hex e(4)] inst p
      have "windows_outcome cfg p bs s1 o3 s3" by simp
      with windows_outcome_quiet [OF q] y e show ?thesis by auto
    next
      case (Inl e)
      with cc st(2) have qt: "quiet (windows_observable cfg) s1 s2" by (auto intro: touches_quiet)
      note q2 = quiet_trans [OF q qt]
      show ?thesis
      proof (cases "staging_taken e")
        case True
        with step.hyps ri i c Inl have l: "loop C W cfg p h declared ms2 s2 = Some y" by simp
        have "ms2 = ms" using cc Inl True by auto
        with step.IH [OF l api crc cfg h p] q2 windows_outcome_quiet [OF q2]
        show ?thesis by (auto intro: quiet_trans)
      next
        case False
        obtain o3 s3 where d: "delete_file W ?st s2 = (o3, s3)" by fastforce
        with step.hyps ri i c Inl False have "y = (Err e, ms2, s3)" by simp
        moreover have "quiet (windows_observable cfg) s2 s3"
          using windows_api.delete_file_cases [OF api st(1) d] st(2)
            installs_restrict [where V' = "\<lambda>_. True" and V = "windows_observable cfg" and us' = "[]"]
          by (auto intro: quiet_all)
        ultimately show ?thesis using quiet_trans [OF q2] by auto
      qed
    qed
  qed
qed

text \<open>With an identifier whose staging name is free, a save returns.\<close>

lemma windows_saves_return:
  assumes "windows_api W opened" "crc32c_api C" "drive_config cfg" "is_hex_name h"
    and fill: "random_fill W 32 s = (Ok bs, s1)" and free: "entry s (windows_staging cfg h ''save'' (hex_encode bs)) = None"
  shows "\<exists>y. windows_save_loop W cfg p h header payload checksum s = Some y"
    "\<exists>y. windows_save_stream_loop C W cfg p h declared ms s = Some y"
proof -
  let ?i = "hex_encode bs" let ?st = "windows_staging cfg h ''save'' ?i"
  have ri: "windows_random_identifier W s = (Ok ?i, s1)" by (simp add: windows_random_identifier_def fill)
  from windows_api.windows_random_identifier_cases [OF assms(1) ri]
  have hex: "is_hex_name ?i" and q: "quiet (\<lambda>_. True) s s1" by simp_all
  have st: "drive_path ?st" using staging_paths [OF assms(3,4) hex] by simp
  have f: "entry s1 ?st = None" using free quiet_same_entries [OF q] by simp
  obtain o2 s2 where c: "create_windows_staging W ?st header payload checksum s1 = (o2, s2)" by fastforce
  from windows_api.create_windows_staging_cases [OF assms(1) st c] f
  show "\<exists>y. windows_save_loop W cfg p h header payload checksum s = Some y"
    by (cases o2) (simp_all add: windows_save_loop.simps [of W cfg p h header payload checksum s] ri c Let_def)
  obtain o3 ms3 s3 where c3: "create_windows_streaming_staging C W cfg ?st declared ms s1 = (o3, ms3, s3)"
    by (metis prod_cases3)
  from windows_api.create_windows_streaming_staging_cases [OF assms(1) st assms(2) c3] f
  show "\<exists>y. windows_save_stream_loop C W cfg p h declared ms s = Some y"
    by (cases o3) (simp_all add: windows_save_stream_loop.simps [of C W cfg p h declared ms s] ri c3 Let_def split: prod.split)
qed

text \<open>What an observer can see of a save, afterwards and at every interruption.\<close>

definition windows_old_or_new ::
  "crc32c_lib \<Rightarrow> store_config \<Rightarrow> path \<Rightarrow> bytes \<Rightarrow> fs \<Rightarrow> unit store_result \<Rightarrow> fs \<Rightarrow> bool" where
  "windows_old_or_new C cfg p payload s r s' \<longleftrightarrow>
     (entry s' p = entry s p \<and> (\<exists>e. r = Err e)
      \<or> (\<exists>bs t. encode_envelope C (cfg_format cfg) payload (cfg_maximum cfg) = Ok bs
            \<and> entry s' p = Some (FileNode bs t)
            \<and> (r = Ok () \<or> (\<exists>source. r = Err (AtomicCommit source))
               \<or> (\<exists>source. r = Err (Io SyncNamespaceDirectory source)))))
     \<and> (\<forall>q. windows_observable cfg q \<longrightarrow> q \<noteq> p \<longrightarrow> entry s' q = entry s q)
     \<and> (\<forall>evs q. interrupted s s' evs \<longrightarrow> windows_observable cfg q \<longrightarrow>
          entry_at (fs_base s) evs q = entry s q \<or> q = p \<and> entry_at (fs_base s) evs q = entry s' p)"

definition unseen :: "store_config \<Rightarrow> fs \<Rightarrow> fs \<Rightarrow> bool" where
  "unseen cfg s s' \<longleftrightarrow> (\<forall>q. windows_observable cfg q \<longrightarrow> entry s' q = entry s q
     \<and> (\<forall>evs. interrupted s s' evs \<longrightarrow> entry_at (fs_base s) evs q = entry s q))"

lemma quiet_unseen: "quiet (windows_observable cfg) s s' \<Longrightarrow> unseen cfg s s'"
  using quiet_entry interrupted_quiet by (auto simp: unseen_def)

lemma windows_outcome_entries:
  assumes "windows_outcome cfg p bs s r s'" "windows_observable cfg p"
    and "encode_envelope C (cfg_format cfg) payload (cfg_maximum cfg) = Ok bs"
  shows "windows_old_or_new C cfg p payload s r s'"
proof (cases "quiet (windows_observable cfg) s s' \<and> (\<exists>e. r = Err e)")
  case True
  with quiet_unseen [of cfg s s'] assms(2) show ?thesis by (auto simp: windows_old_or_new_def unseen_def)
next
  case False
  with assms(1) have c: "commits cfg p bs s s'" and r: "r = Ok () \<or> (\<exists>source. r = Err (AtomicCommit source))
          \<or> (\<exists>source. r = Err (Io SyncNamespaceDirectory source))"
    unfolding windows_outcome_def by blast+
  from c obtain t where i: "installs (windows_observable cfg) [(p, Some (FileNode bs t))] s s'"
    by (auto simp: commits_def)
  have e: "entry s' q = (if q = p then Some (FileNode bs t) else entry s q)" if "windows_observable cfg q" for q
    using installs_entry [OF i that] by simp
  have "entry_at (fs_base s) evs q = entry s q \<or> q = p \<and> entry_at (fs_base s) evs q = entry s' p"
    if "interrupted s s' evs" "windows_observable cfg q" for evs q
    using interrupted_installs [OF i that] e [OF that(2)] by (auto split: if_splits)
  with r e assms(2,3) show ?thesis by (auto simp: windows_old_or_new_def)
qed

lemma windows_save_blob_change:
  assumes "windows_api W opened" "drive_config cfg" "is_hex_name h" "p = windows_blob_path cfg h"
    and save: "windows_save_blob C W cfg p payload s = Some (r, s')"
  shows "windows_old_or_new C cfg p payload s r s'"
proof -
  note ps = store_paths [OF assms(2,3), folded assms(4)]
  have stem: "Option.bind (windows_file_stem p) to_str = Some h" using ps(4) assms(3) by simp
  show ?thesis
  proof (cases "envelope_parts C (cfg_format cfg) payload (cfg_maximum cfg)")
    case (Inl e)
    with save ps(3) quiet_unseen [of cfg s s] show ?thesis
      by (auto simp: windows_save_blob_def windows_old_or_new_def unseen_def)
  next
    case (Inr parts)
    obtain header checksum where parts: "parts = (header, checksum)" by (cases parts)
    with save Inr stem have "windows_save_loop W cfg p h header payload checksum s = Some (r, s')"
      by (simp add: windows_save_blob_def)
    from windows_save_loop_outcome [OF this assms(1-4)]
    have "windows_outcome cfg p (header @ payload @ checksum) s r s'" by simp
    then show ?thesis
      by (rule windows_outcome_entries [OF _ ps(3)]) (simp add: encode_envelope_def Inr parts)
  qed
qed

lemma windows_save_stream_change:
  assumes "windows_api W opened" "crc32c_api C" "drive_config cfg" "is_hex_name h" "p = windows_blob_path cfg h"
    and save: "windows_save_blob_from_receiver C W cfg p declared ms s = Some (r, left, s')"
  shows "(\<exists>chunks. ms = map Chunk chunks @ Complete # left \<and> length (concat chunks) = unat declared
      \<and> windows_old_or_new C cfg p (concat chunks) s r s')
    \<or> (\<exists>e. r = Err e) \<and> unseen cfg s s'"
proof -
  note ps = store_paths [OF assms(3,4), folded assms(5)]
  have stem: "Option.bind (windows_file_stem p) to_str = Some h" using ps(4) assms(4) by simp
  show ?thesis
  proof (cases "envelope_header (cfg_format cfg) declared (cfg_maximum cfg)")
    case (Inl e)
    with save quiet_unseen [of cfg s s] show ?thesis by (auto simp: windows_save_blob_from_receiver_def)
  next
    case (Inr header)
    with save stem have "windows_save_stream_loop C W cfg p h declared ms s = Some (r, left, s')"
      by (simp add: windows_save_blob_from_receiver_def)
    from windows_save_stream_loop_outcome [OF this assms(1-5)] show ?thesis
      using quiet_unseen windows_outcome_entries [OF _ ps(3)] by fastforce
  qed
qed

text \<open>C23. Saves on Windows, complete or streaming, are atomic: the canonical file is the old one and the result
  an error, or it is the complete envelope of the payload and the result success, an ambiguous commit
  error or a failed flush of the directory; no other path but staging names changes, and every
  interruption sees the old or the new file. A stream that is not complete and of the declared length
  changes nothing. With an identifier whose staging name is free both return.\<close>

theorem windows_save_atomic:
  assumes "windows_api W opened" "crc32c_api C" "drive_config cfg" "is_hex_name h"
  shows "(\<forall>payload r s'. windows_save_blob C W cfg (windows_blob_path cfg h) payload s = Some (r, s') \<longrightarrow>
        windows_old_or_new C cfg (windows_blob_path cfg h) payload s r s')
    \<and> (\<forall>declared ms r left s'.
        windows_save_blob_from_receiver C W cfg (windows_blob_path cfg h) declared ms s = Some (r, left, s') \<longrightarrow>
        (\<exists>chunks. ms = map Chunk chunks @ Complete # left \<and> length (concat chunks) = unat declared
           \<and> windows_old_or_new C cfg (windows_blob_path cfg h) (concat chunks) s r s')
        \<or> (\<exists>e. r = Err e) \<and> unseen cfg s s')
    \<and> (\<forall>payload declared ms bs s1. random_fill W 32 s = (Ok bs, s1)
        \<longrightarrow> entry s (windows_staging cfg h ''save'' (hex_encode bs)) = None
        \<longrightarrow> windows_save_blob C W cfg (windows_blob_path cfg h) payload s \<noteq> None
          \<and> windows_save_blob_from_receiver C W cfg (windows_blob_path cfg h) declared ms s \<noteq> None)"
proof (intro conjI allI impI)
  let ?p = "windows_blob_path cfg h"
  have stem: "Option.bind (windows_file_stem ?p) to_str = Some h"
    using store_paths(4) [OF assms(3,4)] assms(4) by simp
  fix payload declared ms bs s1
  assume "random_fill W 32 s = (Ok bs, s1)" "entry s (windows_staging cfg h ''save'' (hex_encode bs)) = None"
  note ret = windows_saves_return [OF assms this]
  show "windows_save_blob C W cfg ?p payload s \<noteq> None"
    using ret(1) stem by (auto simp: windows_save_blob_def split: sum.split)
  show "windows_save_blob_from_receiver C W cfg ?p declared ms s \<noteq> None"
    using ret(2) stem by (auto simp: windows_save_blob_from_receiver_def split: sum.split)
qed (use windows_save_blob_change [OF assms(1,3,4) refl] windows_save_stream_change [OF assms refl] in blast)+

text \<open>A namespace on a drive, for evaluation.\<close>

definition win_config :: store_config where
  "win_config = golden_config\<lparr>cfg_namespace := ''C:'' @ [CHR 0x5C] @ ''blobs''\<rparr>"

definition win_hash :: string where
  "win_hash = hex_encode (replicate 32 0)"

definition win_fs :: fs where
  "win_fs = \<lparr>fs_base = [cfg_namespace win_config \<mapsto> DirNode], fs_log = [], fs_cwd = None, fs_faults = [],
     fs_scripts = [], fs_random = [Ok (replicate 32 1)]\<rparr>"

lemma win_config_ok: "drive_config win_config" "is_hex_name win_hash" "cfg_format win_config = golden_format"
  "cfg_maximum win_config = 67108864"
  using golden_wf
  by (simp_all add: drive_config_def win_config_def golden_config_def drive_path_def drive_letter_def ascii_string_def
      win_hash_def is_hex_name_encode del: replicate.simps)

lemma win_fill: "random_fill mem_lib 32 win_fs = (Ok (replicate 32 1), win_fs\<lparr>fs_random := []\<rparr>)"
  by (simp add: mem_lib_def temp_fill_def win_fs_def del: replicate.simps)

lemma win_free:
  assumes "kind \<in> {''save'', ''clear''}"
  shows "entry win_fs (windows_staging win_config win_hash kind (hex_encode (replicate 32 1))) = None"
proof -
  have "windows_staging win_config win_hash kind (hex_encode (replicate 32 1)) \<noteq> cfg_namespace win_config"
    unfolding windows_staging_def using assms win_config_ok
    by (intro windows_join_longer store_names_plain) (simp_all add: drive_config_def is_hex_name_encode del: replicate.simps)
  then show ?thesis by (simp add: entry_def win_fs_def)
qed

lemma windows_save_atomic_witness:
  "\<exists>r s'. windows_save_blob castagnoli mem_lib win_config (windows_blob_path win_config win_hash) [0x61] win_fs = Some (r, s')
     \<and> windows_old_or_new castagnoli win_config (windows_blob_path win_config win_hash) [0x61] win_fs r s'"
proof -
  note w = windows_save_atomic [OF mem.windows_api_axioms castagnoli.crc32c_api_axioms win_config_ok(1,2)]
  have "windows_save_blob castagnoli mem_lib win_config (windows_blob_path win_config win_hash) [0x61] win_fs \<noteq> None"
    by (rule conjunct1 [OF w [THEN conjunct2, THEN conjunct2, rule_format, OF win_fill win_free]]) simp
  then obtain r s' where run:
    "windows_save_blob castagnoli mem_lib win_config (windows_blob_path win_config win_hash) [0x61] win_fs = Some (r, s')"
    by auto
  from w [THEN conjunct1, rule_format, OF run] run show ?thesis by blast
qed

end
