(* ===== verification/WinCleanup.thy ===== *)
theory WinCleanup
  imports WinProps "HOL-Library.Multiset"
begin

text \<open>
  Clearing and the cleanup of stale staging files on Windows: a clear takes nothing away but the canonical
  file, and the cleanup nothing but staging files of the store that are old enough; its report accounts
  for every name it considered.
\<close>

section \<open>Clearing\<close>

lemma interrupted_split:
  assumes "interrupted s s'' evs" "grows s s'" "grows s' s''"
  shows "interrupted s s' evs \<or> interrupted s' s'' evs"
proof -
  have "suffix evs (fs_log s'')" "suffix (fs_log s') (fs_log s'')" "suffix (fs_log s) evs"
    using assms by (auto simp: interrupted_def grows_def)
  from suffix_same_cases [OF this(1,2)] this show ?thesis by (auto simp: interrupted_def)
qed

text \<open>The same content under another modification time.\<close>

definition retimed :: "node option \<Rightarrow> node option \<Rightarrow> bool" where
  "retimed a b \<longleftrightarrow> (\<exists>bs t t'. a = Some (FileNode bs t) \<and> b = Some (FileNode bs t'))"

definition regular_or_absent :: "fs \<Rightarrow> path \<Rightarrow> bool" where
  "regular_or_absent s p \<longleftrightarrow> entry s p = None \<or> (\<exists>bs t. entry s p = Some (FileNode bs t))"

context windows_api
begin

lemma refresh_windows_clear_age_cases:
  assumes "drive_path p" "regular_or_absent s p" "refresh_windows_clear_age W now p s = (r, s')"
  obtains (same) "quiet (\<lambda>_. True) s s'" "\<And>e. r = Err e \<Longrightarrow> io_kind e = NotFound \<Longrightarrow> entry s p = None"
  | (timed) bs t t' where "entry s p = Some (FileNode bs t)" "\<And>e. r = Err e \<Longrightarrow> io_kind e \<noteq> NotFound"
      "installs (\<lambda>_. True) [(p, Some (FileNode bs t'))] s s'"
proof -
  let ?ticks = "windows_ticks (of_int (now div 1000000000)) (of_int (now mod 1000000000))"
  have other: "io_kind (io_error_other m) \<noteq> NotFound" for m by (simp add: io_error_other_def)
  show thesis
  proof (cases "now < 0 \<or> ?ticks = None")
    case True
    then obtain m where "r = Err (io_error_other m)" "s' = s"
      using assms(3) by (cases "now < 0") (auto simp: refresh_windows_clear_age_def)
    with other show thesis by (intro same) auto
  next
    case False
    then obtain ticks where t: "\<not> now < 0" "?ticks = Some ticks" by auto
    obtain o1 s1 where o: "CreateFileW W (wide_path p) (GENERIC_WRITE OR FILE_WRITE_ATTRIBUTES) 0 OPEN_EXISTING
        (FILE_ATTRIBUTE_NORMAL OR FILE_FLAG_WRITE_THROUGH) s = (o1, s1)" by fastforce
    show thesis
    proof (cases o1)
      case (Inl c)
      with assms(3) t o have "r = Err (last_os_error c)" "s' = s1"
        by (simp_all add: refresh_windows_clear_age_def)
      with open_Err [OF assms(1) o [unfolded Inl]] assms(2) show thesis
        by (intro same) (auto simp: regular_or_absent_def)
    next
      case h: (Inr h)
      note op = open_Ok [OF assms(1) o [unfolded h]]
      then obtain bs t0 where f: "entry s p = Some (FileNode bs t0)" "entry s1 (opened h) = Some (FileNode bs t0)"
        using assms(2) quiet_same_entries [of s s1] by (auto simp: regular_or_absent_def)
      obtain o2 s2 where st: "SetFileTime W h (filetime_of_ticks ticks) s1 = (o2, s2)" by fastforce
      show thesis
      proof (cases o2)
        case (Inl c)
        with assms(3) t o h st have "r = Err (last_os_error c)" "s' = s2"
          by (simp_all add: refresh_windows_clear_age_def)
        with op set_time_Err [OF st [unfolded Inl]] show thesis by (intro same) (auto intro: quiet_trans)
      next
        case (Inr u)
        from set_time_Ok [OF st [unfolded Inr] f(2)] op obtain t' where
          i: "installs (\<lambda>_. True) [(p, Some (FileNode bs t'))] s s2" using quiet_installs by metis
        obtain o3 s3 where fl: "FlushFileBuffers W h s2 = (o3, s3)" by fastforce
        note q = flush_quiet [OF fl]
        from assms(3) t o h st Inr fl have r: "s' = s3" "r = (case o3 of Err c \<Rightarrow> Err (last_os_error c) | Ok _ \<Rightarrow> Ok ())"
          by (auto simp: refresh_windows_clear_age_def split: sum.splits)
        have "io_kind e \<noteq> NotFound" if "r = Err e" for e
          using that r(2) flush_Err fl by (cases o3) auto
        with timed [OF f(1)] installs_quiet [OF i q] r(1) show thesis by blast
      qed
    qed
  qed
qed

end

lemma windows_clear_loop_outcome:
  assumes "windows_clear_loop W cfg p h s = Some y"
  shows "windows_api W opened \<Longrightarrow> drive_config cfg \<Longrightarrow> is_hex_name h \<Longrightarrow> p = windows_blob_path cfg h \<Longrightarrow>
     quiet (windows_observable cfg) s (snd y) \<and> (fst y = Ok () \<longrightarrow> entry s p = None)
     \<or> installs (windows_observable cfg) [(p, None)] s (snd y)"
  using assms
proof (induction rule: windows_clear_loop.raw_induct [rotated, consumes 1, case_names step])
  case (step loop W cfg p h s y)
  note api = step.prems(1) and cfg = step.prems(2) and h = step.prems(3) and p = step.prems(4)
  let ?V = "windows_observable cfg"
  note ps = store_paths [OF cfg h, folded p]
  obtain ri s1 where ri: "windows_random_identifier W s = (ri, s1)" by fastforce
  note r = windows_api.windows_random_identifier_cases [OF api ri]
  then have q: "quiet ?V s s1" by (blast intro: quiet_all)
  have same: "entry s1 p = entry s p" using quiet_entry [OF q ps(3)] .
  show ?case
  proof (cases ri)
    case (Inl e)
    with step.hyps ri q show ?thesis by auto
  next
    case i: (Inr i)
    with r have hex: "is_hex_name i" by simp
    let ?st = "windows_staging cfg h ''clear'' i"
    have st: "drive_path ?st" "\<not> ?V ?st" using staging_paths [OF cfg h hex] by simp_all
    obtain o2 s2 where m: "move_file W p ?st MOVEFILE_WRITE_THROUGH s1 = (o2, s2)" by fastforce
    show ?thesis
    proof (rule windows_api.move_file_cases [OF api ps(2) st(1) m])
      fix n
      assume moved: "o2 = Ok () \<or> (\<exists>e. o2 = Err e \<and> io_kind e \<noteq> NotFound \<and> io_kind e \<noteq> AlreadyExists)"
        "installs (\<lambda>_. True) [(?st, Some n), (p, None)] s1 s2"
      have i2: "installs ?V [(p, None)] s s2"
        using installs_restrict [OF moved(2), of ?V "[(p, None)]"] st(2) ps(3) quiet_installs [OF q] by simp
      show ?thesis
      proof (cases o2)
        case (Inl e)
        then have "io_kind e \<noteq> NotFound" "io_kind e \<noteq> AlreadyExists" using moved(1) by auto
        with step.hyps ri i m Inl have "snd y = s2" by (auto simp: Let_def)
        with i2 show ?thesis by simp
      next
        case (Inr u)
        obtain o3 s3 where y: "sync_windows_directory W cfg s2 = (o3, s3)" by fastforce
        have i3: "installs ?V [(p, None)] s s3"
          by (rule installs_quiet [OF i2 quiet_all [OF windows_api.sync_windows_directory_quiet [OF api ps(1) y]]])
        obtain o4 s4 where d: "delete_file W ?st s3 = (o4, s4)" by fastforce
        have "quiet ?V s3 s4"
          using windows_api.delete_file_cases [OF api st(1) d] st(2)
            installs_restrict [where V' = "\<lambda>_. True" and V = ?V and us' = "[]"] by (auto intro: quiet_all)
        then have i4: "installs ?V [(p, None)] s s4" by (rule installs_quiet [OF i3])
        from step.hyps ri i m Inr y d have "snd y = s3 \<or> snd y = s4"
          by (auto simp: Let_def split: sum.splits)
        with i3 i4 show ?thesis by auto
      qed
    next
      fix e
      assume still: "o2 = Err e" "quiet (\<lambda>_. True) s1 s2" "io_kind e = NotFound \<Longrightarrow> same_directory p ?st \<Longrightarrow> entry s1 p = None"
      note q2 = quiet_trans [OF q quiet_all [OF still(2)]]
      consider "io_kind e = NotFound" | "io_kind e = AlreadyExists" | "io_kind e \<noteq> NotFound" "io_kind e \<noteq> AlreadyExists"
        by blast
      then show ?thesis
      proof cases
        case 1
        obtain o3 s3 where en: "ensure_namespace_available cfg s2 = (o3, s3)" by fastforce
        with step.hyps ri i m still(1) 1 have "snd y = s3" by (auto simp: Let_def)
        with quiet_trans [OF q2 ensure_namespace_available_quiet [OF en]] still(3) [OF 1] clear_staging_directory [OF cfg h hex] same p
        show ?thesis by simp
      next
        case 2
        with step.hyps ri i m still(1) have l: "loop W cfg p h s2 = Some y" by (simp add: Let_def)
        have "entry s2 p = entry s p" using quiet_entry [OF q2 ps(3)] .
        with step.IH [OF l api cfg h p] q2 show ?thesis by (auto intro: quiet_trans quiet_installs)
      next
        case 3
        with step.hyps ri i m still(1) have "y = (io_err RemoveBlob e, s2)" by (simp add: Let_def)
        with q2 show ?thesis by simp
      qed
    qed
  qed
qed

text \<open>The first call of a clear sets the time of the file, the loop behind it moves the file away.\<close>

definition retimes :: "path \<Rightarrow> fs \<Rightarrow> fs \<Rightarrow> bool" where
  "retimes p s s1 \<longleftrightarrow> grows s s1
     \<and> (\<forall>q. entry s1 q = entry s q \<or> q = p \<and> retimed (entry s p) (entry s1 p))
     \<and> (\<forall>evs q. interrupted s s1 evs \<longrightarrow>
          entry_at (fs_base s) evs q = entry s q \<or> q = p \<and> retimed (entry s p) (entry_at (fs_base s) evs p))"

definition removes :: "store_config \<Rightarrow> path \<Rightarrow> fs \<Rightarrow> fs \<Rightarrow> bool" where
  "removes cfg p s1 s' \<longleftrightarrow> grows s1 s'
     \<and> (\<forall>q. windows_observable cfg q \<longrightarrow> entry s' q = entry s1 q \<or> q = p \<and> entry s' p = None)
     \<and> (\<forall>evs q. interrupted s1 s' evs \<longrightarrow> windows_observable cfg q \<longrightarrow>
          entry_at (fs_base s1) evs q = entry s1 q \<or> q = p \<and> entry_at (fs_base s1) evs p = None)"

lemma quiet_removes: "quiet (windows_observable cfg) s s' \<Longrightarrow> removes cfg p s s'"
  using quiet_entry interrupted_quiet [of "windows_observable cfg" s s'] by (auto simp: removes_def quiet_def)

lemma installs_removes:
  assumes i: "installs (windows_observable cfg) [(p, None)] s s'"
  shows "removes cfg p s s'"
proof -
  have e: "entry s' q = (if q = p then None else entry s q)" if "windows_observable cfg q" for q
    using installs_entry [OF i that] by simp
  have "entry_at (fs_base s) evs q = entry s q \<or> q = p \<and> entry_at (fs_base s) evs p = None"
    if "interrupted s s' evs" "windows_observable cfg q" for evs q
    using interrupted_installs [OF i that] e [OF that(2)] by (auto split: if_splits)
  with e i show ?thesis by (auto simp: removes_def installs_def)
qed

lemma refresh_retimes:
  assumes "windows_api W opened" "drive_path p" "regular_or_absent s p" "refresh_windows_clear_age W now p s = (r, s1)"
  shows "retimes p s s1 \<and> (\<forall>e. r = Err e \<longrightarrow> io_kind e = NotFound \<longrightarrow> entry s1 p = None)"
proof (rule windows_api.refresh_windows_clear_age_cases [OF assms])
  assume *: "quiet (\<lambda>_. True) s s1" "\<And>e. r = Err e \<Longrightarrow> io_kind e = NotFound \<Longrightarrow> entry s p = None"
  with interrupted_quiet [OF *(1)] show ?thesis by (auto simp: retimes_def quiet_same_entries quiet_def)
next
  fix bs t t'
  assume *: "entry s p = Some (FileNode bs t)" "\<And>e. r = Err e \<Longrightarrow> io_kind e \<noteq> NotFound"
    "installs (\<lambda>_. True) [(p, Some (FileNode bs t'))] s s1"
  have e: "entry s1 q = (if q = p then Some (FileNode bs t') else entry s q)" for q
    using installs_entry [OF *(3), of q] by simp
  have "entry_at (fs_base s) evs q = entry s q \<or> q = p \<and> entry_at (fs_base s) evs p = Some (FileNode bs t')"
    if "interrupted s s1 evs" for evs q
    using interrupted_installs [OF *(3) that, of q] e by (auto split: if_splits)
  then have "entry_at (fs_base s) evs q = entry s q \<or> q = p \<and> retimed (entry s p) (entry_at (fs_base s) evs p)"
    if "interrupted s s1 evs" for evs q using that *(1) by (fastforce simp: retimed_def)
  moreover have "retimed (entry s p) (entry s1 p)" using *(1) e by (simp add: retimed_def)
  ultimately show ?thesis using * e by (auto simp: retimes_def installs_def)
qed

lemma windows_clear_two_steps:
  assumes "windows_api W opened" "drive_config cfg" "is_hex_name h" "p = windows_blob_path cfg h" "regular_or_absent s p"
    and run: "windows_clear_blob W now cfg p s = Some (r, s')"
  obtains s1 where "retimes p s s1" "removes cfg p s1 s'" "r = Ok () \<longrightarrow> entry s' p = None"
proof -
  note ps = store_paths [OF assms(2,3), folded assms(4)]
  have stem: "Option.bind (windows_file_stem p) to_str = Some h" using ps(4) assms(3) by simp
  obtain o1 s1 where rf: "refresh_windows_clear_age W now p s = (o1, s1)" by fastforce
  note rt = refresh_retimes [OF assms(1) ps(2) assms(5) rf]
  have "quiet (windows_observable cfg) s1 s' \<and> (r = Ok () \<longrightarrow> entry s1 p = None)
      \<or> installs (windows_observable cfg) [(p, None)] s1 s'"
  proof (cases o1)
    case (Inr u)
    with run stem rf have "windows_clear_loop W cfg p h s1 = Some (r, s')"
      by (simp add: windows_clear_blob_def)
    from windows_clear_loop_outcome [OF this assms(1-4)] show ?thesis by simp
  next
    case (Inl e)
    with run stem rf have "(if io_kind e = NotFound then ensure_namespace_available cfg s1
        else (io_err RefreshClearStagingAge e, s1)) = (r, s')"
      by (simp add: windows_clear_blob_def split: if_splits)
    with rt Inl show ?thesis by (auto split: if_splits dest: ensure_namespace_available_quiet)
  qed
  then have "removes cfg p s1 s' \<and> (r = Ok () \<longrightarrow> entry s' p = None)"
  proof
    assume "quiet (windows_observable cfg) s1 s' \<and> (r = Ok () \<longrightarrow> entry s1 p = None)"
    then show ?thesis using quiet_removes quiet_entry [of "windows_observable cfg" s1 s' p] ps(3) by simp
  next
    assume i: "installs (windows_observable cfg) [(p, None)] s1 s'"
    with installs_removes installs_entry [OF i ps(3)] show ?thesis by simp
  qed
  with rt that show ?thesis by blast
qed

lemma windows_clear_change:
  assumes "windows_api W opened" "drive_config cfg" "is_hex_name h" "p = windows_blob_path cfg h" "regular_or_absent s p"
    and "windows_clear_blob W now cfg p s = Some (r, s')"
  shows "r = Ok () \<Longrightarrow> entry s' p = None"
    "entry s' p = entry s p \<or> retimed (entry s p) (entry s' p) \<or> entry s' p = None"
    "windows_observable cfg q \<Longrightarrow> q \<noteq> p \<Longrightarrow> entry s' q = entry s q"
    "interrupted s s' evs \<Longrightarrow> windows_observable cfg q \<Longrightarrow> entry_at (fs_base s) evs q = entry s q
      \<or> q = p \<and> (retimed (entry s p) (entry_at (fs_base s) evs p) \<or> entry_at (fs_base s) evs p = None)"
proof -
  obtain s1 where s1: "retimes p s s1" "removes cfg p s1 s'" and ok: "r = Ok () \<longrightarrow> entry s' p = None"
    by (rule windows_clear_two_steps [OF assms])
  have V: "windows_observable cfg p" using store_paths(3) [OF assms(2,3)] by (simp add: assms(4))
  show "r = Ok () \<Longrightarrow> entry s' p = None" using ok by simp
  show "entry s' p = entry s p \<or> retimed (entry s p) (entry s' p) \<or> entry s' p = None"
    using s1 V unfolding retimes_def removes_def by metis
  show "entry s' q = entry s q" if "windows_observable cfg q" "q \<noteq> p"
    using s1 that unfolding retimes_def removes_def by metis
  show "entry_at (fs_base s) evs q = entry s q
      \<or> q = p \<and> (retimed (entry s p) (entry_at (fs_base s) evs p) \<or> entry_at (fs_base s) evs p = None)"
    if i: "interrupted s s' evs" "windows_observable cfg q"
  proof -
    have "fs_base s1 = fs_base s" using s1 by (simp add: retimes_def grows_def)
    moreover have "interrupted s s1 evs \<or> interrupted s1 s' evs"
      using interrupted_split [OF i(1), of s1] s1 by (simp add: retimes_def removes_def)
    ultimately show ?thesis using s1 i(2) unfolding retimes_def removes_def by metis
  qed
qed

text \<open>C24. Clearing on Windows, of a canonical path that holds a regular file or nothing: afterwards and at
  every interruption the entry is the old one, the old content with a new time, or absent, and no other
  path but staging names changes; success means it is absent. With an identifier whose staging name is
  free it returns.\<close>

theorem windows_clear_correct:
  assumes "windows_api W opened" "drive_config cfg" "is_hex_name h" "p = windows_blob_path cfg h"
    and "regular_or_absent s p"
  shows "(\<forall>r s'. windows_clear_blob W now cfg p s = Some (r, s') \<longrightarrow>
        (r = Ok () \<longrightarrow> entry s' p = None)
        \<and> (entry s' p = entry s p \<or> retimed (entry s p) (entry s' p) \<or> entry s' p = None)
        \<and> (\<forall>q. windows_observable cfg q \<longrightarrow> q \<noteq> p \<longrightarrow> entry s' q = entry s q)
        \<and> (\<forall>evs q. interrupted s s' evs \<longrightarrow> windows_observable cfg q \<longrightarrow>
             entry_at (fs_base s) evs q = entry s q
             \<or> q = p \<and> (retimed (entry s p) (entry_at (fs_base s) evs p) \<or> entry_at (fs_base s) evs p = None)))
    \<and> (\<forall>s1 bs s2. refresh_windows_clear_age W now p s = (Ok (), s1) \<longrightarrow> random_fill W 32 s1 = (Ok bs, s2)
         \<longrightarrow> entry s1 (windows_staging cfg h ''clear'' (hex_encode bs)) = None
         \<longrightarrow> windows_clear_blob W now cfg p s \<noteq> None)"
proof (intro conjI allI impI)
  note ps = store_paths [OF assms(2,3), folded assms(4)]
  have stem: "Option.bind (windows_file_stem p) to_str = Some h" using ps(4) assms(3) by simp
  fix s1 bs s2
  assume rf: "refresh_windows_clear_age W now p s = (Ok (), s1)" and fill: "random_fill W 32 s1 = (Ok bs, s2)"
    and free: "entry s1 (windows_staging cfg h ''clear'' (hex_encode bs)) = None"
  let ?i = "hex_encode bs" let ?st = "windows_staging cfg h ''clear'' ?i"
  have ri: "windows_random_identifier W s1 = (Ok ?i, s2)" by (simp add: windows_random_identifier_def fill)
  from windows_api.windows_random_identifier_cases [OF assms(1) ri]
  have hex: "is_hex_name ?i" and q: "quiet (\<lambda>_. True) s1 s2" by simp_all
  have st: "drive_path ?st" using staging_paths [OF assms(2,3) hex] by simp
  have f: "entry s2 ?st = None" using free quiet_same_entries [OF q] by simp
  obtain o3 s3 where m: "move_file W p ?st MOVEFILE_WRITE_THROUGH s2 = (o3, s3)" by fastforce
  have "\<forall>e. o3 = Err e \<longrightarrow> io_kind e \<noteq> AlreadyExists"
    by (rule windows_api.move_file_cases [OF assms(1) ps(2) st m]) (use f in auto)
  then have "\<exists>y. windows_clear_loop W cfg p h s1 = Some y"
    by (cases o3) (auto simp: windows_clear_loop.simps [of W cfg p h s1] ri m Let_def split: prod.split sum.split)
  then show "windows_clear_blob W now cfg p s \<noteq> None" by (auto simp: windows_clear_blob_def stem rf)
qed (rule windows_clear_change [OF assms]; assumption)+

text \<open>The file of the cleared key is there at first.\<close>

definition win_path :: path where
  "win_path = windows_blob_path win_config win_hash"

definition win_full :: fs where
  "win_full = win_fs\<lparr>fs_base := (fs_base win_fs)(win_path \<mapsto> FileNode [7] None)\<rparr>"

lemma win_full_entries: "entry win_full q = (if q = win_path then Some (FileNode [7] None) else entry win_fs q)"
  by (simp add: entry_def win_full_def win_fs_def)

lemma win_full_entry: "entry win_full win_path = Some (FileNode [7] None)"
  by (simp add: win_full_entries)

lemma windows_clear_correct_witness:
  "\<exists>r s'. windows_clear_blob mem_lib 0 win_config win_path win_full = Some (r, s')
     \<and> (entry s' win_path = Some (FileNode [7] None) \<or> retimed (Some (FileNode [7] None)) (entry s' win_path)
        \<or> entry s' win_path = None)"
proof -
  let ?t = "filetime_time (filetime_of_ticks WINDOWS_EPOCH_OFFSET_100NS)"
  let ?s1 = "record_event (Update [(win_path, Some (FileNode [7] (Some ?t)))]) win_full"
  note ps = store_paths [OF win_config_ok(1,2), folded win_path_def]
  have "regular_or_absent win_full win_path" by (simp add: regular_or_absent_def win_full_entry)
  note c = windows_clear_correct [OF mem.windows_api_axioms win_config_ok(1,2) win_path_def this, of 0]
  have faults: "fs_faults win_full = []" "fs_random win_full = [Ok (replicate 32 1)]"
    by (simp_all add: win_full_def win_fs_def del: replicate.simps)
  have t0: "windows_ticks 0 0 = Some WINDOWS_EPOCH_OFFSET_100NS"
    by (simp add: windows_ticks_def checked_mul_def checked_add_def HUNDRED_NS_PER_SECOND_def WINDOWS_EPOCH_OFFSET_100NS_def)
  have rf: "refresh_windows_clear_age mem_lib 0 win_path win_full = (Ok (), ?s1)"
    by (simp add: refresh_windows_clear_age_def mem_lib_def mem_create_def api_call_def faults t0
        narrow_wide [OF ps(2)] win_full_entry mem_set_time_def Let_def record_event_def)
  have fill: "random_fill mem_lib 32 ?s1 = (Ok (replicate 32 1), ?s1\<lparr>fs_random := []\<rparr>)"
    by (simp add: mem_lib_def temp_fill_def record_event_def faults del: replicate.simps)
  have st: "windows_staging win_config win_hash ''clear'' (hex_encode (replicate 32 1)) \<noteq> win_path"
    using staging_paths(2) [OF win_config_ok(1,2), of "hex_encode (replicate 32 1)" "''clear''"] ps(3)
    by (auto simp: is_hex_name_encode simp del: replicate.simps)
  have "entry ?s1 (windows_staging win_config win_hash ''clear'' (hex_encode (replicate 32 1))) = None"
    using win_free [of "''clear''"] st by (simp add: win_full_entries del: replicate.simps)
  from c [THEN conjunct2, rule_format, OF rf fill this] obtain r s' where
    run: "windows_clear_blob mem_lib 0 win_config win_path win_full = Some (r, s')" by auto
  from c [THEN conjunct1, rule_format, OF run] run show ?thesis by (auto simp: win_full_entry)
qed

section \<open>Cleaning up\<close>

text \<open>The staging files the cleanup may remove, and the names it has to account for.\<close>

definition stale_staging :: "store_config \<Rightarrow> system_time \<Rightarrow> nat \<Rightarrow> fs \<Rightarrow> path \<Rightarrow> bool" where
  "stale_staging cfg now minimum_age s q \<longleftrightarrow>
     (\<exists>n bs t. is_owned_temporary_filename n (filename_suffix (cfg_format cfg)) \<and> q = windows_join (cfg_namespace cfg) n
        \<and> entry s q = Some (FileNode bs (Some t)) \<and> t \<le> now \<and> int minimum_age \<le> now - t)"

definition considered :: "store_config \<Rightarrow> (io_error, string) result list \<Rightarrow> string list" where
  "considered cfg entries = concat (map (\<lambda>found. case found of
       Err _ \<Rightarrow> [''<directory-entry>'']
     | Ok file \<Rightarrow> if is_owned_temporary_filename (to_string_lossy file) (filename_suffix (cfg_format cfg))
                  then [to_string_lossy file] else []) entries)"

definition reported :: "cleanup_report \<Rightarrow> string multiset" where
  "reported report = mset (cr_removed report) + mset (cr_skipped report) + mset (map cf_identifier (cr_failures report))"

definition removes_stale :: "store_config \<Rightarrow> system_time \<Rightarrow> nat \<Rightarrow> fs \<Rightarrow> fs \<Rightarrow> bool" where
  "removes_stale cfg now minimum_age s s' \<longleftrightarrow>
     (\<forall>q. entry s' q = entry s q \<or> stale_staging cfg now minimum_age s q \<and> entry s' q = None)"

lemma to_string_lossy_ascii: "ascii_string (to_string_lossy s) \<Longrightarrow> to_string_lossy s = s"
  by (induction s rule: to_string_lossy.induct) (auto simp: ascii_string_def split: if_splits)

lemma to_string_lossy_of_ascii: "ascii_string s \<Longrightarrow> to_string_lossy s = s"
  by (induction s rule: to_string_lossy.induct) (auto simp: ascii_string_def)

lemma removes_stale_quiet: "quiet (\<lambda>_. True) s s' \<Longrightarrow> removes_stale cfg now minimum_age s s'"
  by (simp add: removes_stale_def quiet_same_entries)

lemma removes_stale_trans:
  "removes_stale cfg now minimum_age a b \<Longrightarrow> removes_stale cfg now minimum_age b c \<Longrightarrow> removes_stale cfg now minimum_age a c"
  unfolding removes_stale_def stale_staging_def by (metis option.distinct(1))

lemma add_failure_simps [simp]:
  "cr_removed (add_failure n e report) = cr_removed report" "cr_skipped (add_failure n e report) = cr_skipped report"
  "cr_failures (add_failure n e report) = cr_failures report @ [\<lparr>cf_identifier = n, cf_source = e\<rparr>]"
  "reported (add_failure n e report) = reported report + {#n#}"
  by (simp_all add: add_failure_def reported_def)

lemma cleanup_owned_step:
  assumes "windows_api W opened" "drive_config cfg" "is_owned_temporary_filename n (filename_suffix (cfg_format cfg))"
    and "cleanup_owned W now minimum_age (windows_join (cfg_namespace cfg) n) n report s = (report', s')"
  shows "removes_stale cfg now minimum_age s s' \<and> reported report' = reported report + {#n#}
    \<and> (\<forall>m \<in> set (cr_removed report'). m \<in> set (cr_removed report) \<or> entry s' (windows_join (cfg_namespace cfg) m) = None)"
proof -
  let ?p = "windows_join (cfg_namespace cfg) n"
  have p: "drive_path ?p"
    using assms(2) owned_windows_plain [OF assms(2,3)] by (auto simp: drive_config_def intro: drive_path_join)
  obtain o1 s1 where m: "fs_symlink_metadata ?p s = (o1, s1)" by fastforce
  note q = fs_symlink_metadata_quiet [OF m, of "\<lambda>_. True"]
  show ?thesis
  proof (cases "\<exists>md. o1 = Ok md \<and> md_type md = IsFile \<and> old_enough now minimum_age md")
    case False
    with assms(4) m have "s' = s1 \<and> cr_removed report' = cr_removed report \<and> reported report' = reported report + {#n#}"
      by (auto simp: cleanup_owned_def reported_def split: sum.splits if_splits)
    with removes_stale_quiet [OF q] show ?thesis by auto
  next
    case True
    then obtain md where md: "o1 = Ok md" "md_type md = IsFile" "old_enough now minimum_age md" by blast
    from fs_symlink_metadata_Ok [OF m [unfolded md(1)]] obtain found where
      found: "entry s ?p = Some found" "md = node_metadata found" by blast
    with md(2) obtain bs t where f: "entry s ?p = Some (FileNode bs t)" "md_modified md = t"
      by (cases found) auto
    with md(3) assms(3) have stale: "stale_staging cfg now minimum_age s ?p"
      by (auto simp: old_enough_def stale_staging_def split: option.splits)
    obtain o2 s2 where d: "delete_file W ?p s1 = (o2, s2)" by fastforce
    from assms(4) m md d have s': "s' = s2" and
      r: "report' = (case o2 of Ok _ \<Rightarrow> report\<lparr>cr_removed := cr_removed report @ [n]\<rparr> | Err e \<Rightarrow> add_failure n e report)"
      by (auto simp: cleanup_owned_def split: sum.splits)
    have e1: "entry s1 = entry s" by (rule quiet_same_entries [OF q])
    from windows_api.delete_file_cases [OF assms(1) p d] have
      "entry s2 = entry s \<and> (\<exists>e. o2 = Err e) \<or> (\<forall>x. entry s2 x = (if x = ?p then None else entry s x))"
      using quiet_same_entries [of s1 s2] installs_entry [of "\<lambda>_. True" "[(?p, None)]" s1 s2] by (auto simp: e1)
    then have "entry s2 = entry s \<and> (\<exists>e. o2 = Err e)
        \<or> (\<forall>x. entry s2 x = entry s x \<or> stale_staging cfg now minimum_age s x \<and> entry s2 x = None) \<and> entry s2 ?p = None"
      using stale by (auto split: if_splits)
    then show ?thesis
      unfolding removes_stale_def s' by (auto simp: r reported_def split: sum.splits)
  qed
qed

lemma cleanup_entries_step:
  assumes "windows_api W opened" "drive_config cfg"
  shows "cleanup_entries W cfg now minimum_age entries report s = (report', s') \<Longrightarrow>
     removes_stale cfg now minimum_age s s' \<and> reported report' = reported report + mset (considered cfg entries)
     \<and> (\<forall>m \<in> set (cr_removed report'). m \<in> set (cr_removed report) \<or> entry s' (windows_join (cfg_namespace cfg) m) = None)"
proof (induction entries arbitrary: report s)
  case Nil
  then show ?case by (simp add: removes_stale_quiet considered_def)
next
  case (Cons found entries)
  show ?case
  proof (cases found)
    case (Inl e)
    with Cons.prems have "cleanup_entries W cfg now minimum_age entries (add_failure ''<directory-entry>'' e report) s
      = (report', s')" by simp
    from Cons.IH [OF this] Inl show ?thesis by (simp add: considered_def)
  next
    case (Inr entry_name)
    let ?n = "to_string_lossy entry_name"
    show ?thesis
    proof (cases "is_owned_temporary_filename ?n (filename_suffix (cfg_format cfg))")
      case False
      with Cons.prems Inr have "cleanup_entries W cfg now minimum_age entries report s = (report', s')" by simp
      from Cons.IH [OF this] Inr False show ?thesis by (simp add: considered_def)
    next
      case True
      have "ascii_string ?n" using owned_windows_plain [OF assms(2) True] by (simp add: windows_plain_def)
      then have same: "?n = entry_name" by (rule to_string_lossy_ascii)
      obtain report1 s1 where c:
        "cleanup_owned W now minimum_age (windows_join (cfg_namespace cfg) entry_name) entry_name report s = (report1, s1)" by fastforce
      note st = cleanup_owned_step [OF assms True [unfolded same] c]
      from Cons.prems Inr True c same have "cleanup_entries W cfg now minimum_age entries report1 s1 = (report', s')"
        by simp
      note ih = Cons.IH [OF this]
      have gone: "entry s' q = None" if "entry s1 q = None" for q
        using ih that unfolding removes_stale_def by metis
      have "considered cfg (found # entries) = entry_name # considered cfg entries"
        using Inr True same by (simp add: considered_def)
      moreover have "\<forall>m \<in> set (cr_removed report'). m \<in> set (cr_removed report)
          \<or> entry s' (windows_join (cfg_namespace cfg) m) = None"
      proof
        fix m assume "m \<in> set (cr_removed report')"
        then have "m \<in> set (cr_removed report1) \<or> entry s' (windows_join (cfg_namespace cfg) m) = None"
          using ih by simp
        then show "m \<in> set (cr_removed report) \<or> entry s' (windows_join (cfg_namespace cfg) m) = None"
          using st gone by auto
      qed
      ultimately show ?thesis using st ih by (auto intro: removes_stale_trans)
    qed
  qed
qed

lemma windows_cleanup_removes:
  assumes "windows_api W opened" "drive_config cfg" "windows_cleanup_stale_files W now cfg minimum_age s = (r, s')"
  shows "removes_stale cfg now minimum_age s s'"
proof -
  obtain o1 s1 where d: "fs_read_dir W (cfg_namespace cfg) s = (o1, s1)" by fastforce
  note q = removes_stale_quiet [OF windows_api.read_dir_quiet [OF assms(1) d]]
  show ?thesis
  proof (cases o1)
    case (Inl e)
    with assms(3) d q show ?thesis by (auto simp: windows_cleanup_stale_files_def)
  next
    case (Inr entries)
    with assms(3) d obtain report where "cleanup_entries W cfg now minimum_age entries cleanup_report_default s1 = (report, s')"
      by (auto simp: windows_cleanup_stale_files_def split: prod.splits)
    from cleanup_entries_step [OF assms(1,2) this] removes_stale_trans [OF q] show ?thesis by blast
  qed
qed

text \<open>C26. The cleanup removes nothing but staging files of the store that are regular and, at the time of the
  call, at least as old as asked for, whatever faults its calls meet; every entry of the directory with
  such a name and every failure to read one is reported exactly once, as removed, skipped or failed, and
  what is reported as removed is gone.\<close>

theorem windows_cleanup_correct:
  assumes "windows_api W opened" "drive_config cfg"
    and "windows_cleanup_stale_files W now cfg minimum_age s = (r, s')"
  shows "(\<forall>q. entry s' q = entry s q \<or> stale_staging cfg now minimum_age s q \<and> entry s' q = None)
    \<and> (\<forall>report. r = Ok report \<longrightarrow>
         (\<forall>n. n \<in> set (cr_removed report) \<longrightarrow> entry s' (windows_join (cfg_namespace cfg) n) = None)
         \<and> (\<exists>entries s1. fs_read_dir W (cfg_namespace cfg) s = (Ok entries, s1)
              \<and> reported report = mset (considered cfg entries)))
    \<and> (\<forall>e. r = Err e \<longrightarrow> (\<exists>source. e = Io EnumerateTemporaryFiles source))"
proof -
  obtain o1 s1 where d: "fs_read_dir W (cfg_namespace cfg) s = (o1, s1)" by fastforce
  note q = windows_api.read_dir_quiet [OF assms(1) d]
  show ?thesis
  proof (cases o1)
    case (Inl e)
    with assms(3) d quiet_same_entries [OF q] show ?thesis
      by (auto simp: windows_cleanup_stale_files_def)
  next
    case (Inr entries)
    obtain report s2 where c: "cleanup_entries W cfg now minimum_age entries cleanup_report_default s1 = (report, s2)"
      by fastforce
    with assms(3) d Inr have "r = Ok report" "s' = s2" by (auto simp: windows_cleanup_stale_files_def)
    moreover note st = cleanup_entries_step [OF assms(1,2) c]
    moreover have "removes_stale cfg now minimum_age s s2"
      using removes_stale_trans [OF removes_stale_quiet [OF q]] st by blast
    ultimately show ?thesis using d Inr
      by (auto simp: removes_stale_def cleanup_report_default_def reported_def)
  qed
qed

definition win_stale :: fs where
  "win_stale = win_full\<lparr>fs_log :=
     [Update [(windows_staging win_config win_hash ''save'' (hex_encode (replicate 32 2)), Some (FileNode [] (Some 5)))]]\<rparr>"

lemma windows_cleanup_correct_witness:
  "\<exists>report s'. windows_cleanup_stale_files mem_lib 100 win_config 10 win_stale = (Ok report, s')
     \<and> entry s' win_path = Some (FileNode [7] None)
     \<and> reported report = {#staging_name golden_format win_hash ''save'' (hex_encode (replicate 32 2))#}"
proof -
  let ?n = "staging_name golden_format win_hash ''save'' (hex_encode (replicate 32 2))"
  let ?st = "windows_staging win_config win_hash ''save'' (hex_encode (replicate 32 2))"
  obtain r s' where run: "windows_cleanup_stale_files mem_lib 100 win_config 10 win_stale = (r, s')" by fastforce
  note c = windows_cleanup_correct [OF mem.windows_api_axioms win_config_ok(1) run]
  have hex: "is_hex_name (hex_encode (replicate 32 (2 :: u8)))" by (rule is_hex_name_encode) simp
  have plain: "windows_plain ?n"
    using store_names_plain(2) [OF win_config_ok(1,2) hex, of "''save''"] by (simp add: win_config_ok(3))
  have d: "drive_path (cfg_namespace win_config)" using win_config_ok(1) by (simp add: drive_config_def)
  have owned: "is_owned_temporary_filename ?n (filename_suffix golden_format)"
    unfolding owned_exactly [OF golden_wf]
    by (intro exI [of _ win_hash] exI [of _ "''save''"] exI [of _ "hex_encode (replicate 32 2)"] conjI)
       (simp_all add: win_config_ok hex del: replicate.simps)
  have st: "?st = windows_join (cfg_namespace win_config) ?n" by (simp add: windows_staging_def win_config_ok(3))
  have e: "entry win_stale ?st = Some (FileNode [] (Some 5))"
    by (simp add: entry_def win_stale_def del: replicate.simps)
  have listing: "fs_read_dir mem_lib (cfg_namespace win_config) win_stale = (Ok [Ok ?n], win_stale)"
    using e by (simp add: mem_lib_def mem_read_dir_def win_stale_def Let_def st windows_file_name_join [OF d plain]
        del: replicate.simps)
  have "considered win_config [Ok ?n] = [?n]"
    using owned plain by (simp add: considered_def to_string_lossy_of_ascii windows_plain_def win_config_ok(3) del: replicate.simps)
  moreover have ok: "\<exists>report. r = Ok report"
    using run listing by (auto simp: windows_cleanup_stale_files_def split: prod.splits)
  moreover have "win_path \<noteq> ?st"
    using staging_paths(2) [OF win_config_ok(1,2) hex, of "''save''"] store_paths(3) [OF win_config_ok(1,2)]
    by (auto simp: win_path_def simp del: replicate.simps)
  then have "entry win_stale win_path = Some (FileNode [7] None)"
    using win_full_entry by (simp add: entry_def win_stale_def win_full_def win_fs_def del: replicate.simps)
  then have "entry s' win_path = Some (FileNode [7] None)"
    using c [THEN conjunct1, rule_format, of win_path] by (auto simp: stale_staging_def)
  ultimately show ?thesis using c listing run by (auto simp del: replicate.simps)
qed

end
