(* ===== verification/WinQuarantine.thy ===== *)
theory WinQuarantine
  imports WinCleanup
begin

text \<open>
  Quarantining on Windows, and the time a clear gives to the file it takes away.
\<close>

section \<open>Quarantine\<close>

text \<open>The outcomes of a quarantine: the file moved, possibly moved by a call that failed, or nothing changed.\<close>

definition windows_quarantine_path :: "store_config \<Rightarrow> string \<Rightarrow> string \<Rightarrow> path" where
  "windows_quarantine_path cfg h i = windows_join (cfg_namespace cfg) (quarantine_name (cfg_format cfg) h i)"

definition windows_quarantined :: "store_config \<Rightarrow> path \<Rightarrow> string \<Rightarrow> fs \<Rightarrow> quarantine_info store_result \<Rightarrow> fs \<Rightarrow> bool" where
  "windows_quarantined cfg p h s r s' \<longleftrightarrow>
     (\<exists>i n. is_hex_name i \<and> entry s p = Some n
        \<and> installs (\<lambda>_. True) [(windows_quarantine_path cfg h i, Some n), (p, None)] s s'
        \<and> (entry s (windows_quarantine_path cfg h i) = None
             \<and> (r = Ok \<lparr>qi_identifier = i, diagnostic_path = windows_quarantine_path cfg h i\<rparr>
                \<or> (\<exists>source. r = Err (QuarantineNamespaceSync
                      \<lparr>qi_identifier = i, diagnostic_path = windows_quarantine_path cfg h i\<rparr> source)))
           \<or> (\<exists>source. r = Err (QuarantineCommit source))))
     \<or> quiet (\<lambda>_. True) s s' \<and> (\<exists>e. r = Err e \<and> (\<forall>q source. e \<noteq> QuarantineNamespaceSync q source)
          \<and> (e = QuarantineSourceMissing \<longrightarrow> namespace_ready cfg s \<and> entry s p = None))"

lemma windows_quarantined_quiet:
  assumes "quiet (\<lambda>_. True) s s1" "windows_quarantined cfg p h s1 r s'"
  shows "windows_quarantined cfg p h s r s'"
  using assms(2) quiet_trans [OF assms(1)] quiet_installs [OF assms(1)]
  unfolding windows_quarantined_def quiet_same_entries [OF assms(1)] quiet_namespace_ready [OF assms(1)]
  by blast

lemma quarantine_path_drive: "drive_config cfg \<Longrightarrow> is_hex_name h \<Longrightarrow> is_hex_name i \<Longrightarrow> drive_path (windows_quarantine_path cfg h i)"
  unfolding windows_quarantine_path_def
  by (rule drive_path_join) (simp_all add: drive_config_def store_names_plain(3))

lemma quarantine_directory:
  "drive_config cfg \<Longrightarrow> is_hex_name h \<Longrightarrow> is_hex_name i \<Longrightarrow>
     same_directory (windows_blob_path cfg h) (windows_quarantine_path cfg h i)"
  unfolding windows_blob_path_def windows_quarantine_path_def
  by (rule same_directoryI) (simp_all add: drive_config_def store_names_plain(1,3))

lemma windows_quarantine_loop_outcome:
  assumes "windows_quarantine_loop W cfg p h s = Some y"
  shows "windows_api W opened \<Longrightarrow> drive_config cfg \<Longrightarrow> is_hex_name h \<Longrightarrow> p = windows_blob_path cfg h \<Longrightarrow>
     windows_quarantined cfg p h s (fst y) (snd y)"
  using assms
proof (induction rule: windows_quarantine_loop.raw_induct [rotated, consumes 1, case_names step])
  case (step loop W cfg p h s y)
  note api = step.prems(1) and cfg = step.prems(2) and h = step.prems(3) and p = step.prems(4)
  have ns: "drive_path (cfg_namespace cfg)" and dp: "drive_path p" using store_paths [OF cfg h] p by simp_all
  obtain ri s1 where ri: "windows_random_identifier W s = (ri, s1)" by fastforce
  note r = windows_api.windows_random_identifier_cases [OF api ri]
  show ?case
  proof (cases ri)
    case (Inl e)
    with step.hyps ri r show ?thesis by (auto simp: windows_quarantined_def)
  next
    case i: (Inr i)
    with r have hex: "is_hex_name i" and q: "quiet (\<lambda>_. True) s s1" by simp_all
    let ?d = "windows_quarantine_path cfg h i"
    have d: "drive_path ?d" by (rule quarantine_path_drive [OF cfg h hex])
    note fold_d = windows_quarantine_path_def [symmetric]
    obtain o2 s2 where m: "move_file W p ?d MOVEFILE_WRITE_THROUGH s1 = (o2, s2)" by fastforce
    have "windows_quarantined cfg p h s1 (fst y) (snd y)"
    proof (rule windows_api.move_file_cases [OF api dp d m])
      fix n
      assume moved: "o2 = Ok () \<or> (\<exists>e. o2 = Err e \<and> io_kind e \<noteq> NotFound \<and> io_kind e \<noteq> AlreadyExists)"
        "entry s1 p = Some n" "o2 = Ok () \<Longrightarrow> MOVEFILE_WRITE_THROUGH AND MOVEFILE_REPLACE_EXISTING = 0 \<Longrightarrow> entry s1 ?d = None"
        "installs (\<lambda>_. True) [(?d, Some n), (p, None)] s1 s2"
      show ?thesis
      proof (cases o2)
        case (Inl e)
        then have "io_kind e \<noteq> NotFound" "io_kind e \<noteq> AlreadyExists" using moved(1) by auto
        with step.hyps ri i m Inl have "y = (Err (QuarantineCommit e), s2)" by (simp add: Let_def fold_d)
        with moved(2,4) hex show ?thesis by (auto simp: windows_quarantined_def)
      next
        case (Inr u)
        have f: "entry s1 ?d = None"
          using moved(3) Inr by (simp add: MOVEFILE_WRITE_THROUGH_def MOVEFILE_REPLACE_EXISTING_def)
        obtain o3 s3 where sy: "sync_windows_directory W cfg s2 = (o3, s3)" by fastforce
        have i3: "installs (\<lambda>_. True) [(?d, Some n), (p, None)] s1 s3"
          by (rule installs_quiet [OF moved(4) windows_api.sync_windows_directory_quiet [OF api ns sy]])
        from step.hyps ri i m Inr sy have
          "y = (case o3 of Err source \<Rightarrow> Err (QuarantineNamespaceSync \<lparr>qi_identifier = i, diagnostic_path = ?d\<rparr> source)
             | Ok _ \<Rightarrow> Ok \<lparr>qi_identifier = i, diagnostic_path = ?d\<rparr>, s3)"
          by (auto simp: Let_def fold_d split: sum.splits)
        with moved(2) f i3 hex show ?thesis
          unfolding windows_quarantined_def
          by (intro disjI1 exI [of _ i] exI [of _ n]) (auto split: sum.splits)
      qed
    next
      fix e
      assume still: "o2 = Err e" "quiet (\<lambda>_. True) s1 s2" "io_kind e = NotFound \<Longrightarrow> same_directory p ?d \<Longrightarrow> entry s1 p = None"
      consider "io_kind e = NotFound" | "io_kind e = AlreadyExists" | "io_kind e \<noteq> NotFound" "io_kind e \<noteq> AlreadyExists"
        by blast
      then show ?thesis
      proof cases
        case 1
        obtain en s3 where en: "ensure_namespace_available cfg s2 = (en, s3)" by fastforce
        have q3: "quiet (\<lambda>_. True) s1 s3" by (rule quiet_trans [OF still(2) ensure_namespace_available_quiet [OF en]])
        from step.hyps ri i m still(1) 1 en have
          y: "y = (case en of Err e \<Rightarrow> Err e | Ok _ \<Rightarrow> Err QuarantineSourceMissing, s3)"
          by (auto simp: Let_def fold_d split: sum.splits)
        show ?thesis
        proof (cases en)
          case (Inl e2)
          with y q3 ensure_namespace_available_Err [OF en [unfolded Inl]] show ?thesis
            by (auto simp: windows_quarantined_def)
        next
          case (Inr u)
          from ensure_namespace_available_Ok [OF en [unfolded Inr]] quiet_namespace_ready [OF still(2)]
          have "namespace_ready cfg s1" by simp
          with y Inr q3 still(3) [OF 1] quarantine_directory [OF cfg h hex] p show ?thesis by (simp add: windows_quarantined_def)
        qed
      next
        case 2
        with step.hyps ri i m still(1) have "loop W cfg p h s2 = Some y" by (simp add: Let_def fold_d)
        from windows_quarantined_quiet [OF still(2) step.IH [OF this api cfg h p]] show ?thesis .
      next
        case 3
        with step.hyps ri i m still(1) have "y = (Err (QuarantineCommit e), s2)" by (simp add: Let_def fold_d)
        with still(2) show ?thesis by (simp add: windows_quarantined_def)
      qed
    qed
    with windows_quarantined_quiet [OF q] show ?thesis .
  qed
qed

lemma installs_swap:
  assumes "installs (\<lambda>_. True) [(q, Some n), (p, None)] s s'"
  shows "entry s' = (entry s)(p := None, q := Some n)"
  using installs_entry [OF assms] by (auto simp: fun_eq_iff)

lemma windows_quarantine_returns:
  assumes "windows_api W opened" "drive_config cfg" "is_hex_name h"
    and "random_fill W 32 s = (Ok bs, s1)" "entry s (windows_quarantine_path cfg h (hex_encode bs)) = None"
  shows "\<exists>y. windows_quarantine_blob W cfg (windows_blob_path cfg h) s = Some y"
proof -
  note ps = store_paths [OF assms(2,3)]
  let ?i = "hex_encode bs" and ?p = "windows_blob_path cfg h"
  let ?d = "windows_quarantine_path cfg h ?i"
  have ri: "windows_random_identifier W s = (Ok ?i, s1)" using assms(4) by (simp add: windows_random_identifier_def)
  note r = windows_api.windows_random_identifier_cases [OF assms(1) ri, simplified]
  have d: "drive_path ?d" by (rule quarantine_path_drive [OF assms(2,3)]) (use r in simp)
  have f: "entry s1 ?d = None" using r quiet_same_entries assms(5) by metis
  obtain o2 s2 where m: "move_file W ?p ?d MOVEFILE_WRITE_THROUGH s1 = (o2, s2)" by fastforce
  have "\<forall>e. o2 = Err e \<longrightarrow> io_kind e \<noteq> AlreadyExists"
    by (rule windows_api.move_file_cases [OF assms(1) ps(2) d m]) (use f in auto)
  then have "\<exists>y. windows_quarantine_loop W cfg ?p h s = Some y"
    by (cases o2) (auto simp: windows_quarantine_loop.simps [of W cfg ?p h s] ri
        m [unfolded windows_quarantine_path_def] Let_def split: prod.split sum.split)
  then show ?thesis using ps(4) assms(3) by (simp add: windows_quarantine_blob_def)
qed

text \<open>C25. Quarantining on Windows: a result that names a diagnostic path, success or the error of the later
  synchronization, means that the complete old file is there and nothing at the canonical path, at every
  interruption either before or after. \<open>QuarantineCommit\<close> is ambiguous: nothing has changed, or the file has
  been moved, untouched, to a diagnostic path that is not reported. Every other error leaves all entries as
  they were, and a missing source is reported only when the entry is missing. With an identifier that
  names a free diagnostic path it returns.\<close>

theorem windows_quarantine_correct:
  assumes "windows_api W opened" "drive_config cfg" "is_hex_name h" "p = windows_blob_path cfg h"
  shows "(\<forall>r s'. windows_quarantine_blob W cfg p s = Some (r, s') \<longrightarrow>
        (\<forall>q. r = Ok q \<or> (\<exists>source. r = Err (QuarantineNamespaceSync q source)) \<longrightarrow>
           is_hex_name (qi_identifier q) \<and> diagnostic_path q = windows_quarantine_path cfg h (qi_identifier q)
           \<and> moved p (diagnostic_path q) s s')
        \<and> (\<forall>e. r = Err e \<longrightarrow> (\<forall>q source. e \<noteq> QuarantineNamespaceSync q source) \<longrightarrow> (\<forall>source. e \<noteq> QuarantineCommit source)
             \<longrightarrow> entry s' = entry s)
        \<and> (\<forall>source. r = Err (QuarantineCommit source) \<longrightarrow> entry s' = entry s
             \<or> (\<exists>i n. is_hex_name i \<and> entry s p = Some n
                  \<and> entry s' = (entry s)(p := None, windows_quarantine_path cfg h i := Some n)))
        \<and> (r = Err QuarantineSourceMissing \<longrightarrow> namespace_ready cfg s \<and> entry s p = None))
    \<and> (\<forall>bs s1. random_fill W 32 s = (Ok bs, s1) \<longrightarrow> entry s (windows_quarantine_path cfg h (hex_encode bs)) = None
         \<longrightarrow> windows_quarantine_blob W cfg p s \<noteq> None)"
proof (intro conjI allI impI)
  note ps = store_paths [OF assms(2,3), folded assms(4)]
  fix r s'
  assume run: "windows_quarantine_blob W cfg p s = Some (r, s')"
  with assms(3) ps(4) have "windows_quarantine_loop W cfg p h s = Some (r, s')"
    by (simp add: windows_quarantine_blob_def)
  from windows_quarantine_loop_outcome [OF this assms(1-4)]
  have q: "windows_quarantined cfg p h s r s'" by simp
  then show "is_hex_name (qi_identifier q)" "diagnostic_path q = windows_quarantine_path cfg h (qi_identifier q)"
    "moved p (diagnostic_path q) s s'"
    if "r = Ok q \<or> (\<exists>source. r = Err (QuarantineNamespaceSync q source))" for q
    using that unfolding windows_quarantined_def
    by (elim disjE exE conjE; auto intro: installs_moved)+
  from q show "entry s' = entry s"
    if "r = Err e" "\<forall>q source. e \<noteq> QuarantineNamespaceSync q source" "\<forall>source. e \<noteq> QuarantineCommit source" for e
    using that unfolding windows_quarantined_def
    by (elim disjE exE conjE) (auto simp: quiet_same_entries)
  from q show "entry s' = entry s \<or> (\<exists>i n. is_hex_name i \<and> entry s p = Some n
      \<and> entry s' = (entry s)(p := None, windows_quarantine_path cfg h i := Some n))"
    if "r = Err (QuarantineCommit source)" for source
    using that unfolding windows_quarantined_def
    by (elim disjE exE conjE) (auto simp: quiet_same_entries dest: installs_swap)
  from q show "namespace_ready cfg s" "entry s p = None" if "r = Err QuarantineSourceMissing"
    using that unfolding windows_quarantined_def by (elim disjE exE conjE; auto)+
qed (use windows_quarantine_returns [OF assms(1-3)] assms(4) in fastforce)

lemma windows_quarantine_correct_witness:
  "\<exists>r s'. windows_quarantine_blob mem_lib win_config win_path win_full = Some (r, s')
     \<and> (\<forall>q. r = Ok q \<longrightarrow> moved win_path (diagnostic_path q) win_full s')"
proof -
  note c = windows_quarantine_correct [OF mem.windows_api_axioms win_config_ok(1,2) win_path_def, of win_full]
  let ?d = "windows_quarantine_path win_config win_hash (hex_encode (replicate 32 1))"
  have i: "is_hex_name (hex_encode (replicate 32 (1 :: u8)))" by (rule is_hex_name_encode) simp
  have fill: "random_fill mem_lib 32 win_full = (Ok (replicate 32 1), win_full\<lparr>fs_random := []\<rparr>)"
    by (simp add: mem_lib_def temp_fill_def win_full_def win_fs_def del: replicate.simps)
  have n: "drive_path (cfg_namespace win_config)" using win_config_ok(1) by (simp add: drive_config_def)
  note plain = store_names_plain [OF win_config_ok(1,2)]
  have "?d \<noteq> cfg_namespace win_config"
    unfolding windows_quarantine_path_def by (rule windows_join_longer [OF n plain(3) [OF i]])
  moreover have "?d \<noteq> win_path"
  proof
    assume "?d = win_path"
    then have "length (quarantine_name (cfg_format win_config) win_hash (hex_encode (replicate 32 1)))
        = length (win_hash @ filename_suffix (cfg_format win_config))"
      using windows_join_inj [OF n plain(3) [OF i] plain(1)]
      unfolding windows_quarantine_path_def win_path_def windows_blob_path_def by simp
    then show False by (simp add: quarantine_name_def)
  qed
  ultimately have "entry win_full ?d = None" by (simp add: win_full_entries) (simp add: entry_def win_fs_def)
  from c [THEN conjunct2, rule_format, OF fill this] obtain r s' where
    run: "windows_quarantine_blob mem_lib win_config win_path win_full = Some (r, s')" by auto
  from c [THEN conjunct1, rule_format, OF run] run show ?thesis by auto
qed

section \<open>File times\<close>

lemma filetime_halves:
  "dwLowDateTime (filetime_of_ticks t) = ucast t" "dwHighDateTime (filetime_of_ticks t) = ucast (drop_bit 32 t)"
proof -
  have l: "rev (take 4 (rev (be64 t))) = be32 (ucast t)"
    by (simp add: to_be_bytes_def upt_rec) (intro conjI bit_eqI; auto simp: bit_simps)
  show "dwLowDateTime (filetime_of_ticks t) = ucast t"
    unfolding filetime_of_ticks_def Let_def by (simp add: l)
  have h: "rev (drop 4 (rev (be64 t))) = be32 (ucast (drop_bit 32 t))"
    by (simp add: to_be_bytes_def upt_rec) (intro conjI bit_eqI; auto simp: bit_simps)
  show "dwHighDateTime (filetime_of_ticks t) = ucast (drop_bit 32 t)"
    unfolding filetime_of_ticks_def Let_def by (simp add: h)
qed

lemma filetime_value: "filetime_ticks (filetime_of_ticks t) = unat t"
proof -
  have "unat (ucast (drop_bit 32 t) :: u32) = unat t div 2 ^ 32"
  proof -
    have "unat t div 2 ^ 32 < 2 ^ 32" using unsigned_less [of t] by (simp add: div_less_iff_less_mult)
    then show ?thesis by (simp add: unsigned_ucast_eq drop_bit_eq_div unat_div take_bit_eq_mod)
  qed
  moreover have "unat (ucast t :: u32) = unat t mod 2 ^ 32"
    by (simp add: unsigned_ucast_eq take_bit_eq_mod)
  ultimately show ?thesis by (simp add: filetime_ticks_def filetime_halves)
qed

lemma windows_ticks_value:
  "windows_ticks secs nanos = Some t \<longleftrightarrow>
     unat secs * 10000000 + unat nanos div 100 + 116444736000000000 < 2 ^ 64
     \<and> t = of_nat (unat secs * 10000000 + unat nanos div 100 + 116444736000000000)"
proof -
  have n: "unat (ucast (nanos div 100) :: u64) = unat nanos div 100"
  proof -
    have "unat nanos div 100 \<le> unat nanos" by simp
    also have "\<dots> < 2 ^ 32" using unsigned_less [of nanos] by simp
    also have "\<dots> < (2 :: nat) ^ 64" by simp
    finally have "unat nanos div 100 < 2 ^ 64" .
    then show ?thesis by (simp add: unsigned_ucast_eq unat_div take_bit_nat_eq_self)
  qed
  have k: "unat HUNDRED_NS_PER_SECOND = 10000000" "unat WINDOWS_EPOCH_OFFSET_100NS = 116444736000000000"
    by (simp_all add: HUNDRED_NS_PER_SECOND_def WINDOWS_EPOCH_OFFSET_100NS_def)
  let ?m = "unat secs * 10000000" let ?a = "?m + unat nanos div 100"
  have mul: "checked_mul secs HUNDRED_NS_PER_SECOND = (if ?m < 2 ^ 64 then Some (of_nat ?m) else None)"
    by (simp add: checked_mul_def k) (simp add: HUNDRED_NS_PER_SECOND_def)
  have add: "checked_add (of_nat x) w = (if x + unat w < 2 ^ 64 then Some (of_nat (x + unat w)) else None)"
    if "x < 2 ^ 64" for x and w :: u64
    using that unat_of_nat_small [of x, where 'a = 64] by (simp add: checked_add_def del: unat_of_nat_small)
  show ?thesis
  proof (cases "?a < 2 ^ 64")
    case True
    then have m: "?m < 2 ^ 64" by linarith
    show ?thesis
      using add [OF m, of "ucast (nanos div 100)"] add [OF True, of WINDOWS_EPOCH_OFFSET_100NS] True
      by (auto simp: windows_ticks_def mul m n k)
  next
    case False
    have "windows_ticks secs nanos = None"
    proof (cases "?m < 2 ^ 64")
      case True
      with add [OF True, of "ucast (nanos div 100)"] False show ?thesis by (simp add: windows_ticks_def mul n)
    qed (simp add: windows_ticks_def mul)
    with False show ?thesis by simp
  qed
qed

text \<open>C40. The time a clear writes is the current one, cut to 100 nanoseconds; the conversion fails only for
  times that no \<open>FILETIME\<close> can hold.\<close>

theorem refreshed_time:
  assumes "0 \<le> now" "now < 9223372036854775808000000000"
  shows "case windows_ticks (of_int (now div 1000000000)) (of_int (now mod 1000000000)) of
      Some t \<Rightarrow> filetime_time (filetime_of_ticks t) = now - now mod 100
    | None \<Rightarrow> 2 ^ 64 \<le> now div 100 + 116444736000000000"
proof -
  let ?s = "of_int (now div 1000000000) :: u64" and ?n = "of_int (now mod 1000000000) :: u32"
  have s: "int (unat ?s) = now div 1000000000"
  proof -
    have "0 \<le> now div 1000000000" "now div 1000000000 < 2 ^ 64" using assms by simp_all
    then show ?thesis by (simp add: unsigned_of_int take_bit_int_eq_self)
  qed
  have n: "int (unat ?n) = now mod 1000000000"
  proof -
    have "0 \<le> now mod 1000000000" "now mod 1000000000 < 2 ^ 32" using pos_mod_bound [of 1000000000 now] by simp_all
    then show ?thesis by (simp add: unsigned_of_int take_bit_int_eq_self)
  qed
  let ?k = "unat ?s * 10000000 + unat ?n div 100 + 116444736000000000"
  have "now = now mod 1000000000 + (now div 1000000000 * 10000000) * 100"
    using div_mult_mod_eq [of now 1000000000] by simp
  then have "now div 100 = (now mod 1000000000 + (now div 1000000000 * 10000000) * 100) div 100" by metis
  also have "\<dots> = now div 1000000000 * 10000000 + (now mod 1000000000) div 100" by (rule div_mult_self1) simp
  finally have "(now div 1000000000) * 10000000 + (now mod 1000000000) div 100 = now div 100" by simp
  moreover have "int ?k = int (unat ?s) * 10000000 + int (unat ?n) div 100 + 116444736000000000"
    by (simp only: of_nat_add of_nat_mult of_nat_div of_nat_numeral)
  ultimately have k: "int ?k = now div 100 + 116444736000000000" by (simp only: s n)
  show ?thesis
  proof (cases "windows_ticks ?s ?n")
    case None
    have "\<not> ?k < 2 ^ 64" using windows_ticks_value [of ?s ?n "of_nat ?k"] None by auto
    then have "2 ^ 64 \<le> ?k" by (simp only: not_less)
    then have "int (2 ^ 64) \<le> int ?k" by (rule of_nat_mono)
    with None show ?thesis unfolding k by simp
  next
    case (Some t)
    then have t: "?k < 2 ^ 64" "t = of_nat ?k" unfolding windows_ticks_value by simp_all
    have "unat t = ?k" unfolding t(2) by (rule unat_of_nat_small) (use t(1) in simp)
    then have "int (filetime_ticks (filetime_of_ticks t)) = now div 100 + 116444736000000000"
      using k by (simp only: filetime_value)
    with Some show ?thesis by (simp add: filetime_time_def minus_mod_eq_div_mult [symmetric])
  qed
qed

lemma refreshed_time_witness:
  "\<exists>t. windows_ticks 1500 150 = Some t \<and> filetime_time (filetime_of_ticks t) = 1500000000100"
  using refreshed_time [of 1500000000150] by (simp split: option.splits)

end
