(* ===== verification/WinOpen.thy ===== *)
theory WinOpen
  imports WinQuarantine
begin

text \<open>
  Opening a namespace on Windows (\<open>initialize_platform\<close>): what it returns, what it leaves, and that the
  namespace of an absolute root on a drive is one the operations of the store are correct for.
\<close>

section \<open>Creating the namespace\<close>

lemma windows_create_dir_Ok:
  assumes "windows_create_dir p s = (Ok u, s')"
  shows "entry s p = None \<and> entry s' = (entry s)(p \<mapsto> DirNode)"
  using assms unfolding windows_create_dir_def
  by (auto elim!: syscall_cases [where V = "\<lambda>_. True"] simp: fun_eq_iff split: option.splits if_splits)

lemma windows_create_dir_Err:
  assumes "windows_create_dir p s = (Err e, s')"
  shows "entry s' = entry s"
  using assms unfolding windows_create_dir_def
proof (cases rule: syscall_cases [where V = "\<lambda>_. True"])
  case (fault c)
  then show ?thesis by (simp add: quiet_same_entries)
next
  case (call f)
  then have "s' = s\<lparr>fs_faults := f\<rparr>" by (simp split: option.splits if_splits)
  then show ?thesis by simp
qed

lemma fs_metadata_dir:
  assumes "fs_metadata p s = (Ok m, s')" "md_type m = IsDir"
  shows "is_directory p s"
  using fs_metadata_Ok [OF assms(1)] assms(2) by (auto simp: is_directory_def)

lemma is_directory_entries: "entry s' = entry s \<Longrightarrow> is_directory p s' = is_directory p s"
  by (simp only: is_directory_def resolve_cong [of s' s])

section \<open>Opening\<close>

definition windows_initialized ::
  "path \<Rightarrow> path \<Rightarrow> blob_format_identity \<Rightarrow> u64 \<Rightarrow> nat \<Rightarrow> store_config" where
  "windows_initialized root namespace_component format maximum conc =
     \<lparr>cfg_namespace = windows_join root namespace_component, cfg_format = format, cfg_maximum = maximum,
      cfg_max_concurrent_operations = conc\<rparr>"

lemma windows_initialized_drive:
  "drive_path root \<Longrightarrow> windows_plain ns \<Longrightarrow> wf_format format \<Longrightarrow>
     drive_config (windows_initialized root ns format maximum conc)"
  by (simp add: drive_config_def windows_initialized_def drive_path_join)

lemma namespace_created_or_found:
  fixes cfg :: store_config
  defines "ns \<equiv> cfg_namespace cfg"
  assumes "(case windows_create_dir ns s of
      (Ok _, s) \<Rightarrow> (Ok cfg, s)
    | (Err source, s) \<Rightarrow>
        if io_kind source = AlreadyExists then
          (case fs_metadata ns s of
             (Err source, s) \<Rightarrow> (io_err InspectNamespace source, s)
           | (Ok m, s) \<Rightarrow> (if md_type m \<noteq> IsDir then Err NamespacePathIsNotDirectory else Ok cfg, s))
        else (io_err CreateNamespace source, s)) = (r, s')"
  shows "(\<exists>e. r = Err e) \<and> entry s' = entry s
    \<or> r = Ok cfg \<and> (is_directory ns s \<and> entry s' = entry s \<or> entry s ns = None \<and> entry s' = (entry s)(ns \<mapsto> DirNode))"
proof -
  obtain o1 s1 where c: "windows_create_dir ns s = (o1, s1)" by fastforce
  show ?thesis
  proof (cases o1)
    case (Inr u)
    with assms(2) c windows_create_dir_Ok [OF c [unfolded Inr]] show ?thesis by simp
  next
    case (Inl e)
    have e1: "entry s1 = entry s" by (rule windows_create_dir_Err [OF c [unfolded Inl]])
    obtain o2 s2 where m: "fs_metadata ns s1 = (o2, s2)" by fastforce
    have e2: "entry s2 = entry s" using quiet_same_entries [OF fs_metadata_quiet [OF m]] e1 by simp
    have "is_directory ns s" if "o2 = Ok i" "md_type i = IsDir" for i
      using fs_metadata_dir [OF m [unfolded that(1)] that(2)] is_directory_entries [OF e1] by simp
    with assms(2) c Inl m e1 e2 show ?thesis by (auto simp: io_err_def split: if_splits sum.splits)
  qed
qed

text \<open>C39. Opening a namespace on Windows returns the configuration it was asked for, over an existing
  directory or one it has just created in the existing root, or fails and changes nothing. When the
  resolved root is a path on a drive the configuration is one the operations of the store are correct
  for.\<close>

theorem windows_initialize_platform_correct:
  assumes "windows_initialize_platform absolute root ns format maximum conc s = (r, s')"
  shows "(\<exists>e. r = Err e) \<and> entry s' = entry s
    \<or> (\<exists>root' cfg. absolute root = Ok root' \<and> is_directory root' s
        \<and> cfg = windows_initialized root' ns format maximum conc \<and> r = Ok cfg
        \<and> (is_directory (cfg_namespace cfg) s \<and> entry s' = entry s
           \<or> entry s (cfg_namespace cfg) = None \<and> entry s' = (entry s)(cfg_namespace cfg \<mapsto> DirNode))
        \<and> (drive_path root' \<and> windows_plain ns \<and> wf_format format \<longrightarrow> drive_config cfg))"
proof (cases "absolute root")
  case (Inl e)
  with assms show ?thesis by (auto simp: windows_initialize_platform_def io_err_def)
next
  case (Inr root')
  let ?cfg = "windows_initialized root' ns format maximum conc"
  obtain o1 s1 where m: "fs_metadata root' s = (o1, s1)" by fastforce
  have e1: "entry s1 = entry s" by (rule quiet_same_entries [OF fs_metadata_quiet [OF m]])
  show ?thesis
  proof (cases "\<exists>i. o1 = Ok i \<and> md_type i = IsDir")
    case False
    with assms Inr m e1 show ?thesis
      by (auto simp: windows_initialize_platform_def io_err_def split: sum.splits if_splits)
  next
    case True
    then obtain i where i: "o1 = Ok i" "md_type i = IsDir" by blast
    have ns: "cfg_namespace ?cfg = windows_join root' ns" by (simp add: windows_initialized_def)
    have "(case windows_create_dir (cfg_namespace ?cfg) s1 of
      (Ok _, s) \<Rightarrow> (Ok ?cfg, s)
    | (Err source, s) \<Rightarrow>
        if io_kind source = AlreadyExists then
          (case fs_metadata (cfg_namespace ?cfg) s of
             (Err source, s) \<Rightarrow> (io_err InspectNamespace source, s)
           | (Ok m, s) \<Rightarrow> (if md_type m \<noteq> IsDir then Err NamespacePathIsNotDirectory else Ok ?cfg, s))
        else (io_err CreateNamespace source, s)) = (r, s')"
      using assms m i unfolding windows_initialize_platform_def Inr Let_def ns unfolding windows_initialized_def by simp
    from namespace_created_or_found [OF this]
    have "(\<exists>e. r = Err e) \<and> entry s' = entry s
      \<or> r = Ok ?cfg \<and> (is_directory (cfg_namespace ?cfg) s \<and> entry s' = entry s
          \<or> entry s (cfg_namespace ?cfg) = None \<and> entry s' = (entry s)(cfg_namespace ?cfg \<mapsto> DirNode))"
      unfolding e1 is_directory_entries [OF e1] .
    with Inr fs_metadata_dir [OF m [unfolded i(1)] i(2)] windows_initialized_drive [of root' ns format] show ?thesis
      by blast
  qed
qed

definition win_root :: fs where
  "win_root = win_fs\<lparr>fs_base := [''C:'' @ [CHR 0x5C] \<mapsto> DirNode]\<rparr>"

lemma win_initialize:
  "windows_initialize_platform Ok (''C:'' @ [CHR 0x5C]) ''blobs'' golden_format 67108864 2 win_root
     = (Ok win_config, win_root\<lparr>fs_log := [Update [(cfg_namespace win_config, Some DirNode)]]\<rparr>)"
proof -
  have j: "windows_join (''C:'' @ [CHR 0x5C]) ''blobs'' = cfg_namespace win_config"
    by (simp add: win_config_def windows_join_def drive_prefix_def drive_letter_def windows_separator_def)
  have p: "windows_parent (cfg_namespace win_config) = ''C:''"
    by (simp add: win_config_def windows_parent_def windows_separator_def)
  have e: "entry win_root (''C:'' @ [CHR 0x5C]) = Some DirNode" "entry win_root (cfg_namespace win_config) = None"
    "fs_faults win_root = []"
    by (simp_all add: win_root_def entry_def win_config_def win_fs_def)
  have d: "resolve LINK_LIMIT win_root (''C:'' @ [CHR 0x5C]) = Ok (''C:'' @ [CHR 0x5C], DirNode)"
    using e(1) by (simp add: resolve.simps)
  show ?thesis
    unfolding windows_initialize_platform_def sum.case
    by (simp only: fs_metadata_def syscall_def e(3) d sum.case prod.case list.case j windows_create_dir_def p e option.case Let_def)
       (use e in \<open>simp add: record_event_def win_root_def win_fs_def win_config_def golden_config_def\<close>)
qed

lemma windows_initialize_platform_correct_witness:
  "drive_config win_config
   \<and> entry (win_root\<lparr>fs_log := [Update [(cfg_namespace win_config, Some DirNode)]]\<rparr>) (cfg_namespace win_config) = Some DirNode"
proof -
  have "drive_path (''C:'' @ [CHR 0x5C])" "windows_plain ''blobs''"
    by (simp_all add: drive_path_def drive_letter_def ascii_string_def windows_plain_def plain_name_def)
  with windows_initialize_platform_correct [OF win_initialize] golden_wf show ?thesis
    by (auto simp: entry_def)
qed

end
