(* ===== verification/Store.thy ===== *)
theory Store
  imports SystemProps OperationProps
begin

text \<open>
  The store with its file system: the coordinator, its channel and the clients (\<open>System\<close>) together with the
  jobs the workers run on the disk. The jobs are the parameter \<open>job\<close>, the maintenance is \<open>sweep\<close>; both
  platforms provide them (\<open>blob_backend\<close>). The calls of one job on the file system are one step, in which
  it ends: jobs that run at the same time have different keys, and a job changes no canonical entry but
  its key's. The log records the jobs in the order in which they end, with their outcomes.
\<close>

section \<open>The jobs of the workers\<close>

text \<open>The closures of \<open>dispatch_if_idle\<close> and \<open>dispatch_maintenance\<close> (\<open>src/engine/scheduler.rs\<close>): the event a job
  sends when it ends. The outer \<open>None\<close> is a job that does not end.\<close>

definition worker_job ::
  "job \<Rightarrow> system_time \<Rightarrow> key \<Rightarrow> operation \<Rightarrow> fs \<Rightarrow> (coordinator_event \<times> bytes list \<times> fs) option" where
  "worker_job job now k operation s =
     (case job now k operation s of
        None \<Rightarrow> None
      | Some (outcome, chunks, s) \<Rightarrow> Some (Completion k outcome, chunks, s))"

definition maintenance_job ::
  "sweep \<Rightarrow> system_time \<Rightarrow> nat option \<Rightarrow> reply \<Rightarrow> fs \<Rightarrow> coordinator_event \<times> fs" where
  "maintenance_job sweep now minimum_age r s =
     (case sweep now minimum_age s of (result, s) \<Rightarrow> (MaintenanceCompletion (Some (r, result)), s))"

section \<open>State and steps\<close>

type_synonym job_log = "(key \<times> operation \<times> operation_outcome) list"

record store =
  engine :: system
  disk :: fs
  jobs_log :: job_log

definition store_new :: "sched \<Rightarrow> fs \<Rightarrow> store" where
  "store_new c s = \<lparr>engine = system_new c, disk = s, jobs_log = []\<rparr>"

text \<open>A step of the engine that ends no job, with calls whose keys are digests, the end of a job, or the end
  of the maintenance.\<close>

definition digests :: "(key \<times> operation) list \<Rightarrow> bool" where
  "digests ops \<longleftrightarrow> list_all (\<lambda>(k, _). length k = 32) ops"

definition job_done :: "system \<Rightarrow> (key \<times> operation) list \<Rightarrow> key \<Rightarrow> operation \<Rightarrow> operation_outcome \<Rightarrow> system" where
  "job_done y rest k operation outcome = y\<lparr>channel := channel y @ [Completion k outcome], running := rest,
     ended := ended y @ [(k, reply_of operation, outcome = None)]\<rparr>"

inductive store_step :: "job \<Rightarrow> sweep \<Rightarrow> iteration_order \<Rightarrow> nat \<Rightarrow> store \<Rightarrow> store \<Rightarrow> bool"
  for job :: job and sweep :: sweep and order :: iteration_order and maximum :: nat where
  engine_moves: "sys_step order maximum (engine z) y \<Longrightarrow> ended y = ended (engine z) \<Longrightarrow>
    prefix (upkeep (engine z)) (upkeep y) \<Longrightarrow> digests (sent y) \<Longrightarrow>
    store_step job sweep order maximum z (z\<lparr>engine := y\<rparr>)"
| worker_ends: "running (engine z) = us @ (k, operation) # vs \<Longrightarrow>
    worker_job job now k operation (disk z) = Some (Completion k outcome, chunks, s) \<Longrightarrow>
    store_step job sweep order maximum z
      (z\<lparr>engine := job_done (engine z) (us @ vs) k operation outcome, disk := s,
         jobs_log := jobs_log z @ [(k, operation, outcome)]\<rparr>)"
| maintenance_ends: "upkeep (engine z) = us @ (age, r) # vs \<Longrightarrow>
    maintenance_job sweep now age r (disk z) = (event, s) \<Longrightarrow>
    store_step job sweep order maximum z
      (z\<lparr>engine := (engine z)\<lparr>channel := channel (engine z) @ [event], upkeep := us @ vs\<rparr>, disk := s\<rparr>)"

inductive_cases store_step_cases: "store_step job sweep order maximum z z'"

inductive store_reachable :: "job \<Rightarrow> sweep \<Rightarrow> iteration_order \<Rightarrow> nat \<Rightarrow> store \<Rightarrow> store \<Rightarrow> bool"
  for job :: job and sweep :: sweep and order :: iteration_order and maximum :: nat and start :: store where
  store_initial: "store_reachable job sweep order maximum start start"
| store_further: "store_reachable job sweep order maximum start z \<Longrightarrow> store_step job sweep order maximum z z' \<Longrightarrow>
    store_reachable job sweep order maximum start z'"

section \<open>Views of the log\<close>

text \<open>The operations whose jobs ended, their results, and the history of those that did not panic.\<close>

definition log_operations :: "job_log \<Rightarrow> (key \<times> operation) list" where
  "log_operations log = map (\<lambda>(k, operation, _). (k, operation)) log"

fun log_result :: "key \<times> operation \<times> operation_outcome \<Rightarrow> (key \<times> operation \<times> blocking_result) list" where
  "log_result (k, operation, outcome) = (case outcome of None \<Rightarrow> [] | Some x \<Rightarrow> [(k, x)])"

fun log_entry :: "key \<times> operation \<times> operation_outcome \<Rightarrow> history" where
  "log_entry (k, operation, outcome) = (case outcome of None \<Rightarrow> [] | Some (_, result) \<Rightarrow> [(k, operation, result)])"

text \<open>The results delivered to clients, and those in the channel.\<close>

fun delivered_result :: "action \<Rightarrow> (key \<times> operation \<times> blocking_result) list" where
  "delivered_result (Delivered k operation result) = [(k, operation, result)]"
| "delivered_result _ = []"

fun completed_result :: "coordinator_event \<Rightarrow> (key \<times> operation \<times> blocking_result) list" where
  "completed_result (Completion k outcome) = (case outcome of None \<Rightarrow> [] | Some x \<Rightarrow> [(k, x)])"
| "completed_result _ = []"

lemma log_operations_simps [simp]:
  "log_operations [] = []" "log_operations (xs @ ys) = log_operations xs @ log_operations ys"
  "log_operations ((k, operation, outcome) # xs) = (k, operation) # log_operations xs"
  by (simp_all add: log_operations_def)

lemma no_completed_results: "view completed_key events = [] \<Longrightarrow> view completed_result events = []"
proof (induction events)
  case (Cons e events)
  then show ?case by (cases e) auto
qed simp

lemma delivered_result_routine: "routine a \<Longrightarrow> delivered_result a = []"
  by (cases a) auto

lemma accounted_results:
  assumes "accounted maximum event s acts s'"
  shows "view delivered_result acts = completed_result event"
proof -
  have "filter (\<lambda>a. \<not> routine a) acts = verdicts event s" using assms by (simp add: accounted_def)
  then show ?thesis
    using view_routine [of delivered_result acts] delivered_result_routine
    by (cases event) (auto split: option.split)
qed

lemma closing_results:
  "view delivered_result (view (drain_action result) q) = []"
  "view delivered_result (view (close_action result) ps) = []"
proof -
  have "view delivered_result (drain_action result e) = []" for e by (cases e) auto
  then show "view delivered_result (view (drain_action result) q) = []" by (induction q) auto
  have "view delivered_result (close_action result e) = []" for e by (cases e) auto
  then show "view delivered_result (view (close_action result) ps) = []" by (induction ps) auto
qed

section \<open>What a step that ends no job does\<close>

text \<open>Jobs are only added, those the coordinator starts; results only move from the channel to the clients.\<close>

definition passes_on :: "system \<Rightarrow> system \<Rightarrow> bool" where
  "passes_on y y' \<longleftrightarrow> (\<exists>acts. out (core y') = out (core y) @ acts \<and> running y' = running y @ view started_job acts
     \<and> view completed_result (channel y) = view delivered_result acts @ view completed_result (channel y'))"

lemma passes_on_silent:
  "out (core y') = out (core y) \<Longrightarrow> running y' = running y \<Longrightarrow>
     view completed_result (channel y') = view completed_result (channel y) \<Longrightarrow> passes_on y y'"
  by (simp add: passes_on_def exI [of _ "[]"])

lemma receive_passes_on:
  assumes "hash_order order" and inv: "system_inv maximum y" and c: "connected y" and r: "receive order maximum y = Some y'"
  shows "passes_on y y'"
proof -
  obtain event rest where ch: "channel y = event # rest"
    using r by (auto simp: receive_def split: list.splits)
  have i: "scheduler_inv maximum (core y)" "system_core y"
    using inv c by (auto simp: system_inv_def live_def)
  have "sound_completion event" using i(2) ch by (simp add: system_core_def)
  then obtain c' where h: "handle_event order maximum event (core y) = Some c'"
    using handle_event_panics [of order maximum event "core y"] by (cases "handle_event order maximum event (core y)") auto
  from hash_order.handle_event_step [OF assms(1) i(1) h] obtain acts where
    a: "accounted maximum event (core y) acts c'" and inv': "scheduler_inv maximum c'" by blast
  let ?y = "handled rest c' acts y"
  note self = only_maintenance_completions [OF accounted_self_events [OF a]]
  have o: "drop (length (out (core y))) (out c') = acts" "out c' = out (core y) @ acts"
    using a by (simp_all add: accounted_def)
  have p: "view completed_result (channel y) = view delivered_result acts @ view completed_result (channel ?y)"
    using ch accounted_results [OF a] no_completed_results [OF self(1)] by (simp add: handled_def)
  show ?thesis
  proof (cases "\<not> continues event (core y) \<and> ready_to_close c'")
    case True
    then have y': "y' = ?y\<lparr>core := close_down (channel ?y) (core ?y), channel := [], connected := False\<rparr>"
      using r ch h o(1) by (simp add: receive_def handled_def Let_def)
    have core: "system_core ?y" by (rule handled_core [OF i(2) ch i(1) a])
    have ready: "ready_to_close (core ?y)" using True by (simp add: handled_def)
    have closes: "list_all is_close (pending (core ?y))"
      using ready inv' closes_only [of "core ?y"]
      by (auto simp: handled_def ready_to_close_def scheduler_inv_def split: list.splits)
    obtain p' result l where d: "close_down (channel ?y) (core ?y) = (core ?y)\<lparr>pool := p', lifecycle := l, pending := [],
        out := out (core ?y) @ view (close_action result) (pending (core ?y)) @ view (drain_action result) (channel ?y)\<rparr>"
      by (rule close_down_effect [OF closes, of "channel ?y"])
    from p no_completed_results [OF ready_to_close_quiet(3) [OF core ready]] o(2) d show ?thesis
      unfolding passes_on_def y'
      by (intro exI [of _ "acts @ view (close_action result) (pending (core ?y)) @ view (drain_action result) (channel ?y)"])
         (simp add: handled_def closing_views closing_results)
  next
    case False
    then have "y' = ?y" using r ch h o(1) by (auto simp: receive_def handled_def Let_def)
    with p o(2) show ?thesis by (auto simp: passes_on_def handled_def)
  qed
qed

lemma engine_passes_on:
  assumes "hash_order order" "system_inv maximum y" "sys_step order maximum y y'" "ended y' = ended y"
  shows "passes_on y y'"
  using assms(3)
proof cases
  case (call events seen c)
  with no_completed_results [OF call_views(1) [OF call(3)]] show ?thesis by (auto intro: passes_on_silent)
next
  case coordinator
  with receive_passes_on [OF assms(1,2)] show ?thesis by blast
next
  case (disconnect result p)
  then show ?thesis by (auto intro: passes_on_silent)
qed (use assms(4) in \<open>auto intro: passes_on_silent\<close>)

section \<open>The invariant of the store\<close>

definition store_inv :: "crc32c_lib \<Rightarrow> store_config \<Rightarrow> (key \<Rightarrow> path) \<Rightarrow> fs \<Rightarrow> store \<Rightarrow> bool" where
  "store_inv C cfg P s0 z \<longleftrightarrow> regular_store P (disk z) \<and> digests (sent (engine z))
     \<and> map_run (store_view C cfg P s0) (view log_entry (jobs_log z)) (store_view C cfg P (disk z))
     \<and> (\<forall>k. of_key k (view started_job (out (core (engine z))))
          = of_key k (log_operations (jobs_log z)) @ of_key k (running (engine z)))
     \<and> (\<forall>k. of_key k (view log_result (jobs_log z))
          = of_key k (view delivered_result (out (core (engine z)))) @ of_key k (view completed_result (channel (engine z))))"

lemma of_key_digest: "digests xs \<Longrightarrow> operation \<in> set (of_key k xs) \<Longrightarrow> length k = 32"
  by (auto simp: in_set_of_key digests_def list_all_iff)

lemma started_subseq: "subseq (of_key k (view started_job acts)) (ops_of k acts)"
proof (induction acts)
  case (Cons a acts)
  then show ?case by (cases a) (auto simp: ops_of_def)
qed (simp add: ops_of_def)

lemma running_sent:
  assumes "system_inv maximum y" "(k, operation) \<in> set (running y)"
    and "of_key k (view started_job (out (core y))) = xs @ of_key k (running y)"
  shows "operation \<in> set (of_key k (sent y))"
proof -
  have "operation \<in> set (of_key k (view started_job (out (core y))))" using assms(2,3) by (simp add: in_set_of_key)
  then have "operation \<in> set (ops_of k (out (core y)))" using started_subseq by (auto elim: list_emb_set)
  moreover have "of_key k (sent y) = ops_of k (out (core y)) @ backlog k (core y)
      @ of_key k (view refused_closed (out (core y))) @ of_key k (view submitted (channel y))"
    using assms(1) by (simp add: system_inv_def system_history_def)
  ultimately show ?thesis by simp
qed

end
