(* ===== verification/StoreProps.thy ===== *)
theory StoreProps
  imports Store
begin

text \<open>
  The store with its file system is linearizable: in every reachable state the disk holds what the map of
  keys to payloads holds after the operations whose jobs ended, one after the other; they are those sent
  for a key in the order of sending, and the results clients receive are the results of that history.
\<close>

section \<open>Every step\<close>

lemma store_step_sends:
  assumes "store_step job sweep order maximum z z'" "digests (sent (engine z))"
  shows "digests (sent (engine z'))"
  using assms(1) by cases (use assms(2) in \<open>auto simp: job_done_def\<close>)

context blob_backend
begin

lemma worker_outcome_ok:
  assumes "worker_job job now k operation s = Some (Completion k outcome, chunks, s')"
  shows "outcome_ok operation outcome"
  using assms job_typed [of now k operation s]
  by (auto simp: worker_job_def outcome_ok_def split: option.splits)

text \<open>The engine of the store moves as it does alone.\<close>

lemma store_step_engine:
  assumes "store_step job sweep order maximum z z'"
  shows "sys_step order maximum (engine z) (engine z')"
  using assms
proof cases
  case (worker_ends us k operation vs now outcome chunks s)
  from sys_step.job_ends [OF worker_ends(2) worker_outcome_ok [OF worker_ends(3)]] show ?thesis
    by (simp add: worker_ends(1) job_done_def)
next
  case (maintenance_ends us age r vs now event s)
  from maintenance_ends(3) obtain result where "event = MaintenanceCompletion (Some (r, result))"
    by (auto simp: maintenance_job_def split: prod.splits)
  with sys_step.upkeep_ends [OF maintenance_ends(2)] show ?thesis by (simp add: maintenance_ends(1))
qed simp

lemma store_reachable_engine:
  "store_reachable job sweep order maximum (store_new start s0) z \<Longrightarrow> reachable order maximum start (engine z)"
  by (induction rule: store_reachable.induct) (auto simp: store_new_def intro: initial further store_step_engine)

lemma worker_inv:
  assumes inv: "store_inv C cfg P s0 z" and sys: "system_inv maximum (engine z)"
    and r: "running (engine z) = us @ (k, operation) # vs"
    and j: "worker_job job now k operation (disk z) = Some (Completion k outcome, chunks, s)"
  shows "store_inv C cfg P s0 (z\<lparr>engine := job_done (engine z) (us @ vs) k operation outcome, disk := s,
     jobs_log := jobs_log z @ [(k, operation, outcome)]\<rparr>)" (is "store_inv _ _ _ _ ?z")
proof -
  note once = running_once [OF sys r]
  have job: "job now k operation (disk z) = Some (outcome, chunks, s)"
    using j by (auto simp: worker_job_def split: option.splits)
  have log: "of_key k' (view started_job (out (core (engine z))))
      = of_key k' (log_operations (jobs_log z)) @ of_key k' (running (engine z))" for k'
    using inv by (simp add: store_inv_def)
  have len: "length k = 32"
  proof (rule of_key_digest)
    show "digests (sent (engine z))" using inv by (simp add: store_inv_def)
    show "operation \<in> set (of_key k (sent (engine z)))" using running_sent [OF sys _ log] r by simp
  qed
  have reg: "regular_store P (disk z)"
    and hist: "map_run (store_view C cfg P s0) (view log_entry (jobs_log z)) (store_view C cfg P (disk z))"
    using inv by (simp_all add: store_inv_def)
  have "map_run (store_view C cfg P s0) (view log_entry (jobs_log z) @ log_entry (k, operation, outcome))
      (store_view C cfg P s) \<and> regular_store P s"
  proof (cases outcome)
    case None
    with job_panics [OF job [unfolded None]] hist reg show ?thesis by simp
  next
    case (Some x)
    obtain operation' result where "x = (operation', result)" by (cases x)
    with job_map_run [OF job [unfolded Some \<open>x = _\<close>] len reg] map_run_append [OF hist] Some show ?thesis by simp
  qed
  moreover have "of_key k' (view started_job (out (core (engine ?z))))
      = of_key k' (log_operations (jobs_log ?z)) @ of_key k' (running (engine ?z))" for k'
    using log [of k'] r once by (cases "k' = k") (simp_all add: job_done_def)
  moreover have "of_key k' (view log_result (jobs_log ?z)) = of_key k' (view delivered_result (out (core (engine ?z))))
      @ of_key k' (view completed_result (channel (engine ?z)))" for k'
    using inv by (simp add: store_inv_def job_done_def)
  ultimately show ?thesis using inv by (simp add: store_inv_def job_done_def)
qed

lemma store_step_inv:
  assumes "hash_order order" "store_step job sweep order maximum z z'"
    and "store_inv C cfg P s0 z" "system_inv maximum (engine z)"
  shows "store_inv C cfg P s0 z'"
  using assms(2)
proof cases
  case (engine_moves y)
  from engine_passes_on [OF assms(1,4) engine_moves(2,3)] obtain acts where
    "out (core y) = out (core (engine z)) @ acts" "running y = running (engine z) @ view started_job acts"
    "view completed_result (channel (engine z)) = view delivered_result acts @ view completed_result (channel y)"
    by (auto simp: passes_on_def)
  with assms(3) engine_moves(1,5) show ?thesis by (simp add: store_inv_def)
next
  case (worker_ends us k operation vs now outcome chunks s)
  show ?thesis unfolding worker_ends(1) by (rule worker_inv [OF assms(3,4) worker_ends(2,3)])
next
  case (maintenance_ends us age r vs now event s)
  from maintenance_ends(3) obtain result where e: "event = MaintenanceCompletion (Some (r, result))"
    "sweep now age (disk z) = (result, s)"
    by (auto simp: maintenance_job_def split: prod.splits)
  from assms(3) sweep_view [OF e(2)] show ?thesis by (simp add: maintenance_ends(1) store_inv_def e(1))
qed

lemma store_reachable_inv:
  assumes "hash_order order" "regular_store P s0"
    and "store_reachable job sweep order maximum (store_new (started maximum spawns panics) s0) z"
  shows "store_inv C cfg P s0 z"
  using assms(3)
proof (induction rule: store_reachable.induct)
  case store_initial
  show ?case
    using assms(2) by (simp add: store_inv_def store_new_def system_new_def digests_def started_def sched_new_def)
next
  case (store_further z z')
  from store_step_inv [OF assms(1) store_further.hyps(2) store_further.IH]
    reachable_inv [OF assms(1) store_reachable_engine [OF store_further.hyps(1)]] show ?case by blast
qed

lemma linearization:
  assumes "hash_order order" "regular_store P s0"
    and z: "store_reachable job sweep order maximum (store_new (started maximum spawns panics) s0) z"
  shows "map_run (store_view C cfg P s0) (view log_entry (jobs_log z)) (store_view C cfg P (disk z))"
    "of_key k (view started_job (out (core (engine z))))
       = of_key k (log_operations (jobs_log z)) @ of_key k (running (engine z))"
    "subseq (of_key k (log_operations (jobs_log z)) @ of_key k (running (engine z))) (of_key k (sent (engine z)))"
    "of_key k (view log_result (jobs_log z)) = of_key k (view delivered_result (out (core (engine z))))
       @ of_key k (view completed_result (channel (engine z)))"
proof -
  have inv: "store_inv C cfg P s0 z" by (rule store_reachable_inv [OF assms])
  then show "map_run (store_view C cfg P s0) (view log_entry (jobs_log z)) (store_view C cfg P (disk z))"
    "of_key k (view log_result (jobs_log z)) = of_key k (view delivered_result (out (core (engine z))))
       @ of_key k (view completed_result (channel (engine z)))"
    by (simp_all add: store_inv_def)
  from inv show s: "of_key k (view started_job (out (core (engine z))))
       = of_key k (log_operations (jobs_log z)) @ of_key k (running (engine z))" by (simp add: store_inv_def)
  have "of_key k (sent (engine z)) = ops_of k (out (core (engine z))) @ backlog k (core (engine z))
      @ of_key k (view refused_closed (out (core (engine z)))) @ of_key k (view submitted (channel (engine z)))"
    using reachable_inv [OF assms(1) store_reachable_engine [OF z]] by (simp add: system_inv_def system_history_def)
  with started_subseq [of k "out (core (engine z))"] show "subseq (of_key k (log_operations (jobs_log z))
      @ of_key k (running (engine z))) (of_key k (sent (engine z)))"
    unfolding s by (simp add: subseq_rev_drop_many)
qed

end

end
