(* ===== verification/Sequential.thy ===== *)
theory Sequential
  imports StoreProps
begin

text \<open>
  A single client: on a store at rest one call runs through the coordinator and a worker, its result is
  delivered, and the store is at rest again, with the disk the job left.
\<close>

section \<open>A store at rest\<close>

text \<open>Open, nothing queued, running or in the channel; threads can be started and none panics.\<close>

definition resting_sched :: "sched \<Rightarrow> bool" where
  "resting_sched c \<longleftrightarrow> queues c = [] \<and> active c = [] \<and> pending c = [] \<and> \<not> maintenance_active c
     \<and> lifecycle c = Open \<and> wp_sender (pool c) \<and> wp_spawns (pool c) = [] \<and> wp_panics (pool c) = []"

definition at_rest :: "store \<Rightarrow> bool" where
  "at_rest z \<longleftrightarrow> resting_sched (core (engine z)) \<and> connected (engine z) \<and> handles (engine z)
     \<and> channel (engine z) = [] \<and> running (engine z) = [] \<and> upkeep (engine z) = [] \<and> digests (sent (engine z))"

lemma prepare_resting:
  assumes "wp_spawns p = []"
  shows "\<exists>p'. prepare n p = (Ok (), p') \<and> wp_spawns p' = [] \<and> wp_sender p' = wp_sender p \<and> wp_panics p' = wp_panics p"
  using assms
proof (induction n p rule: prepare.induct)
  case (1 n p)
  show ?case
  proof (cases "wp_handles p < min n (wp_capacity p)")
    case True
    with 1 show ?thesis by (subst prepare.simps) auto
  qed (use 1 in \<open>simp add: prepare.simps\<close>)
qed

lemma dispatch_nothing:
  assumes "hash_order order" "\<And>k. queue_of (queues c) k = []"
  shows "\<exists>n. dispatch_available order maximum c = c\<lparr>iterations := n\<rparr>"
proof -
  have "find_dispatchable order c = None"
    using assms(2) by (auto simp: find_dispatchable_def find_None_iff)
  then show ?thesis by (auto simp: dispatch_available.simps intro: exI [of _ "iterations c"])
qed

text \<open>The coordinator takes the operation and starts its job.\<close>

lemma submission_handled:
  assumes "hash_order order" "resting_sched c" "0 < maximum"
  obtains c' where "handle_event order maximum (Submission k operation) c = Some c'"
    "queues c' = [(k, [])]" "active c' = [k]" "pending c' = []" "\<not> maintenance_active c'" "lifecycle c' = Open"
    "wp_sender (pool c')" "wp_spawns (pool c') = []" "wp_panics (pool c') = []" "out c' = out c @ [Started k operation]"
proof -
  from assms(2) obtain p where p: "prepare 1 (pool c) = (Ok (), p)" "wp_spawns p = []" "wp_sender p" "wp_panics p = []"
    using prepare_resting [of "pool c" 1] by (auto simp: resting_sched_def)
  let ?c1 = "c\<lparr>queues := [(k, [])], pool := p, active := [k], out := out c @ [Started k operation]\<rparr>"
  have "dispatch_if_idle maximum k (c\<lparr>queues := push_queue k operation (queues c)\<rparr>) = ?c1"
    using assms(2,3) p by (simp add: dispatch_if_idle_def resting_sched_def push_queue_def queue_of_def Let_def
        execute_ok_def emit_def)
  moreover obtain n where "dispatch_available order maximum ?c1 = ?c1\<lparr>iterations := n\<rparr>"
    using dispatch_nothing [OF assms(1), of ?c1 maximum] by (auto simp: queue_of_def)
  ultimately have "handle_event order maximum (Submission k operation) c = Some (?c1\<lparr>iterations := n\<rparr>)"
    using assms(2) by (simp add: handle_event_def resting_sched_def)
  with p assms(2) that show thesis by (simp add: resting_sched_def)
qed

text \<open>The completion clears the key and delivers the result.\<close>

lemma completion_handled:
  assumes "hash_order order" "queues c = [(k, [])]" "active c = [k]" "pending c = []" "\<not> maintenance_active c"
    "lifecycle c = Open" "wp_sender (pool c)" "wp_spawns (pool c) = []" "wp_panics (pool c) = []" "result_matches operation result"
  obtains c' where "handle_event order maximum (Completion k (Some (operation, result))) c = Some c'"
    "resting_sched c'" "out c' = out c @ [Delivered k operation result]"
proof -
  let ?c1 = "c\<lparr>active := []\<rparr>"
  have "dispatch_if_idle maximum k ?c1 = ?c1"
    using assms(2) by (simp add: dispatch_if_idle_def queue_of_def)
  moreover obtain n where "dispatch_available order maximum ?c1 = ?c1\<lparr>iterations := n\<rparr>"
    using dispatch_nothing [OF assms(1), of ?c1 maximum] assms(2) by (auto simp: queue_of_def)
  ultimately have "handle_event order maximum (Completion k (Some (operation, result))) c
      = Some (advance_pending_if_ready maximum
          (emit (Delivered k operation result) (?c1\<lparr>iterations := n, queues := []\<rparr>)))"
    using assms(2-4,10)
    by (auto simp: handle_event_def Let_def deliver_case drop_if_empty_def remove_queue_def split: option.split)
  then show thesis
    by (rule that) (use assms in \<open>simp_all add: advance_pending_if_ready.simps resting_sched_def\<close>)
qed

section \<open>One call\<close>

text \<open>The operation of a call, once the coordinator has started its job.\<close>

lemma call_started:
  assumes order: "hash_order order" and rest: "at_rest z" and "0 < maximum" "length k = 32"
  obtains c where "store_reachable job sweep order maximum z
      (z\<lparr>engine := (engine z)\<lparr>channel := [], sent := sent (engine z) @ [(k, operation)], core := c, running := [(k, operation)]\<rparr>\<rparr>)"
    "digests (sent (engine z) @ [(k, operation)])"
    "queues c = [(k, [])]" "active c = [k]" "pending c = []" "\<not> maintenance_active c" "lifecycle c = Open"
    "wp_sender (pool c)" "wp_spawns (pool c) = []" "wp_panics (pool c) = []"
    "out c = out (core (engine z)) @ [Started k operation]"
proof -
  let ?y = "engine z"
  note r = rest [unfolded at_rest_def]
  have events: "call_events Open (connected ?y) (lifecycle (core ?y)) (Operate k operation) = [Submission k operation]"
    using r by (simp add: call_events_def submit_operation_def resting_sched_def)
  let ?y1 = "?y\<lparr>channel := [Submission k operation], sent := sent ?y @ [(k, operation)]\<rparr>"
  have s1: "sys_step order maximum ?y ?y1"
    using sys_step.call [OF _ refl, of ?y order maximum Open "Operate k operation"] r events by simp
  obtain c where c: "handle_event order maximum (Submission k operation) (core ?y) = Some c"
    "queues c = [(k, [])]" "active c = [k]" "pending c = []" "\<not> maintenance_active c" "lifecycle c = Open"
    "wp_sender (pool c)" "wp_spawns (pool c) = []" "wp_panics (pool c) = []" "out c = out (core ?y) @ [Started k operation]"
    using submission_handled [OF order _ assms(3)] r by metis
  let ?y2 = "?y\<lparr>channel := [], sent := sent ?y @ [(k, operation)], core := c, running := [(k, operation)]\<rparr>"
  have s2: "sys_step order maximum ?y1 ?y2"
    by (rule sys_step.coordinator) (use r c in \<open>simp_all add: receive_def Let_def ready_to_close_def\<close>)
  have d: "digests (sent ?y1)" using r assms(4) by (simp add: digests_def)
  have t1: "store_step job sweep order maximum z (z\<lparr>engine := ?y1\<rparr>)"
    by (rule store_step.engine_moves [OF s1 _ _ d]) simp_all
  have t2: "store_step job sweep order maximum (z\<lparr>engine := ?y1\<rparr>) (z\<lparr>engine := ?y2\<rparr>)"
    using store_step.engine_moves [of order maximum "z\<lparr>engine := ?y1\<rparr>" ?y2 job sweep] s2 d by simp
  show thesis by (rule that [OF store_further [OF store_further [OF store_initial t1] t2]]) (use c d in simp_all)
qed

context blob_backend
begin

lemma call_served:
  assumes order: "hash_order order" and rest: "at_rest z" and "0 < maximum" "length k = 32"
    and j: "job now k operation (disk z) = Some (Some (operation', result), chunks, s)"
  shows "\<exists>z'. store_reachable job sweep order maximum z z' \<and> at_rest z' \<and> disk z' = s
    \<and> out (core (engine z')) = out (core (engine z)) @ [Started k operation, Delivered k operation' result]
    \<and> sent (engine z') = sent (engine z) @ [(k, operation)]
    \<and> jobs_log z' = jobs_log z @ [(k, operation, Some (operation', result))]"
proof -
  note r = rest [unfolded at_rest_def]
  note typed = job_typed [OF j]
  obtain c where t: "store_reachable job sweep order maximum z
      (z\<lparr>engine := (engine z)\<lparr>channel := [], sent := sent (engine z) @ [(k, operation)], core := c, running := [(k, operation)]\<rparr>\<rparr>)"
    and d: "digests (sent (engine z) @ [(k, operation)])" and c:
    "queues c = [(k, [])]" "active c = [k]" "pending c = []" "\<not> maintenance_active c" "lifecycle c = Open"
    "wp_sender (pool c)" "wp_spawns (pool c) = []" "wp_panics (pool c) = []"
    "out c = out (core (engine z)) @ [Started k operation]"
    by (rule call_started [OF assms(1-4)])
  let ?y2 = "(engine z)\<lparr>channel := [], sent := sent (engine z) @ [(k, operation)], core := c, running := [(k, operation)]\<rparr>"
  let ?y3 = "job_done ?y2 [] k operation (Some (operation', result))"
  obtain c4 where c4: "handle_event order maximum (Completion k (Some (operation', result))) c = Some c4"
    "resting_sched c4" "out c4 = out c @ [Delivered k operation' result]"
    using completion_handled [OF order c(1-8)] typed by metis
  let ?y4 = "?y3\<lparr>core := c4, channel := []\<rparr>"
  have s4: "sys_step order maximum ?y3 ?y4"
    by (rule sys_step.coordinator)
       (use r c4 in \<open>simp_all add: job_done_def receive_def Let_def ready_to_close_def resting_sched_def\<close>)
  let ?z3 = "z\<lparr>engine := ?y3, disk := s, jobs_log := jobs_log z @ [(k, operation, Some (operation', result))]\<rparr>"
  have t3: "store_step job sweep order maximum (z\<lparr>engine := ?y2\<rparr>) ?z3"
    using store_step.worker_ends [of "z\<lparr>engine := ?y2\<rparr>" "[]" k operation "[]" job now _ chunks s] j
    by (simp add: worker_job_def)
  have t4: "store_step job sweep order maximum ?z3 (?z3\<lparr>engine := ?y4\<rparr>)"
    using store_step.engine_moves [of order maximum ?z3 ?y4 job sweep] s4 d by (simp add: job_done_def)
  have "store_reachable job sweep order maximum z (?z3\<lparr>engine := ?y4\<rparr>)"
    by (rule store_further [OF store_further [OF t t3] t4])
  moreover have "at_rest (?z3\<lparr>engine := ?y4\<rparr>)"
    using r c4 d by (simp add: at_rest_def job_done_def)
  ultimately show ?thesis
    using c(9) c4(3) by (intro exI [of _ "?z3\<lparr>engine := ?y4\<rparr>"]) (simp add: job_done_def)
qed

end

section \<open>Closing\<close>

text \<open>On a store at rest the close request shuts the pool down and is answered at once.\<close>

definition stopped_normally :: "store \<Rightarrow> bool" where
  "stopped_normally z \<longleftrightarrow> lifecycle (core (engine z)) = Closed \<and> \<not> connected (engine z) \<and> channel (engine z) = []
     \<and> running (engine z) = [] \<and> upkeep (engine z) = []"

lemma close_served:
  assumes "at_rest z"
  shows "\<exists>z'. store_reachable job sweep order maximum z z' \<and> stopped_normally z' \<and> disk z' = disk z
    \<and> out (core (engine z')) = out (core (engine z)) @ [Replied r (UnitReply (Ok ()))]"
proof -
  let ?y = "engine z"
  let ?c = "core ?y"
  note rest = assms [unfolded at_rest_def resting_sched_def]
  have events: "call_events Open (connected ?y) (lifecycle ?c) (CloseStore r) = [Close r]"
    using rest by (simp add: call_events_def engine_close_def)
  let ?y1 = "?y\<lparr>channel := [Close r]\<rparr>"
  have s1: "sys_step order maximum ?y ?y1"
    using sys_step.call [OF _ refl, of ?y order maximum Open "CloseStore r"] rest events by simp
  let ?c2 = "?c\<lparr>lifecycle := Closing, pending := [PendingClose r]\<rparr>"
  have c2: "handle_event order maximum (Close r) ?c = Some ?c2"
    using rest by (simp add: handle_event_def advance_pending_if_ready.simps)
  let ?y2 = "?y1\<lparr>core := close_down [] ?c2, channel := [], connected := False\<rparr>"
  have s2: "sys_step order maximum ?y1 ?y2"
    by (rule sys_step.coordinator)
       (use rest c2 in \<open>simp_all add: receive_def Let_def ready_to_close_def continues_def queues_empty_def\<close>)
  have down: "lifecycle (close_down [] ?c2) = Closed" "out (close_down [] ?c2) = out ?c @ [Replied r (UnitReply (Ok ()))]"
    using rest by (simp_all add: close_down_def pool_shutdown_def Let_def)
  have t1: "store_step job sweep order maximum z (z\<lparr>engine := ?y1\<rparr>)"
    by (rule store_step.engine_moves [OF s1]) (use rest in simp_all)
  have t2: "store_step job sweep order maximum (z\<lparr>engine := ?y1\<rparr>) (z\<lparr>engine := ?y2\<rparr>)"
    using store_step.engine_moves [of order maximum "z\<lparr>engine := ?y1\<rparr>" ?y2 job sweep] s2 rest by simp
  have "store_reachable job sweep order maximum z (z\<lparr>engine := ?y2\<rparr>)"
    by (rule store_further [OF store_further [OF store_initial t1] t2])
  with down rest show ?thesis
    by (intro exI [of _ "z\<lparr>engine := ?y2\<rparr>"]) (simp add: stopped_normally_def)
qed

section \<open>Flush and cleanup\<close>

text \<open>On a store at rest a flush is answered at once, and a cleanup runs the maintenance of the platform.\<close>

lemma flush_served:
  assumes "at_rest z"
  shows "\<exists>z'. store_reachable job sweep order maximum z z' \<and> at_rest z' \<and> disk z' = disk z \<and> jobs_log z' = jobs_log z
    \<and> out (core (engine z')) = out (core (engine z)) @ [Replied r (UnitReply (Ok ()))]"
proof -
  let ?y = "engine z"
  let ?c = "core ?y"
  note rest = assms [unfolded at_rest_def resting_sched_def]
  have events: "call_events Open (connected ?y) (lifecycle ?c) (FlushStore r) = [Flush r]"
    using rest by (simp add: call_events_def engine_flush_def)
  let ?y1 = "?y\<lparr>channel := [Flush r]\<rparr>"
  have s1: "sys_step order maximum ?y ?y1"
    using sys_step.call [OF _ refl, of ?y order maximum Open "FlushStore r"] rest events by simp
  let ?c2 = "emit (Replied r (UnitReply (Ok ()))) ?c"
  have c2: "handle_event order maximum (Flush r) ?c = Some ?c2"
    using rest by (simp add: handle_event_def advance_pending_if_ready.simps idle_def queues_empty_def emit_def)
  let ?y2 = "?y\<lparr>core := ?c2\<rparr>"
  have s2: "sys_step order maximum ?y1 ?y2"
    by (rule sys_step.coordinator) (use rest c2 in \<open>simp_all add: receive_def Let_def ready_to_close_def\<close>)
  have t1: "store_step job sweep order maximum z (z\<lparr>engine := ?y1\<rparr>)"
    by (rule store_step.engine_moves [OF s1]) (use rest in simp_all)
  have t2: "store_step job sweep order maximum (z\<lparr>engine := ?y1\<rparr>) (z\<lparr>engine := ?y2\<rparr>)"
    using store_step.engine_moves [of order maximum "z\<lparr>engine := ?y1\<rparr>" ?y2 job sweep] s2 rest by simp
  have "store_reachable job sweep order maximum z (z\<lparr>engine := ?y2\<rparr>)"
    by (rule store_further [OF store_further [OF store_initial t1] t2])
  with rest show ?thesis
    by (intro exI [of _ "z\<lparr>engine := ?y2\<rparr>"]) (simp add: at_rest_def resting_sched_def)
qed

text \<open>The coordinator starts the maintenance, and takes its completion.\<close>

lemma maintenance_handled:
  assumes "resting_sched c"
  obtains c' where "handle_event order maximum (Maintenance age r) c = Some c'"
    "queues c' = []" "active c' = []" "pending c' = []" "maintenance_active c'" "lifecycle c' = Open"
    "wp_sender (pool c')" "wp_spawns (pool c') = []" "wp_panics (pool c') = []" "out c' = out c @ [StartedMaintenance age r]"
proof -
  from assms obtain p where p: "prepare 1 (pool c) = (Ok (), p)" "wp_spawns p = []" "wp_sender p" "wp_panics p = []"
    using prepare_resting [of "pool c" 1] by (auto simp: resting_sched_def)
  have "handle_event order maximum (Maintenance age r) c
      = Some (emit (StartedMaintenance age r) (c\<lparr>pending := [], maintenance_active := True, pool := p\<rparr>))"
    using assms p by (simp add: handle_event_def resting_sched_def advance_pending_if_ready.simps idle_def
        queues_empty_def dispatch_maintenance_def execute_ok_def Let_def)
  then show thesis by (rule that) (use assms p in \<open>simp_all add: resting_sched_def\<close>)
qed

lemma cleanup_served:
  assumes "at_rest z" "0 < age" "sweep now (Some age) (disk z) = (result, s)"
  shows "\<exists>z'. store_reachable job sweep order maximum z z' \<and> at_rest z' \<and> disk z' = s \<and> jobs_log z' = jobs_log z
    \<and> out (core (engine z')) = out (core (engine z)) @ [StartedMaintenance (Some age) r, Replied r (CleanupReply result)]"
proof -
  let ?y = "engine z"
  note rest = assms(1) [unfolded at_rest_def]
  have events: "call_events Open (connected ?y) (lifecycle (core ?y)) (CleanUp age r) = [Maintenance (Some age) r]"
    using rest assms(2) by (simp add: call_events_def cleanup_stale_temporary_files_def resting_sched_def)
  let ?y1 = "?y\<lparr>channel := [Maintenance (Some age) r]\<rparr>"
  have s1: "sys_step order maximum ?y ?y1"
    using sys_step.call [OF _ refl, of ?y order maximum Open "CleanUp age r"] rest events by simp
  obtain c2 where c2: "handle_event order maximum (Maintenance (Some age) r) (core ?y) = Some c2"
    "queues c2 = []" "active c2 = []" "pending c2 = []" "maintenance_active c2" "lifecycle c2 = Open"
    "wp_sender (pool c2)" "wp_spawns (pool c2) = []" "wp_panics (pool c2) = []"
    "out c2 = out (core ?y) @ [StartedMaintenance (Some age) r]"
    using maintenance_handled rest by metis
  let ?y2 = "?y1\<lparr>core := c2, channel := [], upkeep := [(Some age, r)]\<rparr>"
  have s2: "sys_step order maximum ?y1 ?y2"
    by (rule sys_step.coordinator) (use rest c2 in \<open>simp_all add: receive_def Let_def ready_to_close_def\<close>)
  let ?y3 = "?y2\<lparr>channel := [MaintenanceCompletion (Some (r, result))], upkeep := []\<rparr>"
  let ?c4 = "emit (Replied r (CleanupReply result)) (c2\<lparr>maintenance_active := False\<rparr>)"
  have c4: "handle_event order maximum (MaintenanceCompletion (Some (r, result))) c2 = Some ?c4"
    using c2 by (simp add: handle_event_def advance_pending_if_ready.simps)
  let ?y4 = "?y3\<lparr>core := ?c4, channel := []\<rparr>"
  have s4: "sys_step order maximum ?y3 ?y4"
    by (rule sys_step.coordinator) (use rest c2 c4 in \<open>simp_all add: receive_def Let_def ready_to_close_def\<close>)
  have t1: "store_step job sweep order maximum z (z\<lparr>engine := ?y1\<rparr>)"
    by (rule store_step.engine_moves [OF s1]) (use rest in simp_all)
  have t2: "store_step job sweep order maximum (z\<lparr>engine := ?y1\<rparr>) (z\<lparr>engine := ?y2\<rparr>)"
    using store_step.engine_moves [of order maximum "z\<lparr>engine := ?y1\<rparr>" ?y2 job sweep] s2 rest by simp
  have t3: "store_step job sweep order maximum (z\<lparr>engine := ?y2\<rparr>) (z\<lparr>engine := ?y3, disk := s\<rparr>)"
    using store_step.maintenance_ends [of "z\<lparr>engine := ?y2\<rparr>" "[]" "Some age" r "[]" sweep now] assms(3) rest
    by (simp add: maintenance_job_def)
  let ?z3 = "z\<lparr>engine := ?y3, disk := s\<rparr>"
  have t4: "store_step job sweep order maximum ?z3 (?z3\<lparr>engine := ?y4\<rparr>)"
    by (rule store_step.engine_moves) (use s4 rest in simp_all)
  have "store_reachable job sweep order maximum z (?z3\<lparr>engine := ?y4\<rparr>)"
    by (rule store_further [OF store_further [OF store_further [OF store_further [OF store_initial t1] t2] t3] t4])
  with rest c2 show ?thesis
    by (intro exI [of _ "?z3\<lparr>engine := ?y4\<rparr>"]) (simp add: at_rest_def resting_sched_def)
qed

lemma store_reachable_trans:
  "store_reachable job sweep order maximum z' z'' \<Longrightarrow> store_reachable job sweep order maximum z z' \<Longrightarrow>
     store_reachable job sweep order maximum z z''"
  by (induction rule: store_reachable.induct) (auto intro: store_further)

lemma new_at_rest: "at_rest (store_new (started maximum [] []) s)"
  by (simp add: at_rest_def store_new_def system_new_def resting_sched_def started_def sched_new_def
      worker_pool_new_def digests_def)

end
