(* ===== verification/WinOperations.thy ===== *)
theory WinOperations
  imports OperationProps WinCleanup WinQuarantine
begin

text \<open>
  The operations of a worker on Windows: \<open>run_owned_operation\<close> (\<open>src/engine/operation.rs\<close>) with the
  \<open>cfg(windows)\<close> functions behind it, on the canonical file the worker computes. They satisfy the contract
  \<open>blob_backend\<close> too, so that the store on Windows refines the same map. The time of a job is the clock its
  clear reads.
\<close>

section \<open>Running an operation\<close>

definition windows_run_owned_operation ::
  "crc32c_lib \<Rightarrow> 'h windows_lib \<Rightarrow> system_time \<Rightarrow> store_config \<Rightarrow> path \<Rightarrow> operation \<Rightarrow> fs
     \<Rightarrow> ((operation \<times> blocking_result) option \<times> bytes list \<times> fs) option" where
  "windows_run_owned_operation C W now cfg p operation s =
     (case operation of
        LoadOp sender \<Rightarrow>
          (case load_blob C cfg p s of (result, s) \<Rightarrow>
             Some (Some (LoadOp sender, LoadResult result), [], s))
      | LoadStreamOp channels sender \<Rightarrow>
          (case channels of
             None \<Rightarrow> Some (None, [], s)
           | Some (accepts, acknowledged) \<Rightarrow>
               (case load_blob_into_sender C cfg p accepts acknowledged s of (result, sent, s) \<Rightarrow>
                  Some (Some (LoadStreamOp None sender, LoadStreamResult result), sent, s)))
      | SaveOp payload sender \<Rightarrow>
          (case windows_save_blob C W cfg p payload s of
             None \<Rightarrow> None
           | Some (result, s) \<Rightarrow> Some (Some (SaveOp payload sender, SaveResult result), [], s))
      | SaveStreamOp declared_len chunks sender \<Rightarrow>
          (case windows_save_blob_from_receiver C W cfg p declared_len chunks s of
             None \<Rightarrow> None
           | Some (result, chunks, s) \<Rightarrow>
               Some (Some (SaveStreamOp declared_len chunks sender, SaveStreamResult result), [], s))
      | ClearOp sender \<Rightarrow>
          (case windows_clear_blob W now cfg p s of
             None \<Rightarrow> None
           | Some (result, s) \<Rightarrow> Some (Some (ClearOp sender, ClearResult result), [], s))
      | InspectOp sender \<Rightarrow>
          (case inspect_blob cfg p s of (result, s) \<Rightarrow>
             Some (Some (InspectOp sender, InspectResult result), [], s))
      | QuarantineOp sender \<Rightarrow>
          (case windows_quarantine_blob W cfg p s of
             None \<Rightarrow> None
           | Some (result, s) \<Rightarrow> Some (Some (QuarantineOp sender, QuarantineResult result), [], s)))"

text \<open>The canonical file of a digest, as the worker computes it.\<close>

definition windows_operation_path :: "blake3_lib \<Rightarrow> store_config \<Rightarrow> key \<Rightarrow> path" where
  "windows_operation_path B cfg h = windows_join (cfg_namespace cfg) (blob_file B (cfg_format cfg) h)"

definition windows_job :: "crc32c_lib \<Rightarrow> 'h windows_lib \<Rightarrow> blake3_lib \<Rightarrow> store_config \<Rightarrow> job" where
  "windows_job C W B cfg now h operation s =
     windows_run_owned_operation C W now cfg (windows_operation_path B cfg h) operation s"

definition windows_sweep :: "'h windows_lib \<Rightarrow> store_config \<Rightarrow> sweep" where
  "windows_sweep W cfg now minimum_age s =
     (case minimum_age of
        None \<Rightarrow> (Ok cleanup_report_default, s)
      | Some age \<Rightarrow> windows_cleanup_stale_files W now cfg age s)"

lemma windows_run_matches:
  "windows_run_owned_operation C W now cfg p operation s = Some (Some (operation', result), sent, s') \<Longrightarrow>
     result_matches operation' result \<and> reply_of operation' = reply_of operation \<and> result_matches operation result"
  by (cases operation)
     (auto simp: windows_run_owned_operation_def split: prod.splits option.splits)

text \<open>What a job that returned has done, operation by operation.\<close>

lemma windows_job_cases [consumes 1]:
  assumes "windows_job C W B cfg now h operation s = Some (outcome, chunks, s')"
  obtains (save) payload reply r where "operation = SaveOp payload reply" "outcome = Some (operation, SaveResult r)"
      "windows_save_blob C W cfg (windows_operation_path B cfg h) payload s = Some (r, s')"
    | (save_stream) declared ms reply r left where "operation = SaveStreamOp declared ms reply"
      "outcome = Some (SaveStreamOp declared left reply, SaveStreamResult r)"
      "windows_save_blob_from_receiver C W cfg (windows_operation_path B cfg h) declared ms s = Some (r, left, s')"
    | (load) reply r where "operation = LoadOp reply" "outcome = Some (operation, LoadResult r)"
      "load_blob C cfg (windows_operation_path B cfg h) s = (r, s')"
    | (load_stream) accepts acknowledged reply r where "operation = LoadStreamOp (Some (accepts, acknowledged)) reply"
      "outcome = Some (LoadStreamOp None reply, LoadStreamResult r)"
      "load_blob_into_sender C cfg (windows_operation_path B cfg h) accepts acknowledged s = (r, chunks, s')"
    | (taken) reply where "operation = LoadStreamOp None reply" "outcome = None" "s' = s"
    | (clear) reply r where "operation = ClearOp reply" "outcome = Some (operation, ClearResult r)"
      "windows_clear_blob W now cfg (windows_operation_path B cfg h) s = Some (r, s')"
    | (inspect) reply r where "operation = InspectOp reply" "outcome = Some (operation, InspectResult r)"
      "inspect_blob cfg (windows_operation_path B cfg h) s = (r, s')"
    | (quarantine) reply r where "operation = QuarantineOp reply" "outcome = Some (operation, QuarantineResult r)"
      "windows_quarantine_blob W cfg (windows_operation_path B cfg h) s = Some (r, s')"
  using assms
  by (cases operation) (auto simp: windows_job_def windows_run_owned_operation_def split: prod.splits option.splits)

section \<open>One operation\<close>

lemma retimed_stored: "retimed a b \<Longrightarrow> stored_entry C cfg b = stored_entry C cfg a \<and> file_or_none b"
  by (auto simp: retimed_def stored_entry_def file_or_none_def)

locale windows_store = blake3_api B + windows_api W opened + entry_store C cfg "windows_operation_path B cfg"
  for B :: blake3_lib and W :: "'h windows_lib" and opened :: "'h \<Rightarrow> path" and C :: crc32c_lib and cfg :: store_config +
  assumes drive: "drive_config cfg"
begin

abbreviation "path_of \<equiv> windows_operation_path B cfg"

lemma path_of_blob: "path_of h = windows_blob_path cfg (blake3_to_hex B h)"
  by (simp add: windows_operation_path_def windows_blob_path_def blob_file_def)

lemma path_of_observable: "length h = 32 \<Longrightarrow> windows_observable cfg (path_of h)"
  unfolding path_of_blob by (rule store_paths(3) [OF drive to_hex_shape])

lemma plain: "length h = 32 \<Longrightarrow> windows_plain (blake3_to_hex B h @ filename_suffix (cfg_format cfg))"
  by (rule store_names_plain(1) [OF drive to_hex_shape])

lemma namespace_drive: "drive_path (cfg_namespace cfg)"
  using drive by (simp add: drive_config_def)

lemma path_of_inj:
  assumes "length h = 32" "length h' = 32" "path_of h = path_of h'"
  shows "h = h'"
  using windows_join_inj [OF namespace_drive plain [OF assms(1)] plain [OF assms(2)]] assms
    to_hex_inj [OF assms(1,2)] by (simp add: path_of_blob windows_blob_path_def)

lemma quarantine_path_fresh:
  assumes "length h = 32" "length h' = 32" "is_hex_name i"
  shows "windows_quarantine_path cfg (blake3_to_hex B h) i \<noteq> path_of h'"
proof
  assume "windows_quarantine_path cfg (blake3_to_hex B h) i = path_of h'"
  from windows_join_inj [OF namespace_drive store_names_plain(3) [OF drive to_hex_shape [OF assms(1)] assms(3)]
      plain [OF assms(2)] this [unfolded path_of_blob windows_blob_path_def windows_quarantine_path_def]]
  show False
    using to_hex_shape [OF assms(1)] to_hex_shape [OF assms(2)]
    by (auto simp: quarantine_name_def is_hex_name_def dest!: arg_cong [where f = length])
qed

text \<open>A change that no observer but that of one canonical file can see.\<close>

lemma observed_change:
  assumes "length h = 32" "\<And>q. windows_observable cfg q \<Longrightarrow> q \<noteq> path_of h \<Longrightarrow> entry s' q = entry s q"
  shows "canonical_change path_of h s (entry s' (path_of h)) s'"
  using assms path_of_observable path_of_inj unfolding canonical_change_def by metis

lemma unseen_change: "length h = 32 \<Longrightarrow> unseen cfg s s' \<Longrightarrow> canonical_change path_of h s (entry s (path_of h)) s'"
  using path_of_observable by (auto simp: canonical_change_def unseen_def)

lemma windows_save_canonical:
  assumes "windows_old_or_new C cfg (path_of h) payload s r s'" "length h = 32"
  shows "canonical_change path_of h s (entry s (path_of h)) s' \<and> (\<exists>e. r = Err e)
    \<or> (\<exists>bs t. encode_envelope C (cfg_format cfg) payload (cfg_maximum cfg) = Ok bs
         \<and> canonical_change path_of h s (Some (FileNode bs t)) s')"
proof -
  have "canonical_change path_of h s (entry s' (path_of h)) s'"
    using assms(1) by (intro observed_change [OF assms(2)]) (simp add: windows_old_or_new_def)
  with assms(1) show ?thesis unfolding windows_old_or_new_def by metis
qed

lemma windows_save_stream_canonical:
  assumes "windows_save_blob_from_receiver C W cfg (path_of h) declared ms s = Some (r, left, s')" "length h = 32"
  shows "canonical_change path_of h s (entry s (path_of h)) s' \<and> (\<exists>e. r = Err e)
    \<or> (\<exists>bs t. encode_envelope C (cfg_format cfg) (stream_payload ms) (cfg_maximum cfg) = Ok bs
         \<and> canonical_change path_of h s (Some (FileNode bs t)) s')"
  using windows_save_stream_change [OF windows_api_axioms crc drive to_hex_shape [OF assms(2)] path_of_blob assms(1)]
  by (auto simp: stream_payload_complete unseen_change [OF assms(2)] dest: windows_save_canonical [OF _ assms(2)])

lemma windows_clear_canonical:
  assumes "windows_clear_blob W now cfg (path_of h) s = Some (r, s')" "length h = 32" "regular_store path_of s"
  shows "(\<exists>e. canonical_change path_of h s e s' \<and> file_or_none e \<and> stored_entry C cfg e = stored C cfg path_of s h
        \<and> (\<exists>error. r = Err error))
      \<or> canonical_change path_of h s None s'"
proof -
  have reg: "file_or_none (entry s (path_of h))" by (rule regular_entry [OF assms(3,2)])
  note c = windows_clear_change [OF windows_api_axioms drive to_hex_shape [OF assms(2)] path_of_blob _ assms(1)]
  have r: "regular_or_absent s (path_of h)" using reg by (simp add: regular_or_absent_def file_or_none_def)
  have change: "canonical_change path_of h s (entry s' (path_of h)) s'"
    by (rule observed_change [OF assms(2) c(3) [OF r]])
  show ?thesis
  proof (cases "entry s' (path_of h) = None")
    case True
    with change show ?thesis by simp
  next
    case False
    with c(1) [OF r] have "\<exists>error. r = Err error" by (cases r) auto
    moreover from c(2) [OF r] False reg have "file_or_none (entry s' (path_of h))
        \<and> stored_entry C cfg (entry s' (path_of h)) = stored C cfg path_of s h"
      unfolding stored_def using retimed_stored by metis
    ultimately show ?thesis using change by blast
  qed
qed

lemma windows_quarantine_seen:
  assumes "windows_quarantine_blob W cfg (path_of h) s = Some (r, s')" "length h = 32"
  obtains (moved) us where "installs (\<lambda>_. True) us s s'" "canonical_change path_of h s None s'"
    | (kept) "quiet (\<lambda>_. True) s s'" "\<exists>e. r = Err e"
proof -
  note hex = to_hex_shape [OF assms(2)]
  note ps = store_paths [OF drive hex, folded path_of_blob]
  from assms(1) ps(4) hex have "windows_quarantine_loop W cfg (path_of h) (blake3_to_hex B h) s = Some (r, s')"
    by (simp add: windows_quarantine_blob_def)
  from windows_quarantine_loop_outcome [OF this windows_api_axioms drive hex path_of_blob]
  have "windows_quarantined cfg (path_of h) (blake3_to_hex B h) s r s'" by simp
  then consider i n where "is_hex_name i"
      "installs (\<lambda>_. True) [(windows_quarantine_path cfg (blake3_to_hex B h) i, Some n), (path_of h, None)] s s'"
    | "quiet (\<lambda>_. True) s s'" "\<exists>e. r = Err e"
    unfolding windows_quarantined_def by blast
  then show ?thesis
  proof cases
    case 1
    have "entry s' (path_of h') = (if h' = h then None else entry s (path_of h'))" if "length h' = 32" for h'
      using installs_entry [OF 1(2), of "path_of h'"] quarantine_path_fresh [OF assms(2) that 1(1), symmetric]
        path_of_inj [OF that assms(2)] by (cases "h' = h") auto
    then show ?thesis by (intro moved [OF 1(2)]) (simp add: canonical_change_def)
  qed (rule kept)
qed

lemma windows_quarantine_canonical:
  assumes "windows_quarantine_blob W cfg (path_of h) s = Some (r, s')" "length h = 32"
  shows "canonical_change path_of h s (entry s (path_of h)) s' \<and> (\<exists>e. r = Err e)
    \<or> canonical_change path_of h s None s'"
  by (rule windows_quarantine_seen [OF assms]) (auto simp: canonical_change_def quiet_same_entries)

lemma windows_job_abstractly:
  assumes job: "windows_job C W B cfg now h operation s = Some (Some (operation', result), sent, s')"
    and h: "length h = 32" and reg: "regular_store path_of s"
  shows "abstractly C cfg path_of h operation result s s'"
  using job
proof (cases rule: windows_job_cases)
  case (save payload reply r)
  from windows_save_blob_change [OF windows_api_axioms drive to_hex_shape [OF h] path_of_blob save(3)]
  have "windows_old_or_new C cfg (path_of h) payload s r s'" .
  from save_abstractly [OF windows_save_canonical [OF this h] h reg] save(1,2) show ?thesis by simp
next
  case (save_stream declared ms reply r left)
  from save_abstractly [OF windows_save_stream_canonical [OF save_stream(3) h] h reg] save_stream(1,2)
  show ?thesis by simp
next
  case (clear reply r)
  from removal_abstractly [OF windows_clear_canonical [OF clear(3) h reg] h reg] clear(1,2) show ?thesis by simp
next
  case (quarantine reply r)
  from windows_quarantine_canonical [OF quarantine(3) h] regular_entry [OF reg h] quarantine(1,2)
  show ?thesis by (intro removal_abstractly [OF _ h reg]) (auto simp: stored_def)
qed (use load_abstractly [OF _ h reg] load_stream_abstractly [OF _ h reg] inspect_abstractly [OF _ h reg] in auto)

lemma windows_sweep_spares:
  assumes "windows_sweep W cfg now age s = (r, s')" "windows_observable cfg q"
  shows "entry s' q = entry s q"
proof (cases age)
  case (Some a)
  with assms(1) have "windows_cleanup_stale_files W now cfg a s = (r, s')" by (simp add: windows_sweep_def)
  from windows_cleanup_removes [OF windows_api_axioms drive this] assms(2) show ?thesis
    unfolding removes_stale_def stale_staging_def windows_observable_def by blast
qed (use assms in \<open>simp add: windows_sweep_def\<close>)

lemma windows_backend: "blob_backend C cfg path_of (windows_job C W B cfg) (windows_sweep W cfg)"
proof
  fix now h operation s operation' result sent s'
  show "windows_job C W B cfg now h operation s = Some (Some (operation', result), sent, s') \<Longrightarrow>
      length h = 32 \<Longrightarrow> regular_store path_of s \<Longrightarrow> abstractly C cfg path_of h operation result s s'"
    by (rule windows_job_abstractly)
  show "windows_job C W B cfg now h operation s = Some (Some (operation', result), sent, s') \<Longrightarrow>
      result_matches operation' result \<and> reply_of operation' = reply_of operation \<and> result_matches operation result"
    unfolding windows_job_def by (rule windows_run_matches)
  show "windows_job C W B cfg now h operation s = Some (None, sent, s') \<Longrightarrow> s' = s"
    by (erule windows_job_cases) simp_all
next
  fix now age s r s' h
  show "windows_sweep W cfg now age s = (r, s') \<Longrightarrow> length h = 32 \<Longrightarrow> entry s' (path_of h) = entry s (path_of h)"
    using windows_sweep_spares path_of_observable by blast
qed

end

sublocale windows_store \<subseteq> windows: blob_backend C cfg "windows_operation_path B cfg" "windows_job C W B cfg" "windows_sweep W cfg"
  by (rule windows_backend)

interpretation win_store: windows_store padded_digest mem_lib id castagnoli win_config
  by unfold_locales (use win_config_ok golden_wf in simp_all)

lemma windows_is_backend:
  assumes "windows_api W opened" "crc32c_api C" "blake3_api B" "drive_config cfg"
  shows "blob_backend C cfg (windows_operation_path B cfg) (windows_job C W B cfg) (windows_sweep W cfg)"
  using assms by (intro windows_store.windows_backend)
    (simp add: windows_store_def windows_store_axioms_def entry_store_def drive_config_def)

section \<open>Sequences of operations\<close>

text \<open>The store on Windows refines the same map from keys to payloads as the one on Unix, for any sequence
  of operations and any failures of the calls: each operation changed the value of its own key as its
  result says, and every canonical path stays free of anything but regular files. A clear that failed
  after it set the time of the file has not changed the value.\<close>

theorem windows_store_refines_map:
  assumes "windows_api W opened" "crc32c_api C" "blake3_api B" "drive_config cfg"
    and "regular_store (windows_operation_path B cfg) s" "store_run (windows_job C W B cfg) s hist s'"
  shows "map_run (store_view C cfg (windows_operation_path B cfg) s) hist (store_view C cfg (windows_operation_path B cfg) s')
    \<and> regular_store (windows_operation_path B cfg) s'"
  by (rule blob_backend.store_run_map_run [OF windows_is_backend [OF assms(1-4)] assms(6,5)])

definition win_saved :: "fs \<Rightarrow> bool" where
  "win_saved s \<longleftrightarrow> (\<exists>r. store_run (windows_job castagnoli mem_lib padded_digest win_config) win_fs
     [(zero_key, SaveOp [0x61] 0, SaveResult r)] s
   \<and> map_run (store_view castagnoli win_config (windows_operation_path padded_digest win_config) win_fs)
       [(zero_key, SaveOp [0x61] 0, SaveResult r)]
       (store_view castagnoli win_config (windows_operation_path padded_digest win_config) s))"

lemma win_zero_path: "windows_operation_path padded_digest win_config zero_key = windows_blob_path win_config win_hash"
  unfolding win_store.path_of_blob by (simp add: win_hash_def zero_key_def padded_digest_def)

lemma win_regular: "regular_store (windows_operation_path padded_digest win_config) win_fs"
proof -
  have "entry win_fs (windows_operation_path padded_digest win_config h) = None" if "length h = 32" for h
    using windows_join_longer [OF win_store.namespace_drive win_store.plain [OF that]]
    by (simp add: win_store.path_of_blob windows_blob_path_def win_fs_def entry_def)
  then show ?thesis by (simp add: regular_store_def)
qed

lemma windows_store_refines_map_witness: "\<exists>s. win_saved s"
proof -
  have stem: "Option.bind (windows_file_stem (windows_blob_path win_config win_hash)) to_str = Some win_hash"
    using store_paths(4) [OF win_config_ok(1,2)] win_config_ok(2) by simp
  have "windows_save_blob castagnoli mem_lib win_config (windows_blob_path win_config win_hash) [0x61] win_fs \<noteq> None"
    using windows_saves_return(1) [OF mem.windows_api_axioms castagnoli.crc32c_api_axioms win_config_ok(1,2) win_fill win_free]
    by (simp add: windows_save_blob_def stem split: sum.split)
  then obtain y where y: "windows_save_blob castagnoli mem_lib win_config (windows_blob_path win_config win_hash) [0x61] win_fs
      = Some y" by blast
  obtain r s where "y = (r, s)" by (cases y)
  with y have "windows_job castagnoli mem_lib padded_digest win_config 0 zero_key (SaveOp [0x61] 0) win_fs
      = Some (Some (SaveOp [0x61] 0, SaveResult r), [], s)"
    by (simp add: windows_job_def windows_run_owned_operation_def win_zero_path)
  then have run: "store_run (windows_job castagnoli mem_lib padded_digest win_config) win_fs
      [(zero_key, SaveOp [0x61] 0, SaveResult r)] s"
    by (rule store_run_Cons [OF _ _ store_run_Nil]) (simp add: zero_key_def)
  with windows_store_refines_map [OF mem.windows_api_axioms castagnoli.crc32c_api_axioms
      padded_digest.blake3_api_axioms win_config_ok(1) win_regular run] show ?thesis
    unfolding win_saved_def by blast
qed

end
