(* ===== verification/EndToEnd.thy ===== *)
theory EndToEnd
  imports Sequential Facades WinOperations
begin

text \<open>
  The store as any number of clients see it, on either platform: it is linearizable, a load sees the last
  acknowledged write, the coordinator never panics on what the jobs return, and every reply is of the type
  of its channel.
\<close>

section \<open>Platforms\<close>

text \<open>The jobs, the maintenance and the canonical paths of a store on Unix or on Windows, with the documented
  behaviour of the libraries below it.\<close>

definition platform ::
  "'w unix_lib \<Rightarrow> ('w \<Rightarrow> bytes) \<Rightarrow> ('w \<Rightarrow> path) \<Rightarrow> string \<Rightarrow> 'h windows_lib \<Rightarrow> ('h \<Rightarrow> path)
     \<Rightarrow> crc32c_lib \<Rightarrow> blake3_lib \<Rightarrow> store_config \<Rightarrow> (key \<Rightarrow> path) \<Rightarrow> job \<Rightarrow> sweep \<Rightarrow> bool" where
  "platform U staged target OS W opened C B cfg P job sweep \<longleftrightarrow> crc32c_api C \<and> blake3_api B
     \<and> (unix_api U staged target \<and> wf_format (cfg_format cfg) \<and> P = operation_path B cfg
          \<and> job = unix_job C U B cfg \<and> sweep = unix_sweep OS cfg
        \<or> windows_api W opened \<and> drive_config cfg \<and> P = windows_operation_path B cfg
          \<and> job = windows_job C W B cfg \<and> sweep = windows_sweep W cfg)"

lemma platform_backend: "platform U staged target OS W opened C B cfg P job sweep \<Longrightarrow> blob_backend C cfg P job sweep"
  unfolding platform_def using unix_is_backend windows_is_backend by metis

section \<open>The values of one key\<close>

text \<open>The values a key can have after a sequence of operations on it.\<close>

fun key_values :: "(operation \<times> blocking_result) list \<Rightarrow> bytes option set \<Rightarrow> bytes option set" where
  "key_values [] V = V"
| "key_values ((operation, result) # xs) V = key_values xs (\<Union>v\<in>V. abstract_effect operation result v)"

lemma key_values_append [simp]: "key_values (xs @ ys) V = key_values ys (key_values xs V)"
  by (induction xs V rule: key_values.induct) auto

lemma key_values_mono: "V \<subseteq> V' \<Longrightarrow> key_values xs V \<subseteq> key_values xs V'"
proof (induction xs V arbitrary: V' rule: key_values.induct)
  case (2 operation result xs V)
  then show ?case by (simp add: UN_mono)
qed simp

lemma key_values_empty [simp]: "key_values xs {} = {}"
  by (induction xs "{} :: bytes option set" rule: key_values.induct) simp_all

lemma map_run_key_values: "map_run m hist m' \<Longrightarrow> m' k \<in> key_values (of_key k hist) {m k}"
proof (induction rule: map_run.induct)
  case (map_run_Cons v operation result m h hist m')
  then show ?case
    using key_values_mono [of "{v}" "abstract_effect operation result (m h)" "of_key k hist"] by auto
qed simp

text \<open>The value an operation has settled when its result is a success, and the operations that change none.\<close>

fun settled_value :: "operation \<Rightarrow> blocking_result \<Rightarrow> bytes option option" where
  "settled_value (SaveOp payload _) (SaveResult (Ok _)) = Some (Some payload)"
| "settled_value (SaveStreamOp _ ms _) (SaveStreamResult (Ok _)) = Some (Some (stream_payload ms))"
| "settled_value (ClearOp _) (ClearResult (Ok _)) = Some None"
| "settled_value (QuarantineOp _) (QuarantineResult (Ok _)) = Some None"
| "settled_value _ _ = None"

fun reads_only :: "operation \<Rightarrow> bool" where
  "reads_only (LoadOp _) = True"
| "reads_only (LoadStreamOp _ _) = True"
| "reads_only (InspectOp _) = True"
| "reads_only _ = False"

lemma settled_effect: "settled_value operation result = Some v \<Longrightarrow> abstract_effect operation result old = {v}"
  by (cases "(operation, result)" rule: settled_value.cases) (auto simp: settles_def)

lemma read_effect: "reads_only operation \<Longrightarrow> abstract_effect operation result old \<subseteq> {old}"
  by (cases operation; cases result) (auto split: sum.split)

lemma reads_keep: "list_all (\<lambda>(operation, _). reads_only operation) xs \<Longrightarrow> V \<subseteq> {v} \<Longrightarrow> key_values xs V \<subseteq> {v}"
proof (induction xs V rule: key_values.induct)
  case (2 operation result xs V)
  then have "(\<Union>v\<in>V. abstract_effect operation result v) \<subseteq> {v}" using read_effect by fastforce
  with 2 show ?case by simp
qed simp

lemma load_after_reads:
  assumes "w \<in> key_values (reads @ (LoadOp r, LoadResult (Ok found)) # after) V" "V \<subseteq> {v}"
    and "list_all (\<lambda>(operation, _). reads_only operation) reads"
  shows "found = v"
proof (rule ccontr)
  assume ne: "found \<noteq> v"
  have "key_values reads V \<subseteq> {v}" by (rule reads_keep [OF assms(3,2)])
  with ne have "(\<Union>u\<in>key_values reads V. abstract_effect (LoadOp r) (LoadResult (Ok found)) u) = {}"
    by fastforce
  with assms(1) show False by simp
qed

lemma load_after_settled:
  assumes "w \<in> key_values (before @ (operation, result) # reads @ (LoadOp r, LoadResult (Ok found)) # after) V"
    and "settled_value operation result = Some v" "list_all (\<lambda>(operation, _). reads_only operation) reads"
  shows "found = v"
proof (rule load_after_reads [OF _ _ assms(3)])
  show "w \<in> key_values (reads @ (LoadOp r, LoadResult (Ok found)) # after)
      (\<Union>u\<in>key_values before V. abstract_effect operation result u)" using assms(1) by simp
qed (use settled_effect [OF assms(2)] in auto)

section \<open>Any number of clients\<close>

text \<open>Two calls of a client on the namespace with one file: the key is cleared, then loaded.\<close>

abbreviation "golden_job \<equiv> unix_job castagnoli temp_lib padded_digest golden_config"
abbreviation "golden_sweep \<equiv> unix_sweep ''linux'' golden_config"
abbreviation "golden_paths_of \<equiv> operation_path padded_digest golden_config"
abbreviation "golden_start \<equiv> store_new (started 2 [] []) zero_fs"

lemma golden_platform:
  "platform temp_lib tw_bytes tw_target ''linux'' mem_lib id castagnoli padded_digest golden_config
     golden_paths_of golden_job golden_sweep"
  using temp.unix_api_axioms castagnoli.crc32c_api_axioms padded_digest.blake3_api_axioms golden_wf
  by (simp add: platform_def golden_config_def)

lemma golden_clear: "golden_job 0 zero_key (ClearOp 0) zero_fs = Some (Some (ClearOp 0, ClearResult (Ok ())), [], zero_cleared)"
  by (simp add: unix_job_def run_owned_operation_def zero_operation_path zero_clear)

lemma golden_load: "golden_job 0 zero_key (LoadOp 1) zero_cleared = Some (Some (LoadOp 1, LoadResult (Ok None)), [], zero_cleared)"
proof -
  have e: "entry zero_cleared zero_path = None" "entry zero_cleared ''/store/blobs'' = Some DirNode"
    using zero_entries(6) by (auto simp: zero_cleared_def entry_def zero_fs_def demo_fs_def)
  have f: "fs_faults zero_cleared = []" by (simp add: zero_cleared_def)
  have n: "ensure_namespace_available golden_config zero_cleared = (Ok (), zero_cleared)"
    using e(2) f by (simp add: ensure_namespace_available_def fs_metadata_def syscall_def resolve.simps golden_config_def)
  have "load_blob castagnoli golden_config zero_path zero_cleared = (Ok None, zero_cleared)"
    using e(1) f n by (simp add: load_blob_def file_open_def syscall_def resolve.simps)
  then show ?thesis by (simp add: unix_job_def run_owned_operation_def zero_operation_path)
qed

lemma golden_run:
  obtains z where "store_reachable golden_job golden_sweep rotating_order 2 golden_start z"
    "jobs_log z = [(zero_key, ClearOp 0, Some (ClearOp 0, ClearResult (Ok ()))),
       (zero_key, LoadOp 1, Some (LoadOp 1, LoadResult (Ok None)))]"
    "disk z = zero_cleared"
    "view delivered_result (out (core (engine z))) = [(zero_key, ClearOp 0, ClearResult (Ok ())),
       (zero_key, LoadOp 1, LoadResult (Ok None))]"
proof -
  note served = blob_backend.call_served [OF platform_backend [OF golden_platform] rotating.hash_order_axioms]
  have l: "length zero_key = 32" by (simp add: zero_key_def)
  obtain y where y: "store_reachable golden_job golden_sweep rotating_order 2 golden_start y" "at_rest y" "disk y = zero_cleared"
    "out (core (engine y)) = [Started zero_key (ClearOp 0), Delivered zero_key (ClearOp 0) (ClearResult (Ok ()))]"
    "jobs_log y = [(zero_key, ClearOp 0, Some (ClearOp 0, ClearResult (Ok ())))]"
    using served [where maximum = 2 and now = 0 and operation = "ClearOp 0" and operation' = "ClearOp 0"
        and result = "ClearResult (Ok ())" and s = zero_cleared, OF new_at_rest [of 2 zero_fs] _ l] golden_clear
    by (auto simp: store_new_def system_new_def started_def sched_new_def)
  obtain z where z: "store_reachable golden_job golden_sweep rotating_order 2 y z" "disk z = zero_cleared"
    "out (core (engine z)) = out (core (engine y)) @ [Started zero_key (LoadOp 1), Delivered zero_key (LoadOp 1) (LoadResult (Ok None))]"
    "jobs_log z = jobs_log y @ [(zero_key, LoadOp 1, Some (LoadOp 1, LoadResult (Ok None)))]"
    using served [where maximum = 2 and now = 0 and operation = "LoadOp 1" and operation' = "LoadOp 1"
        and result = "LoadResult (Ok None)" and s = zero_cleared, OF y(2) _ l] golden_load y(3)
    by auto
  show thesis
    by (rule that [OF store_reachable_trans [OF z(1) y(1)]]) (use y z in simp_all)
qed

text \<open>C3. The store is linearizable. In every state it can reach, with any calls of any clients at any time, any
  scheduling, any faults of the file system and any panics, the payloads on the disk are the values of a
  map on which the operations whose jobs ended were carried out one after the other, each as its result
  says. For each key these operations, followed by the one that is running, are operations sent by clients
  in the order of sending, and the results of the ended ones are exactly those delivered to the clients or
  still on their way, in that order.\<close>

theorem store_linearizable:
  assumes "hash_order order" "platform U staged target OS W opened C B cfg P job sweep" "regular_store P s"
    and "store_reachable job sweep order maximum (store_new (started maximum spawns panics) s) z"
  shows "map_run (store_view C cfg P s) (view log_entry (jobs_log z)) (store_view C cfg P (disk z))
    \<and> (\<forall>k. subseq (of_key k (log_operations (jobs_log z)) @ of_key k (running (engine z))) (of_key k (sent (engine z)))
        \<and> of_key k (view log_result (jobs_log z)) = of_key k (view delivered_result (out (core (engine z))))
            @ of_key k (view completed_result (channel (engine z))))"
  using blob_backend.linearization [OF platform_backend [OF assms(2)] assms(1,3,4)] by blast

lemma store_linearizable_witness:
  "\<exists>z. store_reachable golden_job golden_sweep rotating_order 2 golden_start z
     \<and> of_key zero_key (view log_result (jobs_log z)) = [(ClearOp 0, ClearResult (Ok ())), (LoadOp 1, LoadResult (Ok None))]
     \<and> map_run (store_view castagnoli golden_config golden_paths_of zero_fs)
         [(zero_key, ClearOp 0, ClearResult (Ok ())), (zero_key, LoadOp 1, LoadResult (Ok None))]
         (store_view castagnoli golden_config golden_paths_of zero_cleared)"
proof -
  obtain z where z: "store_reachable golden_job golden_sweep rotating_order 2 golden_start z"
    "jobs_log z = [(zero_key, ClearOp 0, Some (ClearOp 0, ClearResult (Ok ()))),
       (zero_key, LoadOp 1, Some (LoadOp 1, LoadResult (Ok None)))]" "disk z = zero_cleared"
    by (rule golden_run)
  with store_linearizable [OF rotating.hash_order_axioms golden_platform zero_regular z(1)]
  show ?thesis by (auto simp del: map_run_simps)
qed

text \<open>C4. A load sees the last acknowledged write. When the jobs of a key ended with a save, a streaming save, a
  clear or a quarantine that succeeded, then only loads and inspections, then a load that succeeded, the
  load returned the payload saved, or none after a clear or a quarantine; whatever other keys did.\<close>

theorem load_sees_last_write:
  assumes "hash_order order" "platform U staged target OS W opened C B cfg P job sweep" "regular_store P s"
    and "store_reachable job sweep order maximum (store_new (started maximum spawns panics) s) z"
    and "of_key k (view log_entry (jobs_log z))
      = before @ (operation, result) # reads @ (LoadOp r, LoadResult (Ok found)) # after"
    and "settled_value operation result = Some v" "list_all (\<lambda>(operation, _). reads_only operation) reads"
  shows "found = v"
proof -
  have "map_run (store_view C cfg P s) (view log_entry (jobs_log z)) (store_view C cfg P (disk z))"
    using blob_backend.linearization(1) [OF platform_backend [OF assms(2)] assms(1,3,4)] .
  from map_run_key_values [OF this, of k] assms(5) show ?thesis
    using load_after_settled [OF _ assms(6,7)] by metis
qed

lemma load_sees_last_write_witness:
  "\<exists>z. store_reachable golden_job golden_sweep rotating_order 2 golden_start z
     \<and> (\<forall>found. of_key zero_key (view log_entry (jobs_log z))
            = [] @ (ClearOp 0, ClearResult (Ok ())) # [] @ (LoadOp 1, LoadResult (Ok found)) # [] \<longrightarrow> found = None)
     \<and> of_key zero_key (view log_entry (jobs_log z)) = [(ClearOp 0, ClearResult (Ok ())), (LoadOp 1, LoadResult (Ok None))]"
proof -
  obtain z where z: "store_reachable golden_job golden_sweep rotating_order 2 golden_start z"
    "jobs_log z = [(zero_key, ClearOp 0, Some (ClearOp 0, ClearResult (Ok ()))),
       (zero_key, LoadOp 1, Some (LoadOp 1, LoadResult (Ok None)))]"
    by (rule golden_run)
  have "found = None" if "of_key zero_key (view log_entry (jobs_log z))
      = [] @ (ClearOp 0, ClearResult (Ok ())) # [] @ (LoadOp 1, LoadResult (Ok found)) # []" for found
    by (rule load_sees_last_write [OF rotating.hash_order_axioms golden_platform zero_regular z(1) that]) simp_all
  with z show ?thesis by auto
qed

section \<open>The kinds of the replies\<close>

text \<open>An outcome in the log is of the kind of its operation.\<close>

definition outcome_fits :: "key \<times> operation \<times> operation_outcome \<Rightarrow> bool" where
  "outcome_fits = (\<lambda>(_, operation, outcome). \<forall>operation' result. outcome = Some (operation', result) \<longrightarrow>
     result_matches operation' result \<and> reply_of operation' = reply_of operation \<and> result_matches operation result)"

context blob_backend
begin

lemma store_reachable_fits:
  "store_reachable job sweep order maximum (store_new start s) z \<Longrightarrow> list_all outcome_fits (jobs_log z)"
proof (induction rule: store_reachable.induct)
  case (store_further z z')
  from store_further.hyps(2) show ?case
  proof cases
    case (worker_ends us k operation vs now outcome chunks s)
    then have "job now k operation (disk z) = Some (outcome, chunks, s)"
      by (auto simp: worker_job_def split: option.splits)
    then have "outcome_fits (k, operation, outcome)"
      unfolding outcome_fits_def using job_typed by fast
    with store_further.IH worker_ends(1) show ?thesis by simp
  qed (use store_further.IH in simp_all)
qed (simp add: store_new_def)

end

lemma log_result_logged:
  assumes "(operation', result) \<in> set (of_key k (view log_result log))"
  shows "\<exists>operation. (k, operation, Some (operation', result)) \<in> set log \<and> operation \<in> set (of_key k (log_operations log))"
proof -
  have "(k, operation', result) \<in> set (view log_result log)" using assms by (simp add: in_set_of_key)
  then obtain operation where "(k, operation, Some (operation', result)) \<in> set log"
    by (auto simp: view_def split: option.splits)
  then show ?thesis by (force simp: in_set_of_key log_operations_def)
qed

lemma ops_of_refused: "Refused k operation WorkerUnavailable \<in> set acts \<Longrightarrow> operation \<in> set (ops_of k acts)"
  by (force simp: ops_of_def)

lemma refused_closed_view: "Refused k operation StoreClosed \<in> set acts \<Longrightarrow> operation \<in> set (of_key k (view refused_closed acts))"
  by (force simp: in_set_of_key view_def)

text \<open>C14. The coordinator never panics. In every state the store can reach, whatever the jobs of the workers
  came to on the disk, the coordinator has not failed and handles the next event of its channel: the
  result that \<open>run_owned_operation\<close> returns with an operation is one that \<open>deliver\<close> has an arm for.\<close>

theorem coordinator_never_fails:
  assumes "hash_order order" "platform U staged target OS W opened C B cfg P job sweep"
    and "store_reachable job sweep order maximum (store_new (started maximum spawns panics) s) z"
  shows "lifecycle (core (engine z)) \<noteq> Failed
    \<and> (\<forall>event rest. channel (engine z) = event # rest \<longrightarrow> handle_event order maximum event (core (engine z)) \<noteq> None)
    \<and> (\<forall>k operation operation' result. (k, operation, Some (operation', result)) \<in> set (jobs_log z) \<longrightarrow>
         deliver operation' result \<noteq> None)"
proof (intro conjI allI impI)
  have inv: "system_inv maximum (engine z)"
    by (rule reachable_inv [OF assms(1) blob_backend.store_reachable_engine [OF platform_backend [OF assms(2)] assms(3)]])
  then show "lifecycle (core (engine z)) \<noteq> Failed"
    by (auto simp: system_inv_def live_def scheduler_inv_def halted_def split: if_splits)
  show "handle_event order maximum event (core (engine z)) \<noteq> None" if "channel (engine z) = event # rest" for event rest
    using inv that by (simp add: handle_event_panics system_inv_def system_core_def)
  show "deliver operation' result \<noteq> None" if "(k, operation, Some (operation', result)) \<in> set (jobs_log z)"
    for k operation operation' result
    using blob_backend.store_reachable_fits [OF platform_backend [OF assms(2)] assms(3)] that
    by (auto simp: list_all_iff outcome_fits_def deliver_iff)
qed

text \<open>The result of a clear is in the channel.\<close>

lemma golden_completed:
  obtains z c where "store_reachable golden_job golden_sweep rotating_order 2 golden_start z"
    "channel (engine z) = [Completion zero_key (Some (ClearOp 0, ClearResult (Ok ())))]"
    "jobs_log z = [(zero_key, ClearOp 0, Some (ClearOp 0, ClearResult (Ok ())))]"
proof -
  have l: "length zero_key = 32" by (simp add: zero_key_def)
  obtain c where z: "store_reachable golden_job golden_sweep rotating_order 2 golden_start
      (golden_start\<lparr>engine := (engine golden_start)\<lparr>channel := [], sent := sent (engine golden_start) @ [(zero_key, ClearOp 0)],
         core := c, running := [(zero_key, ClearOp 0)]\<rparr>\<rparr>)" (is "store_reachable _ _ _ _ _ ?z")
    by (rule call_started [OF rotating.hash_order_axioms new_at_rest [of 2 zero_fs] _ l,
          where maximum = 2 and job = golden_job and sweep = golden_sweep and operation = "ClearOp 0"]) simp_all
  have step: "store_step golden_job golden_sweep rotating_order 2 ?z
      (?z\<lparr>engine := job_done (engine ?z) ([] @ []) zero_key (ClearOp 0) (Some (ClearOp 0, ClearResult (Ok ()))),
         disk := zero_cleared, jobs_log := jobs_log ?z @ [(zero_key, ClearOp 0, Some (ClearOp 0, ClearResult (Ok ())))]\<rparr>)"
    by (rule worker_ends [where now = 0 and chunks = "[]"])
       (use golden_clear in \<open>simp_all add: worker_job_def store_new_def\<close>)
  show thesis
    by (rule that [OF store_further [OF z step]]) (simp_all add: job_done_def store_new_def)
qed

lemma coordinator_never_fails_witness:
  "\<exists>z. store_reachable golden_job golden_sweep rotating_order 2 golden_start z
     \<and> channel (engine z) = [Completion zero_key (Some (ClearOp 0, ClearResult (Ok ())))]
     \<and> handle_event rotating_order 2 (Completion zero_key (Some (ClearOp 0, ClearResult (Ok ())))) (core (engine z)) \<noteq> None
     \<and> deliver (ClearOp 0) (ClearResult (Ok ())) \<noteq> None"
proof -
  obtain z where z: "store_reachable golden_job golden_sweep rotating_order 2 golden_start z"
    "channel (engine z) = [Completion zero_key (Some (ClearOp 0, ClearResult (Ok ())))]"
    "jobs_log z = [(zero_key, ClearOp 0, Some (ClearOp 0, ClearResult (Ok ())))]"
    by (rule golden_completed)
  note c = coordinator_never_fails [OF rotating.hash_order_axioms golden_platform z(1)]
  show ?thesis
  proof (intro exI [of _ z] conjI)
    show "handle_event rotating_order 2 (Completion zero_key (Some (ClearOp 0, ClearResult (Ok ())))) (core (engine z)) \<noteq> None"
      using c z(2) by simp
    show "deliver (ClearOp 0) (ClearResult (Ok ())) \<noteq> None"
      using c z(3) by (metis list.set_intros(1))
  qed (rule z(1,2))+
qed

text \<open>C18. Every reply is of the type of the channel it is sent on. A result is delivered for an operation that
  was sent, on its reply channel, as a value of its kind, so the coordinator never meets a result it
  cannot deliver; a refusal is too.\<close>

theorem replies_fit_operations:
  assumes "hash_order order" "platform U staged target OS W opened C B cfg P job sweep" "regular_store P s"
    and "store_reachable job sweep order maximum (store_new (started maximum spawns panics) s) z"
  shows "(\<forall>k operation' result. Delivered k operation' result \<in> set (out (core (engine z))) \<longrightarrow>
        (\<exists>operation v. (k, operation) \<in> set (sent (engine z)) \<and> deliver operation' result = Some (reply_of operation, v)
           \<and> answers operation v))
    \<and> (\<forall>k operation error. Refused k operation error \<in> set (out (core (engine z))) \<and> error \<in> {StoreClosed, WorkerUnavailable} \<longrightarrow>
        (\<exists>v. (k, operation) \<in> set (sent (engine z)) \<and> deliver_error operation error = (reply_of operation, v)
           \<and> answers operation v))"
proof (intro conjI allI impI)
  fix k operation' result
  assume d: "Delivered k operation' result \<in> set (out (core (engine z)))"
  note linear = blob_backend.linearization [OF platform_backend [OF assms(2)] assms(1,3,4)]
  have "(k, operation', result) \<in> set (view delivered_result (out (core (engine z))))"
    using d by (force simp: view_def)
  then have "(operation', result) \<in> set (of_key k (view log_result (jobs_log z)))"
    by (simp add: linear(4) in_set_of_key)
  then obtain operation where log: "(k, operation, Some (operation', result)) \<in> set (jobs_log z)"
    and "operation \<in> set (of_key k (log_operations (jobs_log z)))" using log_result_logged by blast
  then have "(k, operation) \<in> set (sent (engine z))"
    using list_emb_set [OF linear(3) [of k]] by (auto simp: in_set_of_key)
  moreover have "outcome_fits (k, operation, Some (operation', result))"
    using blob_backend.store_reachable_fits [OF platform_backend [OF assms(2)] assms(4)] log by (simp add: list_all_iff)
  ultimately show "\<exists>operation v. (k, operation) \<in> set (sent (engine z)) \<and> deliver operation' result = Some (reply_of operation, v)
      \<and> answers operation v"
    using deliver_answers by (auto simp: outcome_fits_def)
next
  fix k operation error
  assume r: "Refused k operation error \<in> set (out (core (engine z))) \<and> error \<in> {StoreClosed, WorkerUnavailable}"
  have "of_key k (sent (engine z)) = ops_of k (out (core (engine z))) @ backlog k (core (engine z))
      @ of_key k (view refused_closed (out (core (engine z)))) @ of_key k (view submitted (channel (engine z)))"
    using reachable_inv [OF assms(1) blob_backend.store_reachable_engine [OF platform_backend [OF assms(2)] assms(4)]]
    by (simp add: system_inv_def system_history_def)
  then have "(k, operation) \<in> set (sent (engine z))"
    using r ops_of_refused refused_closed_view by (auto simp: in_set_of_key [symmetric])
  with deliver_error_answers show "\<exists>v. (k, operation) \<in> set (sent (engine z))
      \<and> deliver_error operation error = (reply_of operation, v) \<and> answers operation v" by blast
qed

lemma delivered_result_mem:
  "(k, operation, result) \<in> set (view delivered_result acts) \<Longrightarrow> Delivered k operation result \<in> set acts"
proof (induction acts)
  case (Cons a acts)
  then show ?case by (cases a) auto
qed simp

lemma replies_fit_operations_witness:
  "\<exists>z. store_reachable golden_job golden_sweep rotating_order 2 golden_start z
     \<and> Delivered zero_key (LoadOp 1) (LoadResult (Ok None)) \<in> set (out (core (engine z)))
     \<and> (\<exists>operation. (zero_key, operation) \<in> set (sent (engine z)) \<and> reply_of operation = 1
          \<and> answers operation (LoadReply (Ok None)))"
proof -
  obtain z where z: "store_reachable golden_job golden_sweep rotating_order 2 golden_start z"
    "view delivered_result (out (core (engine z))) = [(zero_key, ClearOp 0, ClearResult (Ok ())),
       (zero_key, LoadOp 1, LoadResult (Ok None))]"
    by (rule golden_run)
  have "Delivered zero_key (LoadOp 1) (LoadResult (Ok None)) \<in> set (out (core (engine z)))"
    by (rule delivered_result_mem) (simp add: z(2))
  with replies_fit_operations [OF rotating.hash_order_axioms golden_platform zero_regular z(1)] z(1)
  show ?thesis by fastforce
qed

end
