(* ===== verification/Interruption.thy ===== *)
theory Interruption
  imports EndToEnd
begin

text \<open>
  An interruption of the process in the middle of a job, on either platform. The locale \<open>crash_backend\<close>
  extends the contract of the jobs: wherever a job is cut off, the payload of its key is the old one or the
  one the operation was to leave, and every other key is as before; a maintenance that is cut off has
  changed no payload.
\<close>

section \<open>States in between\<close>

definition stopped_at :: "fs \<Rightarrow> fs_event list \<Rightarrow> fs" where
  "stopped_at s evs = s\<lparr>fs_log := evs\<rparr>"

lemma entry_stopped_at [simp]: "entry (stopped_at s evs) q = entry_at (fs_base s) evs q"
  by (simp add: stopped_at_def entry_def)

text \<open>What an operation that was cut off can have left.\<close>

fun in_doubt :: "operation \<Rightarrow> bytes option \<Rightarrow> bytes option set" where
  "in_doubt (SaveOp payload _) old = {old, Some payload}"
| "in_doubt (SaveStreamOp _ ms _) old = {old, Some (stream_payload ms)}"
| "in_doubt (ClearOp _) old = {old, None}"
| "in_doubt (QuarantineOp _) old = {old, None}"
| "in_doubt _ old = {old}"

lemma in_doubt_old [simp]: "old \<in> in_doubt operation old"
  by (cases operation) simp_all

lemma reads_not_in_doubt: "reads_only operation \<Longrightarrow> in_doubt operation old = {old}"
  by (cases operation) simp_all

definition half_done :: "crc32c_lib \<Rightarrow> store_config \<Rightarrow> (key \<Rightarrow> path) \<Rightarrow> key \<Rightarrow> operation \<Rightarrow> fs \<Rightarrow> fs \<Rightarrow> bool" where
  "half_done C cfg P h operation s d \<longleftrightarrow> (\<forall>h'. length h' = 32 \<longrightarrow>
     entry d (P h') = entry s (P h')
     \<or> h' = h \<and> file_or_none (entry d (P h)) \<and> stored_entry C cfg (entry d (P h)) \<in> in_doubt operation (stored C cfg P s h))"

lemma half_done_same: "(\<And>h'. length h' = 32 \<Longrightarrow> entry d (P h') = entry s (P h')) \<Longrightarrow> half_done C cfg P h operation s d"
  by (simp add: half_done_def)

lemma half_done_quiet:
  assumes "quiet V s s'" "interrupted s s' evs" "\<And>h'. length h' = 32 \<Longrightarrow> V (P h')"
  shows "half_done C cfg P h operation s (stopped_at s evs)"
  by (rule half_done_same) (simp add: interrupted_quiet [OF assms(1,2) assms(3)])

lemma half_done_step:
  assumes "\<And>h'. length h' = 32 \<Longrightarrow> entry_at (fs_base s) evs (P h') = entry s (P h')
      \<or> h' = h \<and> entry_at (fs_base s) evs (P h) = e"
    and "entry s (P h) = e \<or> file_or_none e \<and> stored_entry C cfg e \<in> in_doubt operation (stored C cfg P s h)"
  shows "half_done C cfg P h operation s (stopped_at s evs)"
  unfolding half_done_def entry_stopped_at using assms by metis

locale crash_backend = blob_backend +
  assumes job_interrupted: "job now h operation s = Some (outcome, chunks, s') \<Longrightarrow> interrupted s s' evs \<Longrightarrow>
      length h = 32 \<Longrightarrow> regular_store P s \<Longrightarrow> half_done C cfg P h operation s (stopped_at s evs)"
    and sweep_interrupted: "sweep now age s = (r, s') \<Longrightarrow> interrupted s s' evs \<Longrightarrow> length h = 32 \<Longrightarrow>
      entry (stopped_at s evs) (P h) = entry s (P h)"

section \<open>Unix\<close>

lemma inspect_blob_quiet: "inspect_blob cfg p s = (r, s') \<Longrightarrow> quiet V s s'"
  by (auto simp: inspect_blob_def split: prod.splits sum.splits if_splits
      dest!: quiet_calls [where V = V] intro: quiet_trans)

lemma fs_interrupted_refl: "interrupted s s evs \<Longrightarrow> evs = fs_log s"
  by (auto simp: interrupted_def dest: suffix_order.antisym)

lemma stopped_at_log [simp]: "stopped_at s (fs_log s) = s"
  by (simp add: stopped_at_def)

context unix_store
begin

lemma save_half_done:
  assumes "save_outcome C cfg (path_of h) payload s r s'" "interrupted s s' evs" "length h = 32"
    and "in_doubt operation (stored C cfg path_of s h) = {stored C cfg path_of s h, Some payload}"
  shows "half_done C cfg path_of h operation s (stopped_at s evs)"
proof (rule half_done_step [where e = "entry s' (path_of h)"])
  note o = save_outcome_entries [OF assms(1)]
  show "entry_at (fs_base s) evs (path_of h') = entry s (path_of h')
      \<or> h' = h \<and> entry_at (fs_base s) evs (path_of h) = entry s' (path_of h)" if "length h' = 32" for h'
    using o assms(2) operation_path_observable [OF assms(3) that] operation_path_inj [OF that assms(3)]
    unfolding crash_safe_def by metis
  show "entry s (path_of h) = entry s' (path_of h) \<or> file_or_none (entry s' (path_of h))
      \<and> stored_entry C cfg (entry s' (path_of h)) \<in> in_doubt operation (stored C cfg path_of s h)"
    using o assms(4) stored_entry_encoded [OF crc format] by (fastforce simp: old_or_new_def)
qed

lemma removal_half_done:
  assumes "installs (\<lambda>_. True) us s s'" "interrupted s s' evs" "canonical_change path_of h s None s'"
    and "None \<in> in_doubt operation (stored C cfg path_of s h)"
  shows "half_done C cfg path_of h operation s (stopped_at s evs)"
proof (rule half_done_step [where e = None])
  show "entry_at (fs_base s) evs (path_of h') = entry s (path_of h')
      \<or> h' = h \<and> entry_at (fs_base s) evs (path_of h) = None" if "length h' = 32" for h'
    using interrupted_installs [OF assms(1,2), of "path_of h'"] assms(3) that
    by (auto simp: canonical_change_def split: if_splits)
qed (use assms(4) in simp)

lemma unix_reads_quiet:
  assumes "unix_job C U B cfg now h operation s = Some (outcome, chunks, s')" "reads_only operation"
  shows "quiet V s s'"
  using assms
  by (cases rule: unix_job_cases) (auto dest: load_blob_quiet load_stream_quiet inspect_blob_quiet)

lemma unix_job_interrupted:
  assumes job: "unix_job C U B cfg now h operation s = Some (outcome, chunks, s')" and i: "interrupted s s' evs"
    and h: "length h = 32"
  shows "half_done C cfg path_of h operation s (stopped_at s evs)"
proof (cases "reads_only operation")
  case True
  from half_done_quiet [OF unix_reads_quiet [OF job True, of "\<lambda>_. True"] i] show ?thesis by simp
next
  case False
  from job show ?thesis
  proof (cases rule: unix_job_cases)
    case (save payload reply r)
    from save_half_done [OF save_blob_outcome [OF save(3)] i h] save(1) show ?thesis by simp
  next
    case (save_stream declared ms reply r left)
    from save_stream_outcome [OF crc save_stream(3)] show ?thesis
    proof (elim disjE exE conjE)
      assume "quiet (observable (path_of h)) s s'"
      from half_done_quiet [OF this i] operation_path_observable [OF h] show ?thesis by simp
    next
      fix chunks rest
      assume ms: "ms = map Chunk chunks @ Complete # rest"
        and o: "save_outcome C cfg (path_of h) (concat chunks) s r s'"
      show ?thesis by (rule save_half_done [OF o i h]) (simp add: save_stream(1) ms stream_payload_complete)
    qed
  next
    case (clear reply r)
    from clear(3) show ?thesis
    proof (cases rule: clear_blob_cases)
      case (removed n)
      have "canonical_change path_of h s None s'"
        using installs_entry [OF removed(3)] operation_path_inj [OF _ h] by (auto simp: canonical_change_def)
      from removal_half_done [OF removed(3) i this] clear(1) show ?thesis by simp
    next
      case absent
      from half_done_quiet [OF absent(2) i] show ?thesis by simp
    next
      case (failed e)
      from half_done_quiet [OF failed(1) i] show ?thesis by simp
    qed
  next
    case (quarantine reply r)
    from quarantine(3) unix_api_axioms h show ?thesis
    proof (cases rule: quarantine_seen)
      case (moved ident n)
      from removal_half_done [OF moved(2) i moved(3)] quarantine(1) show ?thesis by simp
    next
      case kept
      from half_done_quiet [OF kept(1) i] show ?thesis by simp
    qed
  qed (use False in simp_all)
qed

lemma unix_crash_backend: "crash_backend C cfg path_of (unix_job C U B cfg) (unix_sweep OS cfg)"
proof (unfold_locales)
  show "half_done C cfg path_of h operation s (stopped_at s evs)"
    if "unix_job C U B cfg now h operation s = Some (outcome, chunks, s')" "interrupted s s' evs" "length h = 32"
    for now h operation s outcome chunks s' evs by (rule unix_job_interrupted [OF that])
  show "entry (stopped_at s evs) (path_of h) = entry s (path_of h)"
    if "unix_sweep OS cfg now age s = (r, s')" "interrupted s s' evs" for now age s r s' evs h
    using that fs_interrupted_refl [of s evs]
    by (auto simp: unix_sweep_def cleanup_stale_files_def entry_def split: option.splits)
qed

end

sublocale unix_store \<subseteq> unix: crash_backend C cfg "operation_path B cfg" "unix_job C U B cfg" "unix_sweep OS cfg"
  by (rule unix_crash_backend)

section \<open>Windows\<close>

lemma cleanup_owned_quiet:
  assumes "windows_api W opened" "drive_config cfg" "is_owned_temporary_filename n (filename_suffix (cfg_format cfg))"
    and "cleanup_owned W now minimum_age (windows_join (cfg_namespace cfg) n) n report s = (report', s')"
  shows "quiet (windows_observable cfg) s s'"
proof -
  let ?p = "windows_join (cfg_namespace cfg) n"
  have p: "drive_path ?p"
    using assms(2) owned_windows_plain [OF assms(2,3)] by (auto simp: drive_config_def intro: drive_path_join)
  have V: "\<not> windows_observable cfg ?p" using assms(3) by (auto simp: windows_observable_def)
  obtain o1 s1 where m: "fs_symlink_metadata ?p s = (o1, s1)" by fastforce
  obtain o2 s2 where d: "delete_file W ?p s1 = (o2, s2)" by fastforce
  from windows_api.delete_file_cases [OF assms(1) p d] V have "quiet (windows_observable cfg) s1 s2"
    using installs_restrict [of "\<lambda>_. True" "[(?p, None)]" s1 s2 "windows_observable cfg" "[]"] quiet_all by auto
  with assms(4) m d show ?thesis
    by (auto simp: cleanup_owned_def split: sum.splits if_splits
        intro: quiet_trans [OF fs_symlink_metadata_quiet [OF m, of "windows_observable cfg"]]
          fs_symlink_metadata_quiet [OF m])
qed

lemma cleanup_entries_quiet:
  assumes "windows_api W opened" "drive_config cfg"
  shows "cleanup_entries W cfg now minimum_age entries report s = (report', s') \<Longrightarrow>
    quiet (windows_observable cfg) s s'"
proof (induction entries arbitrary: report s)
  case (Cons found entries)
  show ?case
  proof (cases found)
    case (Inr entry_name)
    show ?thesis
    proof (cases "is_owned_temporary_filename (to_string_lossy entry_name) (filename_suffix (cfg_format cfg))")
      case True
      have "ascii_string (to_string_lossy entry_name)"
        using owned_windows_plain [OF assms(2) True] by (simp add: windows_plain_def)
      then have same: "to_string_lossy entry_name = entry_name" by (rule to_string_lossy_ascii)
      obtain report1 s1 where c:
        "cleanup_owned W now minimum_age (windows_join (cfg_namespace cfg) entry_name) entry_name report s = (report1, s1)"
        by fastforce
      with Cons True Inr same cleanup_owned_quiet [OF assms True [unfolded same] c] show ?thesis
        by (auto intro: quiet_trans)
    qed (use Cons Inr in auto)
  qed (use Cons in auto)
qed simp

lemma windows_sweep_quiet:
  assumes "windows_api W opened" "drive_config cfg" "windows_sweep W cfg now age s = (r, s')"
  shows "quiet (windows_observable cfg) s s'"
proof (cases age)
  case (Some a)
  obtain o1 s1 where d: "fs_read_dir W (cfg_namespace cfg) s = (o1, s1)" by fastforce
  note q = quiet_all [OF windows_api.read_dir_quiet [OF assms(1) d], of "windows_observable cfg"]
  from assms(3) Some d q show ?thesis
    by (auto simp: windows_sweep_def windows_cleanup_stale_files_def split: sum.splits prod.splits
        intro: quiet_trans [OF q cleanup_entries_quiet [OF assms(1,2)]])
qed (use assms(3) in \<open>simp add: windows_sweep_def\<close>)

context windows_store
begin

lemma windows_save_half_done:
  assumes "windows_old_or_new C cfg (path_of h) payload s r s'" "interrupted s s' evs" "length h = 32"
    and "in_doubt operation (stored C cfg path_of s h) = {stored C cfg path_of s h, Some payload}"
  shows "half_done C cfg path_of h operation s (stopped_at s evs)"
proof (rule half_done_step [where e = "entry s' (path_of h)"])
  show "entry_at (fs_base s) evs (path_of h') = entry s (path_of h')
      \<or> h' = h \<and> entry_at (fs_base s) evs (path_of h) = entry s' (path_of h)" if "length h' = 32" for h'
    using assms(1,2) path_of_observable [OF that] path_of_inj [OF that assms(3)]
    unfolding windows_old_or_new_def by metis
  show "entry s (path_of h) = entry s' (path_of h) \<or> file_or_none (entry s' (path_of h))
      \<and> stored_entry C cfg (entry s' (path_of h)) \<in> in_doubt operation (stored C cfg path_of s h)"
    using assms(1,4) stored_entry_encoded [OF crc format] by (fastforce simp: windows_old_or_new_def)
qed

lemma windows_clear_half_done:
  assumes "windows_clear_blob W now cfg (path_of h) s = Some (r, s')" "interrupted s s' evs" "length h = 32"
    and "regular_store path_of s"
  shows "half_done C cfg path_of h (ClearOp reply) s (stopped_at s evs)"
proof -
  have "regular_or_absent s (path_of h)"
    using regular_entry [OF assms(4,3)] by (simp add: regular_or_absent_def file_or_none_def)
  note c = windows_clear_change(4) [OF windows_api_axioms drive to_hex_shape [OF assms(3)] path_of_blob this
      assms(1,2) path_of_observable]
  show ?thesis
    unfolding half_done_def entry_stopped_at
  proof (intro allI impI)
    fix h' :: key
    assume l: "length h' = 32"
    show "entry_at (fs_base s) evs (path_of h') = entry s (path_of h') \<or> h' = h
        \<and> file_or_none (entry_at (fs_base s) evs (path_of h))
        \<and> stored_entry C cfg (entry_at (fs_base s) evs (path_of h)) \<in> in_doubt (ClearOp reply) (stored C cfg path_of s h)"
      using c [OF l] path_of_inj [OF l assms(3)] by (auto simp: stored_def retimed_stored)
  qed
qed

lemma windows_removal_half_done:
  assumes "installs (\<lambda>_. True) us s s'" "interrupted s s' evs" "canonical_change path_of h s None s'"
  shows "half_done C cfg path_of h (QuarantineOp reply) s (stopped_at s evs)"
proof (rule half_done_step [where e = None])
  show "entry_at (fs_base s) evs (path_of h') = entry s (path_of h') \<or> h' = h \<and> entry_at (fs_base s) evs (path_of h) = None"
    if "length h' = 32" for h'
    using interrupted_installs [OF assms(1,2), of "path_of h'"] assms(3) that
    unfolding canonical_change_def by metis
qed simp

lemma windows_reads_quiet:
  assumes "windows_job C W B cfg now h operation s = Some (outcome, chunks, s')" "reads_only operation"
  shows "quiet V s s'"
  using assms
  by (cases rule: windows_job_cases) (auto dest: load_blob_quiet load_stream_quiet inspect_blob_quiet)

lemma windows_job_interrupted:
  assumes job: "windows_job C W B cfg now h operation s = Some (outcome, chunks, s')" and i: "interrupted s s' evs"
    and h: "length h = 32" and reg: "regular_store path_of s"
  shows "half_done C cfg path_of h operation s (stopped_at s evs)"
proof (cases "reads_only operation")
  case True
  from half_done_quiet [OF windows_reads_quiet [OF job True, of "\<lambda>_. True"] i] show ?thesis by simp
next
  case False
  from job show ?thesis
  proof (cases rule: windows_job_cases)
    case (save payload reply r)
    from windows_save_half_done [OF windows_save_blob_change [OF windows_api_axioms drive to_hex_shape [OF h]
          path_of_blob save(3)] i h] save(1)
    show ?thesis by simp
  next
    case (save_stream declared ms reply r left)
    from windows_save_stream_change [OF windows_api_axioms crc drive to_hex_shape [OF h] path_of_blob save_stream(3)]
    show ?thesis
    proof (elim disjE exE conjE)
      fix cs
      assume ms: "ms = map Chunk cs @ Complete # left" and o: "windows_old_or_new C cfg (path_of h) (concat cs) s r s'"
      show ?thesis by (rule windows_save_half_done [OF o i h]) (simp add: save_stream(1) ms stream_payload_complete)
    next
      assume "unseen cfg s s'"
      then show ?thesis using i path_of_observable by (intro half_done_same) (simp add: unseen_def)
    qed
  next
    case (clear reply r)
    from windows_clear_half_done [OF clear(3) i h reg] clear(1) show ?thesis by simp
  next
    case (quarantine reply r)
    from quarantine(3) h show ?thesis
    proof (cases rule: windows_quarantine_seen)
      case (moved us)
      from windows_removal_half_done [OF moved(1) i moved(2)] quarantine(1) show ?thesis by simp
    next
      case kept
      from half_done_quiet [OF kept(1) i] show ?thesis by simp
    qed
  qed (use False in simp_all)
qed

lemma windows_crash_backend: "crash_backend C cfg path_of (windows_job C W B cfg) (windows_sweep W cfg)"
proof (unfold_locales)
  show "half_done C cfg path_of h operation s (stopped_at s evs)"
    if "windows_job C W B cfg now h operation s = Some (outcome, chunks, s')" "interrupted s s' evs" "length h = 32"
      "regular_store path_of s"
    for now h operation s outcome chunks s' evs by (rule windows_job_interrupted [OF that])
  show "entry (stopped_at s evs) (path_of h) = entry s (path_of h)"
    if "windows_sweep W cfg now age s = (r, s')" "interrupted s s' evs" "length h = 32" for now age s r s' evs h
    using interrupted_quiet [OF windows_sweep_quiet [OF windows_api_axioms drive that(1)] that(2)]
      path_of_observable [OF that(3)] by simp
qed

end

sublocale windows_store \<subseteq> windows: crash_backend C cfg "windows_operation_path B cfg" "windows_job C W B cfg" "windows_sweep W cfg"
  by (rule windows_crash_backend)

end
