(* ===== verification/Client.thy ===== *)
theory Client
  imports EndToEnd
begin

text \<open>
  The blocking facade on a store at rest: with one client, a call does to the disk what the function of the
  file system behind it does, and returns its result; a program that saves, loads and closes.
\<close>

section \<open>What a client receives\<close>

text \<open>The values the coordinator sent on reply channels; a channel yields the first one.\<close>

fun said :: "action \<Rightarrow> (reply \<times> reply_value) list" where
  "said (Delivered _ operation result) = (case deliver operation result of None \<Rightarrow> [] | Some x \<Rightarrow> [x])"
| "said (Refused _ operation error) = [deliver_error operation error]"
| "said (Replied r v) = [(r, v)]"
| "said _ = []"

definition answer :: "action list \<Rightarrow> reply \<Rightarrow> reply_value option" where
  "answer acts r = map_of (view said acts) r"

fun as_load :: "reply_value \<Rightarrow> bytes option store_result option" where
  "as_load (LoadReply x) = Some x"
| "as_load _ = None"

fun as_unit :: "reply_value \<Rightarrow> unit store_result option" where
  "as_unit (UnitReply x) = Some x"
| "as_unit _ = None"

fun as_inspect :: "reply_value \<Rightarrow> blob_inspection store_result option" where
  "as_inspect (InspectReply x) = Some x"
| "as_inspect _ = None"

fun as_quarantine :: "reply_value \<Rightarrow> quarantine_info store_result option" where
  "as_quarantine (QuarantineReply x) = Some x"
| "as_quarantine _ = None"

fun as_cleanup :: "reply_value \<Rightarrow> cleanup_report store_result option" where
  "as_cleanup (CleanupReply x) = Some x"
| "as_cleanup _ = None"

text \<open>The environment of a wait between two states of the store.\<close>

definition client_env ::
  "(reply_value \<Rightarrow> 'a store_result option) \<Rightarrow> store \<Rightarrow> store \<Rightarrow> coordinator_join \<Rightarrow> 'a wait_env" where
  "client_env get z z' j = \<lparr>env_lifecycle = lifecycle (core (engine z')),
     env_received = (\<lambda>r. Option.bind (answer (drop (length (out (core (engine z)))) (out (core (engine z')))) r) get),
     env_join = j\<rparr>"

text \<open>One operation ran, from rest to rest, and left the disk \<open>s\<close>.\<close>

definition served :: "job \<Rightarrow> sweep \<Rightarrow> iteration_order \<Rightarrow> nat \<Rightarrow> store \<Rightarrow> key \<Rightarrow> operation \<Rightarrow> fs \<Rightarrow> store \<Rightarrow> bool" where
  "served job sweep order maximum z k operation s z' \<longleftrightarrow>
     store_reachable job sweep order maximum z z' \<and> at_rest z \<and> at_rest z' \<and> disk z' = s
     \<and> sent (engine z') = sent (engine z) @ [(k, operation)]"

text \<open>A call made at rest, that sends this operation, ends with this result and leaves this disk.\<close>

definition comes_to ::
  "job \<Rightarrow> sweep \<Rightarrow> iteration_order \<Rightarrow> nat \<Rightarrow> store \<Rightarrow> key \<Rightarrow> operation \<Rightarrow> (reply_value \<Rightarrow> 'a store_result option)
     \<Rightarrow> ('a wait_env \<Rightarrow> ('a store_result \<times> coordinator_join) option \<times> coordinator_event list)
     \<Rightarrow> 'a store_result \<times> fs \<Rightarrow> bool" where
  "comes_to job sweep order maximum z k operation get call outcome \<longleftrightarrow>
     (\<forall>j. \<exists>z'. served job sweep order maximum z k operation (snd outcome) z'
       \<and> call (client_env get z z' j) = (Some (fst outcome, j), [Submission k operation]))"

text \<open>The same for a call that sends another event than an operation.\<close>

definition administers ::
  "job \<Rightarrow> sweep \<Rightarrow> iteration_order \<Rightarrow> nat \<Rightarrow> store \<Rightarrow> coordinator_event \<Rightarrow> (reply_value \<Rightarrow> 'a store_result option)
     \<Rightarrow> ('a wait_env \<Rightarrow> ('a store_result \<times> coordinator_join) option \<times> coordinator_event list)
     \<Rightarrow> 'a store_result \<times> fs \<Rightarrow> bool" where
  "administers job sweep order maximum z event get call outcome \<longleftrightarrow>
     (\<forall>j. \<exists>z'. store_reachable job sweep order maximum z z' \<and> at_rest z' \<and> disk z' = snd outcome \<and> jobs_log z' = jobs_log z
       \<and> call (client_env get z z' j) = (Some (fst outcome, j), [event]))"

lemma flush_administers:
  assumes "at_rest z"
  shows "administers job sweep order maximum z (Flush r) as_unit (blocking_flush Open True Open r) (Ok (), disk z)"
proof -
  obtain z' where z': "store_reachable job sweep order maximum z z'" "at_rest z'" "disk z' = disk z" "jobs_log z' = jobs_log z"
    "out (core (engine z')) = out (core (engine z)) @ [Replied r (UnitReply (Ok ()))]"
    using flush_served [OF assms] by metis
  have "blocking_flush Open True Open r (client_env as_unit z z' j) = (Some (Ok (), j), [Flush r])" for j
    using z'(5) by (simp add: blocking_flush_def engine_flush_def wait_in_def answer_defs or_else_def client_env_def answer_def)
  with z' show ?thesis unfolding administers_def by auto
qed

lemma cleanup_administers:
  assumes "at_rest z" "0 < age" "sweep now (Some age) (disk z) = outcome"
  shows "administers job sweep order maximum z (Maintenance (Some age) r) as_cleanup
     (blocking_cleanup_stale_temporary_files Open True Open age r) outcome"
proof -
  obtain result s where o: "outcome = (result, s)" by (cases outcome)
  obtain z' where z': "store_reachable job sweep order maximum z z'" "at_rest z'" "disk z' = s" "jobs_log z' = jobs_log z"
    "out (core (engine z')) = out (core (engine z)) @ [StartedMaintenance (Some age) r, Replied r (CleanupReply result)]"
    using cleanup_served [where sweep = sweep and now = now, OF assms(1,2) assms(3) [unfolded o]] by metis
  have "blocking_cleanup_stale_temporary_files Open True Open age r (client_env as_cleanup z z' j)
      = (Some (result, j), [Maintenance (Some age) r])" for j
    using z'(5) assms(2) by (simp add: blocking_cleanup_stale_temporary_files_def cleanup_stale_temporary_files_def
        wait_in_def answer_defs or_else_def client_env_def answer_def)
  with z' show ?thesis unfolding administers_def o by auto
qed

lemma waits_for_reply:
  fixes E :: "'a wait_env"
  assumes "env_received E r = Some result"
  shows "wait_in E (case ensure_open Open of Err error \<Rightarrow> (resolved (Err error), [])
      | Ok _ \<Rightarrow> submit True Open k operation (Replies r)) = (Some (result, env_join E), [Submission k operation])"
  using assms by (simp add: wait_in_def answer_defs or_else_def)

context blob_backend
begin

lemma call_comes_to:
  assumes "hash_order order" "at_rest z" "0 < maximum" "length k = 32"
    and "\<exists>operation' result v. job now k operation (disk z) = Some (Some (operation', result), chunks, snd outcome)
      \<and> deliver operation' result = Some (r, v) \<and> get v = Some (fst outcome)"
    and call: "\<And>E. call E = wait_in E (case ensure_open Open of Err error \<Rightarrow> (resolved (Err error), [])
      | Ok _ \<Rightarrow> submit True Open k operation (Replies r))"
  shows "comes_to job sweep order maximum z k operation get call outcome"
proof -
  obtain operation' result v where job: "job now k operation (disk z) = Some (Some (operation', result), chunks, snd outcome)"
    and v: "deliver operation' result = Some (r, v)" "get v = Some (fst outcome)"
    using assms(5) by blast
  obtain z' where z': "store_reachable job sweep order maximum z z'" "at_rest z'" "disk z' = snd outcome"
    "out (core (engine z')) = out (core (engine z)) @ [Started k operation, Delivered k operation' result]"
    "sent (engine z') = sent (engine z) @ [(k, operation)]"
    using call_served [OF assms(1-4) job] by blast
  have "env_received (client_env get z z' j) r = Some (fst outcome)" for j
    using z'(4) v by (simp add: client_env_def answer_def)
  from waits_for_reply [where E = "client_env get z z' j" for j, OF this] show ?thesis
    using z' assms(2) unfolding comes_to_def call served_def by (auto simp: client_env_def)
qed

end

section \<open>Blocking calls\<close>

lemma blob_path_operation: "blob_path B cfg key = operation_path B cfg (key_hash B key)"
  by (simp add: blob_path_def operation_path_def blob_filename_def blob_file_def key_hash_def)

lemma blocking_comes_to:
  assumes "hash_order order" "unix_api U staged target" "crc32c_api C" "blake3_api B" "wf_format (cfg_format cfg)"
    and "at_rest z" "0 < maximum"
  shows "comes_to (unix_job C U B cfg) (unix_sweep OS cfg) order maximum z (key_hash B key) (LoadOp r) as_load
      (blocking_load B Open True Open key r) (load_blob C cfg (blob_path B cfg key) (disk z))"
    "comes_to (unix_job C U B cfg) (unix_sweep OS cfg) order maximum z (key_hash B key) (SaveOp payload r) as_unit
      (blocking_save B Open True Open key payload r) (save_blob C U cfg (blob_path B cfg key) payload (disk z))"
    "comes_to (unix_job C U B cfg) (unix_sweep OS cfg) order maximum z (key_hash B key) (ClearOp r) as_unit
      (blocking_clear B Open True Open key r) (clear_blob cfg (blob_path B cfg key) (disk z))"
    "comes_to (unix_job C U B cfg) (unix_sweep OS cfg) order maximum z (key_hash B key) (InspectOp r) as_inspect
      (blocking_inspect B Open True Open key r) (inspect_blob cfg (blob_path B cfg key) (disk z))"
    "quarantine_blob U cfg (blob_path B cfg key) (disk z) = Some quarantined \<Longrightarrow>
      comes_to (unix_job C U B cfg) (unix_sweep OS cfg) order maximum z (key_hash B key) (QuarantineOp r) as_quarantine
        (blocking_quarantine B Open True Open key r) quarantined"
proof -
  have k: "length (key_hash B key) = 32" using blake3_api.hash_length [OF assms(4)] by (simp add: key_hash_def)
  note answered = blob_backend.call_comes_to [OF unix_is_backend [OF assms(2-5), where OS = OS] assms(1,6,7) k,
      where now = 0 and chunks = "[]"]
  note job = unix_job_def run_owned_operation_def blob_path_operation split_beta
  note call = blocking_load_def blocking_save_def blocking_clear_def blocking_inspect_def blocking_quarantine_def
    engine_load_def engine_save_def engine_clear_def engine_inspect_def engine_quarantine_def
  show "comes_to (unix_job C U B cfg) (unix_sweep OS cfg) order maximum z (key_hash B key) (LoadOp r) as_load
      (blocking_load B Open True Open key r) (load_blob C cfg (blob_path B cfg key) (disk z))"
    "comes_to (unix_job C U B cfg) (unix_sweep OS cfg) order maximum z (key_hash B key) (SaveOp payload r) as_unit
      (blocking_save B Open True Open key payload r) (save_blob C U cfg (blob_path B cfg key) payload (disk z))"
    "comes_to (unix_job C U B cfg) (unix_sweep OS cfg) order maximum z (key_hash B key) (ClearOp r) as_unit
      (blocking_clear B Open True Open key r) (clear_blob cfg (blob_path B cfg key) (disk z))"
    "comes_to (unix_job C U B cfg) (unix_sweep OS cfg) order maximum z (key_hash B key) (InspectOp r) as_inspect
      (blocking_inspect B Open True Open key r) (inspect_blob cfg (blob_path B cfg key) (disk z))"
    by (rule answered; simp add: job call)+
  show "comes_to (unix_job C U B cfg) (unix_sweep OS cfg) order maximum z (key_hash B key) (QuarantineOp r) as_quarantine
        (blocking_quarantine B Open True Open key r) quarantined"
    if "quarantine_blob U cfg (blob_path B cfg key) (disk z) = Some quarantined"
    using that by (intro answered) (simp_all add: job call)
qed

text \<open>C15. For a single client the engine is transparent. On a store at rest a blocking call sends one operation,
  the coordinator and a worker run it, and the store is at rest again; the call returns what the function of
  the file system returns for the file of the key, and the disk is what that function leaves. A quarantine
  does so when its search for a free identifier returns. A flush is answered with success and leaves the
  disk, and a cleanup returns what the platform's cleanup returns.\<close>

theorem blocking_calls_run_operations:
  assumes "hash_order order" "unix_api U staged target" "crc32c_api C" "blake3_api B" "wf_format (cfg_format cfg)"
    and "at_rest z" "0 < maximum" and "quarantine_blob U cfg (blob_path B cfg key) (disk z) = Some quarantined" "0 < age"
  shows "comes_to (unix_job C U B cfg) (unix_sweep OS cfg) order maximum z (key_hash B key) (LoadOp r) as_load
      (blocking_load B Open True Open key r) (load_blob C cfg (blob_path B cfg key) (disk z))
    \<and> comes_to (unix_job C U B cfg) (unix_sweep OS cfg) order maximum z (key_hash B key) (SaveOp payload r) as_unit
        (blocking_save B Open True Open key payload r) (save_blob C U cfg (blob_path B cfg key) payload (disk z))
    \<and> comes_to (unix_job C U B cfg) (unix_sweep OS cfg) order maximum z (key_hash B key) (ClearOp r) as_unit
        (blocking_clear B Open True Open key r) (clear_blob cfg (blob_path B cfg key) (disk z))
    \<and> comes_to (unix_job C U B cfg) (unix_sweep OS cfg) order maximum z (key_hash B key) (InspectOp r) as_inspect
        (blocking_inspect B Open True Open key r) (inspect_blob cfg (blob_path B cfg key) (disk z))
    \<and> comes_to (unix_job C U B cfg) (unix_sweep OS cfg) order maximum z (key_hash B key) (QuarantineOp r) as_quarantine
        (blocking_quarantine B Open True Open key r) quarantined
    \<and> administers (unix_job C U B cfg) (unix_sweep OS cfg) order maximum z (Flush r) as_unit
        (blocking_flush Open True Open r) (Ok (), disk z)
    \<and> administers (unix_job C U B cfg) (unix_sweep OS cfg) order maximum z (Maintenance (Some age) r) as_cleanup
        (blocking_cleanup_stale_temporary_files Open True Open age r) (cleanup_stale_files OS cfg age (disk z))"
  using blocking_comes_to [OF assms(1-7)] assms(8) flush_administers [OF assms(6)]
    cleanup_administers [OF assms(6,9), where sweep = "unix_sweep OS cfg"]
  by (simp add: unix_sweep_def)

lemma zero_blob_path: "blob_path padded_digest golden_config [] = zero_path" "key_hash padded_digest [] = zero_key"
proof -
  show k: "key_hash padded_digest [] = zero_key" by (simp add: key_hash_def padded_digest_def zero_key_def numeral_eq_Suc)
  show "blob_path padded_digest golden_config [] = zero_path"
    by (simp add: blob_path_operation k zero_operation_path)
qed

lemma blocking_calls_run_operations_witness:
  "comes_to golden_job golden_sweep rotating_order 2 golden_start zero_key (ClearOp 3) as_unit
     (blocking_clear padded_digest Open True Open [] 3) (Ok (), zero_cleared)
   \<and> comes_to golden_job golden_sweep rotating_order 2 golden_start zero_key (QuarantineOp 3) as_quarantine
     (blocking_quarantine padded_digest Open True Open [] 3)
     (Ok \<lparr>qi_identifier = hex_encode (replicate 32 1), diagnostic_path = ones_path\<rparr>, zero_moved)
   \<and> administers golden_job golden_sweep rotating_order 2 golden_start (Flush 3) as_unit
     (blocking_flush Open True Open 3) (Ok (), zero_fs)"
proof -
  have wf: "wf_format (cfg_format golden_config)" using golden_wf by (simp add: golden_config_def)
  have d: "disk golden_start = zero_fs" by (simp add: store_new_def)
  have q: "quarantine_blob temp_lib golden_config (blob_path padded_digest golden_config []) (disk golden_start)
      = Some (Ok \<lparr>qi_identifier = hex_encode (replicate 32 1), diagnostic_path = ones_path\<rparr>, zero_moved)"
    using demo_quarantine by (simp only: zero_blob_path d)
  have m: "0 < (2 :: nat)" "0 < (1 :: nat)" by simp_all
  from blocking_calls_run_operations [OF rotating.hash_order_axioms temp.unix_api_axioms castagnoli.crc32c_api_axioms
      padded_digest.blake3_api_axioms wf new_at_rest m(1) q m(2), where OS = "''linux''" and r = 3]
  show ?thesis unfolding zero_blob_path d zero_clear by blast
qed

section \<open>A client program\<close>

text \<open>The close of a client alone: it waits for the answer and joins the coordinator.\<close>

definition joined :: coordinator_join where
  "joined = \<lparr>join_handle = None, join_result = Some Joined\<rparr>"

lemma close_comes_to:
  assumes "at_rest z"
  shows "\<exists>z'. store_reachable job sweep order maximum z z' \<and> stopped_normally z' \<and> disk z' = disk z
    \<and> blocking_close Open True Open r (client_env as_unit z z' (coordinator_join_new False)) = (Some (Ok (), joined), [Close r])"
proof -
  obtain z' where z': "store_reachable job sweep order maximum z z'" "stopped_normally z'" "disk z' = disk z"
    "out (core (engine z')) = out (core (engine z)) @ [Replied r (UnitReply (Ok ()))]"
    using close_served [OF assms] by metis
  then have "env_received (client_env as_unit z z' (coordinator_join_new False)) r = Some (Ok ())"
    by (simp add: client_env_def answer_def)
  then have "blocking_close Open True Open r (client_env as_unit z z' (coordinator_join_new False)) = (Some (Ok (), joined), [Close r])"
    by (simp add: blocking_close_def wait_in_def engine_close_def wait_def with_after_def with_disconnected_def or_else_def
        joined_def) (simp add: client_env_def finish_new)
  with z' show ?thesis by blast
qed

text \<open>The program of the consumer tests. On a store at rest a client saves a payload, loads it and closes the
  store. When the save of the file system succeeds, the client's save returns success, the load returns
  that payload or an error, the payload when the file system has no more faults, and the close returns
  success with the coordinator joined, the store stopped and the disk as the load left it.\<close>

theorem save_load_close:
  assumes "hash_order order" "unix_api U staged target" "crc32c_api C" "blake3_api B" "wf_config cfg"
    and "at_rest z" "0 < maximum" "save_blob C U cfg (blob_path B cfg key) payload (disk z) = (Ok (), s)"
  shows "\<exists>z1 z2 z3 found.
      served (unix_job C U B cfg) (unix_sweep OS cfg) order maximum z (key_hash B key) (SaveOp payload r) s z1
    \<and> blocking_save B Open True Open key payload r (client_env as_unit z z1 j)
        = (Some (Ok (), j), [Submission (key_hash B key) (SaveOp payload r)])
    \<and> served (unix_job C U B cfg) (unix_sweep OS cfg) order maximum z1 (key_hash B key) (LoadOp load_reply) (disk z2) z2
    \<and> blocking_load B Open True Open key load_reply (client_env as_load z1 z2 j)
        = (Some (found, j), [Submission (key_hash B key) (LoadOp load_reply)])
    \<and> load_blob C cfg (blob_path B cfg key) s = (found, disk z2)
    \<and> (\<forall>x. found = Ok x \<longrightarrow> x = Some payload) \<and> (calm s \<longrightarrow> found = Ok (Some payload))
    \<and> store_reachable (unix_job C U B cfg) (unix_sweep OS cfg) order maximum z2 z3
    \<and> stopped_normally z3 \<and> disk z3 = disk z2
    \<and> blocking_close Open True Open close_reply (client_env as_unit z2 z3 (coordinator_join_new False))
        = (Some (Ok (), joined), [Close close_reply])"
proof -
  have wf: "wf_format (cfg_format cfg)" using assms(5) by (simp add: wf_config_def)
  note runs = blocking_comes_to [OF assms(1-4) wf _ assms(7), where OS = OS and key = key]
  obtain z1 where z1: "served (unix_job C U B cfg) (unix_sweep OS cfg) order maximum z (key_hash B key) (SaveOp payload r) s z1"
    "blocking_save B Open True Open key payload r (client_env as_unit z z1 j)
        = (Some (Ok (), j), [Submission (key_hash B key) (SaveOp payload r)])"
    using runs(2) [OF assms(6), where payload = payload and r = r] assms(8) by (force simp: comes_to_def)
  then have rest1: "at_rest z1" and disk1: "disk z1 = s" by (simp_all add: served_def)
  obtain found s2 where l: "load_blob C cfg (blob_path B cfg key) s = (found, s2)" by fastforce
  obtain z2 where z2: "served (unix_job C U B cfg) (unix_sweep OS cfg) order maximum z1 (key_hash B key) (LoadOp load_reply) s2 z2"
    "blocking_load B Open True Open key load_reply (client_env as_load z1 z2 j)
        = (Some (found, j), [Submission (key_hash B key) (LoadOp load_reply)])"
    using runs(1) [OF rest1, where r = load_reply] l by (force simp: comes_to_def disk1)
  then have rest2: "at_rest z2" and disk2: "disk z2 = s2" by (simp_all add: served_def)
  obtain z3 where z3: "store_reachable (unix_job C U B cfg) (unix_sweep OS cfg) order maximum z2 z3"
    "stopped_normally z3" "disk z3 = disk z2"
    "blocking_close Open True Open close_reply (client_env as_unit z2 z3 (coordinator_join_new False)) = (Some (Ok (), joined), [Close close_reply])"
    using close_comes_to [OF rest2] by metis
  have "(\<forall>x. found = Ok x \<longrightarrow> x = Some payload) \<and> (calm s \<longrightarrow> found = Ok (Some payload))"
    using load_after_save [OF assms(2,3,5,8)] l by (metis fst_conv)
  with z1 z2 z3 disk2 l show ?thesis by blast
qed

lemma demo_save_at:
  assumes "dir_part p = ''/store/blobs''" "entry demo_fs (temp_path p) = None"
  shows "\<exists>s. save_blob castagnoli temp_lib golden_config p [0x61,0x62,0x63] demo_fs = (Ok (), s) \<and> calm s"
  using assms
  by (simp add: save_blob_def golden_config_def golden_parts open_atomic_writer_def temp_lib_def temp_open_def temp_write_def
      temp_commit_def commit_writer_def syscall_def record_event_def Let_def demo_fs_def [THEN arg_cong [where f = fs_faults]]
      demo_fs_def [THEN arg_cong [where f = fs_scripts]] calm_def)

lemma zero_saved:
  obtains s where "save_blob castagnoli temp_lib golden_config zero_path [0x61,0x62,0x63] demo_fs = (Ok (), s)" "calm s"
proof -
  have "dir_part zero_path = ''/store/blobs''"
    unfolding zero_path_def
    by (rule dir_part_join [OF padded_digest.blob_file_plain [OF golden_wf]]) simp_all
  moreover have "entry demo_fs (temp_path zero_path) = None"
  proof -
    have "82 < length (temp_path zero_path)" using quarantine_lengths(1) by (simp add: temp_path_def)
    then have "temp_path zero_path \<noteq> ''/store''" "temp_path zero_path \<noteq> ''/store/blobs''" by auto
    then show ?thesis by (simp add: entry_def demo_fs_def)
  qed
  ultimately show thesis using demo_save_at that by blast
qed

end
