(* ===== verification/Restart.thy ===== *)
theory Restart
  imports Interruption Client
begin

text \<open>
  A crash of the process and the run after it. The workers may be in the middle of any number of jobs when
  the process is killed; the next process starts on the disk they left. What was acknowledged before the
  crash is there afterwards, and a load of the next run returns it.
\<close>

section \<open>A crash\<close>

text \<open>The jobs and the maintenance that run are cut off, those that did not begin leave nothing. They have
  different keys, so the calls of one change no canonical entry of another, and the model cuts them off
  one after the other, in any order; between two of them, and before the next process starts, the faults
  and the scripts of the file system may be any.\<close>

definition same_disk :: "fs \<Rightarrow> fs \<Rightarrow> bool" where
  "same_disk s s' \<longleftrightarrow> fs_base s' = fs_base s \<and> fs_log s' = fs_log s"

lemma same_disk_refl [simp]: "same_disk s s"
  by (simp add: same_disk_def)

lemma same_disk_entry: "same_disk s s' \<Longrightarrow> entry s' = entry s"
  by (rule ext) (simp add: same_disk_def entry_def)

inductive cut_off :: "job \<Rightarrow> sweep \<Rightarrow> (key \<times> operation) list \<Rightarrow> (nat option \<times> reply) list \<Rightarrow> fs \<Rightarrow> fs \<Rightarrow> bool"
  for job :: job and sweep :: sweep where
  cut_none: "same_disk s d \<Longrightarrow> cut_off job sweep ops ages s d"
| cut_job: "job now k operation s = Some (outcome, chunks, s') \<Longrightarrow> interrupted s s' evs \<Longrightarrow>
    same_disk (stopped_at s evs) s1 \<Longrightarrow> cut_off job sweep (us @ vs) ages s1 d \<Longrightarrow>
    cut_off job sweep (us @ (k, operation) # vs) ages s d"
| cut_sweep: "sweep now age s = (result, s') \<Longrightarrow> interrupted s s' evs \<Longrightarrow>
    same_disk (stopped_at s evs) s1 \<Longrightarrow> cut_off job sweep ops (us @ vs) s1 d \<Longrightarrow>
    cut_off job sweep ops (us @ (age, r) # vs) s d"

definition crashed :: "job \<Rightarrow> sweep \<Rightarrow> store \<Rightarrow> fs \<Rightarrow> bool" where
  "crashed job sweep z d \<longleftrightarrow> cut_off job sweep (running (engine z)) (upkeep (engine z)) (disk z) d"

lemma crashed_idle: "same_disk (disk z) d \<Longrightarrow> crashed job sweep z d"
  by (simp add: crashed_def cut_none)

text \<open>The payload of a key is the one it had, or one its own running operation can have left.\<close>

definition in_doubt_only ::
  "crc32c_lib \<Rightarrow> store_config \<Rightarrow> (key \<Rightarrow> path) \<Rightarrow> (key \<times> operation) list \<Rightarrow> fs \<Rightarrow> fs \<Rightarrow> bool" where
  "in_doubt_only C cfg P ops s d \<longleftrightarrow> (\<forall>k. length k = 32 \<longrightarrow> stored C cfg P d k = stored C cfg P s k
     \<or> (\<exists>operation. (k, operation) \<in> set ops \<and> stored C cfg P d k \<in> in_doubt operation (stored C cfg P s k)))"

lemma same_canonical:
  assumes "\<And>k. length k = 32 \<Longrightarrow> entry s' (P k) = entry s (P k)" "regular_store P s"
  shows "regular_store P s' \<and> (\<forall>k. length k = 32 \<longrightarrow> stored C cfg P s' k = stored C cfg P s k)"
  using assms by (simp add: regular_store_def stored_def)

lemma half_done_effect:
  assumes "half_done C cfg P k operation s s'" "regular_store P s" "length k = 32"
  shows "regular_store P s'" "stored C cfg P s' k \<in> in_doubt operation (stored C cfg P s k)"
    "length h = 32 \<Longrightarrow> h \<noteq> k \<Longrightarrow> stored C cfg P s' h = stored C cfg P s h"
proof -
  have e: "entry s' (P h) = entry s (P h) \<or> h = k \<and> file_or_none (entry s' (P k))
      \<and> stored_entry C cfg (entry s' (P k)) \<in> in_doubt operation (stored C cfg P s k)" if "length h = 32" for h
    using assms(1) that by (simp add: half_done_def)
  show "regular_store P s'" using e assms(2) unfolding regular_store_def by metis
  show "stored C cfg P s' k \<in> in_doubt operation (stored C cfg P s k)"
    using e [OF assms(3)] by (auto simp: stored_def)
  show "stored C cfg P s' h = stored C cfg P s h" if "length h = 32" "h \<noteq> k"
    using e [OF that(1)] that(2) by (simp add: stored_def)
qed

lemma distinct_firsts:
  assumes "\<And>us k v vs. xs = us @ (k, v) # vs \<Longrightarrow> k \<notin> fst ` set vs"
  shows "distinct (map fst xs)"
  using assms
proof (induction xs)
  case (Cons x xs)
  have "fst x \<notin> fst ` set xs" using Cons.prems [of "[]" "fst x" "snd x" xs] by simp
  moreover have "distinct (map fst xs)"
    by (rule Cons.IH, rule Cons.prems [of "x # _"]) simp
  ultimately show ?case by simp
qed simp

context crash_backend
begin

lemma cut_off_values:
  assumes "cut_off job sweep ops ages s d" "digests ops" "distinct (map fst ops)" "regular_store P s"
  shows "regular_store P d \<and> in_doubt_only C cfg P ops s d"
  using assms
proof (induction rule: cut_off.induct)
  case (cut_none d s ops ages)
  then show ?case by (simp add: same_disk_entry regular_store_def in_doubt_only_def stored_def)
next
  case (cut_job now k operation s outcome chunks s' evs s1 us vs ages d)
  have k: "length k = 32" "digests (us @ vs)" "distinct (map fst (us @ vs))" "k \<notin> fst ` set (us @ vs)"
    using cut_job.prems(1,2) by (auto simp: digests_def)
  have "half_done C cfg P k operation s s1"
    using job_interrupted [OF cut_job.hyps(1,2) k(1) cut_job.prems(3)] same_disk_entry [OF cut_job.hyps(3)]
    by (simp add: half_done_def)
  note h = half_done_effect [OF this cut_job.prems(3) k(1)]
  from cut_job.IH [OF k(2,3) h(1)] have ih: "regular_store P d" "in_doubt_only C cfg P (us @ vs) s1 d" by simp_all
  have "stored C cfg P d k = stored C cfg P s1 k" using ih(2) k(1,4) by (force simp: in_doubt_only_def)
  with ih h(2,3) show ?case by (auto simp: in_doubt_only_def) metis+
next
  case (cut_sweep now age s result s' evs s1 ops us vs r d)
  have same: "entry s1 (P h) = entry s (P h)" if "length h = 32" for h
    using sweep_interrupted [OF cut_sweep.hyps(1,2) that] same_disk_entry [OF cut_sweep.hyps(3)] by simp
  note c = same_canonical [OF same cut_sweep.prems(3), of C cfg]
  from c cut_sweep.IH [OF cut_sweep.prems(1,2)] show ?case by (simp add: in_doubt_only_def)
qed

lemma running_digests:
  assumes "store_inv C cfg P s0 z" "system_inv maximum (engine z)"
  shows "digests (running (engine z))" "distinct (map fst (running (engine z)))"
proof -
  have "length k = 32" if "(k, operation) \<in> set (running (engine z))" for k operation
    using running_sent [OF assms(2) that] assms(1) of_key_digest by (auto simp: store_inv_def)
  then show "digests (running (engine z))" by (auto simp: digests_def list_all_iff)
  show "distinct (map fst (running (engine z)))"
  proof (rule distinct_firsts)
    fix us k operation vs
    assume "running (engine z) = us @ (k, operation) # vs"
    from running_once(2) [OF assms(2) this] show "k \<notin> fst ` set vs" by (auto simp: of_key_def filter_empty_conv)
  qed
qed

lemma crash_values:
  assumes "hash_order order" "regular_store P s0"
    and "store_reachable job sweep order maximum (store_new (started maximum spawns panics) s0) z"
    and "crashed job sweep z d"
  shows "regular_store P d" "in_doubt_only C cfg P (running (engine z)) (disk z) d"
proof -
  have inv: "store_inv C cfg P s0 z" by (rule store_reachable_inv [OF assms(1-3)])
  note r = running_digests [OF inv reachable_inv [OF assms(1) store_reachable_engine [OF assms(3)]]]
  have "regular_store P (disk z)" using inv by (simp add: store_inv_def)
  with cut_off_values [OF assms(4) [unfolded crashed_def] r]
  show "regular_store P d" "in_doubt_only C cfg P (running (engine z)) (disk z) d" by simp_all
qed

end

lemma platform_crash_backend:
  "platform U staged target OS W opened C B cfg P job sweep \<Longrightarrow> crash_backend C cfg P job sweep"
  unfolding platform_def
  by (auto intro!: unix_store.unix_crash_backend windows_store.windows_crash_backend
      simp: unix_store_def windows_store_def windows_store_axioms_def entry_store_def store_paths_def store_paths_axioms_def drive_config_def)

section \<open>Crash consistency\<close>

text \<open>C6. A crash leaves the values of the acknowledged operations. In any state of the store, with any jobs
  running, whatever the crash cuts off: every result a client has received is that of a logged job; the
  logged jobs, one after the other, give a map; and the payloads on the disk the crash leaves are those of
  that map, except that a key with a running save, clear or quarantine may have the payload this operation
  was to leave, never part of it. Every canonical path is still free of anything but regular files.\<close>

theorem crash_consistent:
  assumes "hash_order order" "platform U staged target OS W opened C B cfg P job sweep" "regular_store P s"
    and "store_reachable job sweep order maximum (store_new (started maximum spawns panics) s) z"
    and "crashed job sweep z d"
  shows "regular_store P d
    \<and> (\<forall>k. prefix (of_key k (view delivered_result (out (core (engine z))))) (of_key k (view log_result (jobs_log z))))
    \<and> (\<exists>m. map_run (store_view C cfg P s) (view log_entry (jobs_log z)) m
        \<and> (\<forall>k. length k = 32 \<longrightarrow> store_view C cfg P d k = m k
             \<or> (\<exists>operation. (k, operation) \<in> set (running (engine z)) \<and> store_view C cfg P d k \<in> in_doubt operation (m k))))"
proof (intro conjI exI)
  note crash = crash_backend.crash_values [OF platform_crash_backend [OF assms(2)] assms(1,3-5)]
  note linear = blob_backend.linearization [OF platform_backend [OF assms(2)] assms(1,3,4)]
  show "regular_store P d" by (rule crash(1))
  show "\<forall>k. prefix (of_key k (view delivered_result (out (core (engine z))))) (of_key k (view log_result (jobs_log z)))"
    unfolding linear(4) by simp
  show "map_run (store_view C cfg P s) (view log_entry (jobs_log z)) (store_view C cfg P (disk z))" by (rule linear(1))
  show "\<forall>k. length k = 32 \<longrightarrow> store_view C cfg P d k = store_view C cfg P (disk z) k \<or> (\<exists>operation.
      (k, operation) \<in> set (running (engine z)) \<and> store_view C cfg P d k \<in> in_doubt operation (store_view C cfg P (disk z) k))"
    using crash(2) by (simp add: in_doubt_only_def store_view_def)
qed

text \<open>A clear of the namespace with one file is cut off between the removal and the synchronization.\<close>

lemma golden_cut:
  obtains z where "store_reachable golden_job golden_sweep rotating_order 2 golden_start z" "jobs_log z = []"
    "running (engine z) = [(zero_key, ClearOp 0)]" "disk z = zero_fs"
    "crashed golden_job golden_sweep z (stopped_at zero_fs [Update [(zero_path, None)]])"
proof -
  have l: "length zero_key = 32" by (simp add: zero_key_def)
  obtain c where z: "store_reachable golden_job golden_sweep rotating_order 2 golden_start
      (golden_start\<lparr>engine := (engine golden_start)\<lparr>channel := [], sent := sent (engine golden_start) @ [(zero_key, ClearOp 0)],
         core := c, running := [(zero_key, ClearOp 0)]\<rparr>\<rparr>)" (is "store_reachable _ _ _ _ _ ?z")
    by (rule call_started [OF rotating.hash_order_axioms new_at_rest [of 2 zero_fs] _ l,
          where maximum = 2 and job = golden_job and sweep = golden_sweep and operation = "ClearOp 0"]) simp_all
  have i: "interrupted zero_fs zero_cleared [Update [(zero_path, None)]]"
    by (simp add: interrupted_def zero_cleared_def zero_fs_def demo_fs_def suffix_def)
  have "cut_off golden_job golden_sweep ([] @ (zero_key, ClearOp 0) # []) [] zero_fs
      (stopped_at zero_fs [Update [(zero_path, None)]])"
    by (rule cut_job [of golden_job 0, OF golden_clear i], rule same_disk_refl) (simp add: cut_none)
  then show thesis
    by (intro that [of ?z] z) (simp_all add: store_new_def system_new_def crashed_def)
qed

lemma crash_consistent_witness:
  "\<exists>z d. crashed golden_job golden_sweep z d \<and> running (engine z) = [(zero_key, ClearOp 0)]
     \<and> entry (disk z) zero_path \<noteq> None \<and> entry d zero_path = None \<and> regular_store golden_paths_of d"
proof -
  obtain z where z: "store_reachable golden_job golden_sweep rotating_order 2 golden_start z"
    "running (engine z) = [(zero_key, ClearOp 0)]" "disk z = zero_fs"
    "crashed golden_job golden_sweep z (stopped_at zero_fs [Update [(zero_path, None)]])"
    by (rule golden_cut)
  from crash_consistent [OF rotating.hash_order_axioms golden_platform zero_regular z(1,4)] z show ?thesis
    by (intro exI [of _ z] exI [of _ "stopped_at zero_fs [Update [(zero_path, None)]]"]) simp
qed

section \<open>The next run\<close>

lemma logged_value:
  assumes "blob_backend C cfg P job sweep" "hash_order order" "regular_store P s"
    and "store_reachable job sweep order maximum (store_new (started maximum spawns panics) s) z"
  shows "store_view C cfg P (disk z) k \<in> key_values (of_key k (view log_entry (jobs_log z))) {store_view C cfg P s k}"
  by (rule map_run_key_values [OF blob_backend.linearization(1) [OF assms]])

text \<open>C5. What was acknowledged before a crash is read after it. When the jobs of a key ended with a save, a
  streaming save, a clear or a quarantine that succeeded and then only loads and inspections, the process is
  killed in the middle of any jobs, and the next process, on the disk the crash left, loads the key before
  it changes it, then a load that succeeds returns the payload saved, or none after a clear or a quarantine.
  Only a change of this key that the crash cut off can have replaced it: the load returns what that one was
  to leave, whole, or still the old value.\<close>

theorem restart_sees_last_write:
  assumes "hash_order order" "platform U staged target OS W opened C B cfg P job sweep" "regular_store P s"
    and "store_reachable job sweep order maximum (store_new (started maximum spawns panics) s) z"
    and "of_key k (view log_entry (jobs_log z)) = before @ (operation, result) # reads"
    and "settled_value operation result = Some v" "list_all (\<lambda>(operation, _). reads_only operation) reads"
    and "length k = 32"
    and "crashed job sweep z d"
    and "hash_order order'"
    and "store_reachable job sweep order' maximum' (store_new (started maximum' spawns' panics') d) z'"
    and "of_key k (view log_entry (jobs_log z')) = reads' @ (LoadOp r, LoadResult (Ok found)) # after"
    and "list_all (\<lambda>(operation, _). reads_only operation) reads'"
  shows "(found = v \<or> (\<exists>change \<in> set (of_key k (running (engine z))). \<not> reads_only change \<and> found \<in> in_doubt change v))
    \<and> (list_all reads_only (of_key k (running (engine z))) \<longrightarrow> found = v)"
proof -
  note backend = platform_backend [OF assms(2)]
  note crash = crash_backend.crash_values [OF platform_crash_backend [OF assms(2)] assms(1,3,4,9)]
  have "key_values (before @ (operation, result) # reads) {store_view C cfg P s k} \<subseteq> {v}"
    using reads_keep [OF assms(7)] settled_effect [OF assms(6)] by auto
  with logged_value [OF backend assms(1,3,4), of k] assms(5,8) have "stored C cfg P (disk z) k = v"
    by (auto simp: store_view_def)
  with crash(2) assms(8) have d: "stored C cfg P d k = v
      \<or> (\<exists>change \<in> set (of_key k (running (engine z))). stored C cfg P d k \<in> in_doubt change v)"
    by (fastforce simp: in_doubt_only_def in_set_of_key)
  have "{store_view C cfg P d k} \<subseteq> {stored C cfg P d k}" using assms(8) by (simp add: store_view_def)
  from load_after_reads [OF _ this assms(13)] logged_value [OF backend assms(10) crash(1) assms(11), of k] assms(12)
  have "found = stored C cfg P d k" by metis
  with d reads_not_in_doubt show ?thesis by (fastforce simp: list_all_iff)
qed

text \<open>A client saves a payload, then loads it; the process is killed in this load, and the next one loads it.\<close>

lemma demo_regular: "regular_store golden_paths_of demo_fs"
proof -
  have "length zero_path \<noteq> length ''/store''" by (simp add: quarantine_lengths(1))
  then have "zero_path \<noteq> ''/store''" by metis
  then have "entry demo_fs q = (if q = zero_path then None else entry zero_fs q)" for q
    using zero_entries(6) by (simp add: zero_fs_def demo_fs_def entry_def)
  with zero_regular show ?thesis by (simp add: regular_store_def)
qed

lemma golden_saved_run:
  obtains s z z' where "calm s" "disk z = s" "running (engine z) = [(zero_key, LoadOp 1)]"
    "store_reachable golden_job golden_sweep rotating_order 2 (store_new (started 2 [] []) demo_fs) z"
    "jobs_log z = [(zero_key, SaveOp [0x61,0x62,0x63] 0, Some (SaveOp [0x61,0x62,0x63] 0, SaveResult (Ok ())))]"
    "store_reachable golden_job golden_sweep rotating_order 2 (store_new (started 2 [] []) s) z'"
    "jobs_log z' = [(zero_key, LoadOp 2, Some (LoadOp 2, LoadResult (Ok (Some [0x61,0x62,0x63]))))]"
proof -
  note served = blob_backend.call_served [OF platform_backend [OF golden_platform] rotating.hash_order_axioms]
  have l: "length zero_key = 32" by (simp add: zero_key_def)
  obtain s where s: "save_blob castagnoli temp_lib golden_config zero_path [0x61,0x62,0x63] demo_fs = (Ok (), s)" "calm s"
    by (rule zero_saved)
  let ?save = "SaveOp [0x61,0x62,0x63] 0"
  have job: "golden_job 0 zero_key ?save demo_fs = Some (Some (?save, SaveResult (Ok ())), [], s)"
    using s by (simp add: unix_job_def run_owned_operation_def zero_operation_path)
  obtain y where y: "store_reachable golden_job golden_sweep rotating_order 2 (store_new (started 2 [] []) demo_fs) y"
    "at_rest y" "disk y = s" "jobs_log y = [(zero_key, ?save, Some (?save, SaveResult (Ok ())))]"
    using served [where maximum = 2 and now = 0 and operation = ?save and operation' = ?save
        and result = "SaveResult (Ok ())" and s = s, OF new_at_rest [of 2 demo_fs] _ l] job
    by (auto simp: store_new_def)
  obtain z where z: "store_reachable golden_job golden_sweep rotating_order 2 y z" "disk z = s"
    "running (engine z) = [(zero_key, LoadOp 1)]" "jobs_log z = jobs_log y"
    by (rule call_started [OF rotating.hash_order_axioms y(2) _ l,
          where maximum = 2 and job = golden_job and sweep = golden_sweep and operation = "LoadOp 1"])
       (use y(3) in simp_all)
  obtain found s' where load: "load_blob castagnoli golden_config zero_path s = (found, s')" by fastforce
  have "found = Ok (Some [0x61,0x62,0x63])"
    using load_after_save [OF temp.unix_api_axioms castagnoli.crc32c_api_axioms golden_config_wf s(1)] s(2) load
    by (metis fst_conv)
  with load have job': "golden_job 0 zero_key (LoadOp 2) s
      = Some (Some (LoadOp 2, LoadResult (Ok (Some [0x61,0x62,0x63]))), [], s')"
    by (simp add: unix_job_def run_owned_operation_def zero_operation_path)
  obtain z' where z': "store_reachable golden_job golden_sweep rotating_order 2 (store_new (started 2 [] []) s) z'"
    "jobs_log z' = [(zero_key, LoadOp 2, Some (LoadOp 2, LoadResult (Ok (Some [0x61,0x62,0x63]))))]"
    using served [where maximum = 2 and now = 0 and operation = "LoadOp 2" and operation' = "LoadOp 2"
        and result = "LoadResult (Ok (Some [0x61,0x62,0x63]))" and s = s', OF new_at_rest [of 2 s] _ l] job'
    by (auto simp: store_new_def)
  show thesis
    by (rule that [OF s(2) z(2,3) store_reachable_trans [OF z(1) y(1)] _ z']) (simp add: z(4) y(4))
qed

lemma restart_sees_last_write_witness:
  "\<exists>z d z'. store_reachable golden_job golden_sweep rotating_order 2 (store_new (started 2 [] []) demo_fs) z
     \<and> running (engine z) = [(zero_key, LoadOp 1)] \<and> crashed golden_job golden_sweep z d
     \<and> store_reachable golden_job golden_sweep rotating_order 2 (store_new (started 2 [] []) d) z'
     \<and> (\<exists>found. of_key zero_key (view log_entry (jobs_log z')) = [(LoadOp 2, LoadResult (Ok found))])
     \<and> (\<forall>found. of_key zero_key (view log_entry (jobs_log z')) = [] @ (LoadOp 2, LoadResult (Ok found)) # [] \<longrightarrow>
          found = Some [0x61,0x62,0x63])"
proof -
  have l: "length zero_key = 32" by (simp add: zero_key_def)
  obtain s z z' where z: "disk z = s" "running (engine z) = [(zero_key, LoadOp 1)]"
    "store_reachable golden_job golden_sweep rotating_order 2 (store_new (started 2 [] []) demo_fs) z"
    "jobs_log z = [(zero_key, SaveOp [0x61,0x62,0x63] 0, Some (SaveOp [0x61,0x62,0x63] 0, SaveResult (Ok ())))]"
    and z': "store_reachable golden_job golden_sweep rotating_order 2 (store_new (started 2 [] []) s) z'"
    "jobs_log z' = [(zero_key, LoadOp 2, Some (LoadOp 2, LoadResult (Ok (Some [0x61,0x62,0x63]))))]"
    by (rule golden_saved_run)
  have crash: "crashed golden_job golden_sweep z s" by (rule crashed_idle) (simp add: z(1))
  have "found = Some [0x61,0x62,0x63]"
    if "of_key zero_key (view log_entry (jobs_log z')) = [] @ (LoadOp 2, LoadResult (Ok found)) # []" for found
    by (rule restart_sees_last_write [OF rotating.hash_order_axioms golden_platform demo_regular z(3) _ _ _ l crash
          rotating.hash_order_axioms z'(1) that, THEN conjunct2, rule_format, where before = "[]" and reads = "[]"
          and operation = "SaveOp [0x61,0x62,0x63] 0" and result = "SaveResult (Ok ())"])
       (use z(2,4) in simp_all)
  with z(2,3) crash z' show ?thesis
    by (intro exI [of _ z] exI [of _ s] exI [of _ z'] conjI) auto
qed

end
