(* ===== verification/Durability.thy ===== *)
theory Durability
  imports Restart
begin

text \<open>
  Power loss, on Unix. Of synchronization only the repository's own calls are used: a directory that was
  opened and synchronized (\<open>File::sync_all\<close>) keeps the entries it had. \<open>clear_blob\<close> and \<open>quarantine_blob\<close>
  make that call; of the crate \<open>atomic-write-file\<close> no synchronization of a directory is assumed, since the
  repository documents that of the staging file only. The locale \<open>durable_backend\<close> extends the contract
  of the jobs accordingly. Inside it: what a power loss leaves of a key is a payload the key had, whole,
  and none from before the last job that synchronized the directory.
\<close>

section \<open>Interruptions and power loss\<close>








section \<open>The contract\<close>







section \<open>What a power loss leaves of the log\<close>







section \<open>Synchronized directories\<close>






section \<open>Unix\<close>







section \<open>After a power loss\<close>





section \<open>A clear that is retried\<close>

text \<open>A clear that found nothing is no synchronization in the theorem above, for a reason. The branch of
  \<open>clear_blob\<close> for a file that is already gone (\<open>src/filesystem/mod.rs\<close>, \<open>NotFound\<close>) synchronizes nothing. When
  the first call removed the file but its synchronization failed, the caller's second call succeeds at
  once, and a power loss can still bring the blob back.\<close>

definition clear_faults :: fs where
  "clear_faults = demo_saved\<lparr>fs_faults := [None, None, Some 5]\<rparr>"

definition removed_once :: fs where
  "removed_once = demo_saved\<lparr>fs_log := Update [(demo_path, None)] # fs_log demo_saved\<rparr>"

lemma removed_once_simps:
  "fs_faults removed_once = []" "entry removed_once demo_path = None"
  "entry removed_once ''/store/blobs'' = Some DirNode"
proof -
  have r: "removed_once = record_event (Update [(demo_path, None)]) demo_saved"
    by (simp add: removed_once_def record_event_def)
  show "fs_faults removed_once = []" "entry removed_once demo_path = None"
    "entry removed_once ''/store/blobs'' = Some DirNode" by (simp_all add: r)
qed

lemma first_clear:
  "clear_blob golden_config demo_path clear_faults = (io_err SyncNamespaceDirectory (errno 5), removed_once)"
  by (simp add: clear_blob_def clear_faults_def fs_remove_file_def syscall_def sync_directory_def file_open_def
      resolve_dir open_node_def sync_all_def fault_code_def errno_defs)
     (simp add: removed_once_def record_event_def)

lemma second_clear: "clear_blob golden_config demo_path removed_once = (Ok (), removed_once)"
  by (simp add: clear_blob_def fs_remove_file_def syscall_def removed_once_simps ensure_namespace_available_def
      fs_metadata_def resolve_dir resolve.simps)

lemma retried_clear_not_synchronized:
  "\<exists>e. clear_blob golden_config demo_path clear_faults = (Err e, removed_once)
     \<and> clear_blob golden_config demo_path removed_once = (Ok (), removed_once)
     \<and> Some (FileNode golden_valid None) \<in> after_power_loss removed_once demo_path"
proof -
  have "Some (FileNode golden_valid None) \<in> after_power_loss removed_once demo_path"
    using entry_after_power_loss [of demo_saved demo_path]
    by (simp add: after_power_loss_def removed_once_def)
  with first_clear second_clear show ?thesis by (simp add: io_err_def)
qed

end
