(* ===== verification/Lifecycle.thy ===== *)
theory Lifecycle
  imports Client EngineProps
begin

text \<open>
  The program of \<open>consumer-tests/src/lib.rs\<close> as a whole, and a second process after it: open, save, load,
  close, then open the same namespace again and load.
\<close>

section \<open>Opening again\<close>

lemma blob_path_not_namespace:
  assumes "blake3_api B" "wf_format (cfg_format cfg)"
  shows "blob_path B cfg key \<noteq> cfg_namespace cfg"
proof -
  have plain: "plain_name (blob_file B (cfg_format cfg) (key_hash B key))"
    using blake3_api.blob_file_plain [OF assms] blake3_api.hash_length [OF assms(1)] by (simp add: key_hash_def)
  then have "length (cfg_namespace cfg) < length (path_join (cfg_namespace cfg) (blob_file B (cfg_format cfg) (key_hash B key)))"
    by (simp add: path_join_plain plain_name_def)
  then show ?thesis by (auto simp: blob_path_operation operation_path_def)
qed

text \<open>From an absolute root the same arguments give the same configuration.\<close>

lemma reopened_config:
  assumes "wf_format (opt_format options)" "0 < opt_max_concurrent_operations options" "is_absolute root"
    and "engine_open spawned spawns panics root namespace options s = (Ok (cfg, c), s0)"
    and "engine_open spawned' spawns' panics' root namespace options d = (Ok (cfg', c'), d')"
  shows "cfg' = cfg"
proof -
  obtain component absolute where a: "validate_namespace namespace = Ok component" "resolved_root root s absolute"
    "initialized absolute component (opt_format options) (opt_max_blob_size options)
       (opt_max_concurrent_operations options) cfg"
    by (rule engine_open_Ok [OF assms(1,2,4)])
  obtain component' absolute' where b: "validate_namespace namespace = Ok component'" "resolved_root root d absolute'"
    "initialized absolute' component' (opt_format options) (opt_max_blob_size options)
       (opt_max_concurrent_operations options) cfg'"
    by (rule engine_open_Ok [OF assms(1,2,5)])
  have "absolute' = absolute" "component' = component"
    using a(1,2) b(1,2) assms(3) by (simp_all add: resolved_root_def)
  with a(3) b(3) show ?thesis by (simp add: initialized_def)
qed

lemma load_saved_entry:
  assumes "unix_api U staged target" "crc32c_api C" "wf_config cfg"
    and "save_blob C U cfg p payload s = (Ok (), s1)" "entry d p = entry s1 p" "load_blob C cfg p d = (Ok x, d')"
  shows "x = Some payload"
proof -
  have fmt: "wf_format (cfg_format cfg)" "length (domain_tag (cfg_format cfg)) = 8"
    using assms(3) by (auto simp: wf_config_def wf_format_def)
  from save_outcome_entries [OF unix_api.save_blob_outcome [OF assms(1,4)]] obtain bs t where
    bs: "encode_envelope C (cfg_format cfg) payload (cfg_maximum cfg) = Ok bs"
    and e: "entry s1 p = Some (FileNode bs t)" by (auto simp: old_or_new_def)
  from load_blob_file [OF assms(2) fmt(1) assms(6), of bs t] assms(5) e bs show ?thesis
    by (auto simp: crc32c_api.parse_iff_encode [OF assms(2) fmt(2), symmetric])
qed

section \<open>The program\<close>

text \<open>C16. The life of a store. A client opens a namespace below an absolute root, saves a payload, loads it and
  closes the store; then another process opens the same namespace. When the first opening and the save of
  the file system succeed, the client's save returns success, its load returns the payload or an error, the
  payload when the file system has no more faults, and its close returns success with the coordinator
  joined and the store stopped. A second opening that succeeds has the same configuration, and a load in
  it returns the payload or an error.\<close>

theorem open_save_close_reopen:
  assumes "hash_order order" "unix_api U staged target" "crc32c_api C" "blake3_api B"
    and "wf_format (opt_format options)" "0 < opt_max_concurrent_operations options" "is_absolute root"
    and "blocking_open None [] [] root namespace options s = (Ok (cfg, c), s0)"
    and "save_blob C U cfg (blob_path B cfg key) payload s0 = (Ok (), s1)"
    and "maximum = opt_max_concurrent_operations options"
  shows "\<exists>z1 z2 z3 found.
      served (unix_job C U B cfg) (unix_sweep OS cfg) order maximum (store_new c s0) (key_hash B key) (SaveOp payload r) s1 z1
    \<and> blocking_save B Open True Open key payload r (client_env as_unit (store_new c s0) z1 j)
        = (Some (Ok (), j), [Submission (key_hash B key) (SaveOp payload r)])
    \<and> served (unix_job C U B cfg) (unix_sweep OS cfg) order maximum z1 (key_hash B key) (LoadOp load_reply) (disk z2) z2
    \<and> blocking_load B Open True Open key load_reply (client_env as_load z1 z2 j)
        = (Some (found, j), [Submission (key_hash B key) (LoadOp load_reply)])
    \<and> (\<forall>x. found = Ok x \<longrightarrow> x = Some payload) \<and> (calm s1 \<longrightarrow> found = Ok (Some payload))
    \<and> store_reachable (unix_job C U B cfg) (unix_sweep OS cfg) order maximum z2 z3 \<and> stopped_normally z3
    \<and> blocking_close Open True Open close_reply (client_env as_unit z2 z3 (coordinator_join_new False))
        = (Some (Ok (), joined), [Close close_reply])
    \<and> (\<forall>cfg' c' d. blocking_open None [] [] root namespace options (disk z3) = (Ok (cfg', c'), d) \<longrightarrow> cfg' = cfg
        \<and> (\<exists>z4 again.
             served (unix_job C U B cfg) (unix_sweep OS cfg) order maximum (store_new c' d) (key_hash B key)
               (LoadOp load_reply) (disk z4) z4
           \<and> blocking_load B Open True Open key load_reply (client_env as_load (store_new c' d) z4 j)
               = (Some (again, j), [Submission (key_hash B key) (LoadOp load_reply)])
           \<and> (\<forall>x. again = Ok x \<longrightarrow> x = Some payload)))"
proof -
  note open1 = assms(8) [unfolded blocking_open_def]
  have o: "wf_config cfg" "c = started maximum [] []" "cfg_format cfg = opt_format options"
    by (rule engine_open_Ok [OF assms(5,6) open1], simp add: assms(10) initialized_def)+
  have rest: "at_rest (store_new c s0)" unfolding o(2) by (rule new_at_rest)
  have m: "0 < maximum" using assms(6,10) by simp
  have save: "save_blob C U cfg (blob_path B cfg key) payload (disk (store_new c s0)) = (Ok (), s1)"
    using assms(9) by (simp add: store_new_def)
  obtain z1 z2 z3 found where run:
    "served (unix_job C U B cfg) (unix_sweep OS cfg) order maximum (store_new c s0) (key_hash B key) (SaveOp payload r) s1 z1"
    "blocking_save B Open True Open key payload r (client_env as_unit (store_new c s0) z1 j)
        = (Some (Ok (), j), [Submission (key_hash B key) (SaveOp payload r)])"
    "served (unix_job C U B cfg) (unix_sweep OS cfg) order maximum z1 (key_hash B key) (LoadOp load_reply) (disk z2) z2"
    "blocking_load B Open True Open key load_reply (client_env as_load z1 z2 j)
        = (Some (found, j), [Submission (key_hash B key) (LoadOp load_reply)])"
    "load_blob C cfg (blob_path B cfg key) s1 = (found, disk z2)"
    "\<forall>x. found = Ok x \<longrightarrow> x = Some payload" "calm s1 \<longrightarrow> found = Ok (Some payload)"
    "store_reachable (unix_job C U B cfg) (unix_sweep OS cfg) order maximum z2 z3" "stopped_normally z3" "disk z3 = disk z2"
    "blocking_close Open True Open close_reply (client_env as_unit z2 z3 (coordinator_join_new False))
        = (Some (Ok (), joined), [Close close_reply])"
    using save_load_close [OF assms(1-4) o(1) rest m save, where OS = OS and r = r and load_reply = load_reply
        and close_reply = close_reply and j = j] by blast
  have again: "cfg' = cfg \<and> (\<exists>z4 again.
             served (unix_job C U B cfg) (unix_sweep OS cfg) order maximum (store_new c' d) (key_hash B key)
               (LoadOp load_reply) (disk z4) z4
           \<and> blocking_load B Open True Open key load_reply (client_env as_load (store_new c' d) z4 j)
               = (Some (again, j), [Submission (key_hash B key) (LoadOp load_reply)])
           \<and> (\<forall>x. again = Ok x \<longrightarrow> x = Some payload))"
    if reopen: "blocking_open None [] [] root namespace options (disk z3) = (Ok (cfg', c'), d)" for cfg' c' d
  proof -
    note open2 = reopen [unfolded blocking_open_def]
    have same: "cfg' = cfg" by (rule reopened_config [OF assms(5-7) open1 open2])
    have c': "c' = started maximum [] []" and e: "\<And>q. q \<noteq> cfg_namespace cfg \<Longrightarrow> entry d q = entry (disk z3) q"
      by (rule engine_open_Ok [OF assms(5,6) open2 [unfolded same]], simp add: assms(10) initialized_def)+
    have wf: "wf_format (cfg_format cfg)" using o(1) by (simp add: wf_config_def)
    have kept: "entry d (blob_path B cfg key) = entry s1 (blob_path B cfg key)"
      using e [OF blob_path_not_namespace [OF assms(4) wf]] quiet_same_entries [OF load_blob_quiet [OF run(5)]] run(10)
      by simp
    have rest': "at_rest (store_new c' d)" unfolding c' by (rule new_at_rest)
    obtain again d' where l: "load_blob C cfg (blob_path B cfg key) d = (again, d')" by fastforce
    have "\<forall>x. again = Ok x \<longrightarrow> x = Some payload"
      using load_saved_entry [OF assms(2,3) o(1) save kept] l by blast
    moreover have "disk (store_new c' d) = d" by (simp add: store_new_def)
    ultimately show ?thesis
      using blocking_comes_to(1) [OF assms(1-4) wf rest' m, where OS = OS and key = key and r = load_reply] l same
      by (fastforce simp: comes_to_def served_def)
  qed
  show ?thesis
    by (intro exI [of _ z1] exI [of _ z2] exI [of _ z3] exI [of _ found] conjI run(1-4,6-9,11)) (use again in blast)
qed

text \<open>The namespace of the evaluation, just created.\<close>

definition new_namespace :: fs where
  "new_namespace = empty_root\<lparr>fs_log := [SyncDir ''/store'', Update [(''/store/blobs'', Some DirNode)]]\<rparr>"

lemma new_namespace_simps:
  "fs_faults new_namespace = []" "fs_scripts new_namespace = []" "entry new_namespace ''/store/blobs'' = Some DirNode"
  "entry new_namespace (temp_path zero_path) = None"
proof -
  have "82 < length (temp_path zero_path)" using quarantine_lengths(1) by (simp add: temp_path_def)
  then have "temp_path zero_path \<noteq> ''/store''" "temp_path zero_path \<noteq> ''/store/blobs''" by auto
  then show "fs_faults new_namespace = []" "fs_scripts new_namespace = []"
    "entry new_namespace ''/store/blobs'' = Some DirNode" "entry new_namespace (temp_path zero_path) = None"
    by (simp_all add: new_namespace_def empty_root_def demo_fs_def entry_def)
qed

lemma new_namespace_saved:
  "\<exists>s. save_blob castagnoli temp_lib golden_config zero_path [0x61,0x62,0x63] new_namespace = (Ok (), s) \<and> calm s"
proof -
  have "dir_part zero_path = ''/store/blobs''"
    unfolding zero_path_def
    by (rule dir_part_join [OF padded_digest.blob_file_plain [OF golden_wf]]) simp_all
  then show ?thesis
    by (simp add: save_blob_def golden_config_def golden_parts open_atomic_writer_def temp_lib_def temp_open_def
        temp_write_def temp_commit_def commit_writer_def syscall_def record_event_def Let_def new_namespace_simps calm_def)
qed

lemma open_save_close_reopen_witness:
  "\<exists>z1 z2 z3. blocking_load padded_digest Open True Open [] 1 (client_env as_load z1 z2 joined)
         = (Some (Ok (Some [0x61,0x62,0x63]), joined), [Submission zero_key (LoadOp 1)])
     \<and> store_reachable golden_job golden_sweep rotating_order 2 z2 z3 \<and> stopped_normally z3
     \<and> (\<forall>cfg' c' d. blocking_open None [] [] ''/store'' ''blobs'' golden_options (disk z3) = (Ok (cfg', c'), d) \<longrightarrow>
          cfg' = golden_config)"
proof -
  obtain s where s: "save_blob castagnoli temp_lib golden_config zero_path [0x61,0x62,0x63] new_namespace = (Ok (), s)" "calm s"
    using new_namespace_saved by blast
  have "save_blob castagnoli temp_lib golden_config (blob_path padded_digest golden_config []) [0x61,0x62,0x63] new_namespace
      = (Ok (), s)" using s(1) by (simp only: zero_blob_path)
  moreover have "blocking_open None [] [] ''/store'' ''blobs'' golden_options empty_root
      = (Ok (golden_config, started 2 [] []), new_namespace)"
    unfolding blocking_open_def new_namespace_def by (rule demo_open)
  moreover have "wf_format (opt_format golden_options)" "0 < opt_max_concurrent_operations golden_options"
    "2 = opt_max_concurrent_operations golden_options" "is_absolute ''/store''"
    using golden_wf by (simp_all add: golden_options_def is_absolute_def)
  ultimately show ?thesis
    using open_save_close_reopen [OF rotating.hash_order_axioms temp.unix_api_axioms castagnoli.crc32c_api_axioms
      padded_digest.blake3_api_axioms, where OS = "''linux''" and r = 0 and load_reply = 1 and close_reply = 2
      and j = joined and root = "''/store''" and namespace = "''blobs''" and options = golden_options
      and maximum = 2 and key = "[]", unfolded zero_blob_path] s(2) by (metis (no_types, lifting))
qed

end
