(* ===== verification/Answers.thy ===== *)
theory Answers
  imports Client
begin

text \<open>
  Waiting for a reply. A reply channel that was sent nothing and whose sender is still held somewhere blocks
  the client that waits on it; here the wait is a partial function, and no call that reached the engine is
  left blocked once the store has come to rest.
\<close>

section \<open>Waiting on a channel\<close>

text \<open>What \<open>recv\<close> meets on a channel: nothing yet, a sender that was dropped, or a value. A sender is dropped
  without a value only by a job that panics.\<close>

datatype reception = Blocked | Disconnected | Received reply_value

definition dropped :: "system \<Rightarrow> reply list" where
  "dropped y = map (\<lambda>(_, r, _). r) (filter (\<lambda>(_, _, panicked). panicked) (ended y))"

definition reception :: "system \<Rightarrow> reply \<Rightarrow> reception" where
  "reception y r =
     (case answer (out (core y)) r of
        Some v \<Rightarrow> Received v
      | None \<Rightarrow> if r \<in> set (dropped y) then Disconnected else Blocked)"

text \<open>\<open>wait\<close> and \<open>wait_async\<close> on these channels; \<open>None\<close> when they block.\<close>

definition wait_until ::
  "'a pending_result \<Rightarrow> lifecycle \<Rightarrow> (reply \<Rightarrow> reception) \<Rightarrow> (reply_value \<Rightarrow> 'a store_result option) \<Rightarrow> coordinator_join
     \<Rightarrow> ('a store_result \<times> coordinator_join) option option" where
  "wait_until p state recv get j =
     (case pending_receiver p of
        Buffered result \<Rightarrow> Some (pending_completion p state (Some result) j)
      | Replies r \<Rightarrow>
          (case recv r of
             Blocked \<Rightarrow> None
           | Disconnected \<Rightarrow> Some (pending_completion p state None j)
           | Received v \<Rightarrow> Some (pending_completion p state (get v) j)))"

lemma wait_until_wait:
  "wait_until p state recv get j = Some x \<Longrightarrow>
     x = wait p state (\<lambda>r. case recv r of Received v \<Rightarrow> get v | _ \<Rightarrow> None) j"
  by (auto simp: wait_until_def wait_def split: receiver.splits reception.splits)

text \<open>Every channel is used once.\<close>

definition channels_used_once :: "system \<Rightarrow> bool" where
  "channels_used_once y \<longleftrightarrow> distinct (map fst (view said (out (core y))) @ dropped y)"

lemma said_received:
  assumes "(r, v) \<in> set (view said (out (core y)))"
  shows "\<exists>v'. reception y r = Received v'" "channels_used_once y \<Longrightarrow> reception y r = Received v"
proof -
  have "r \<in> fst ` set (view said (out (core y)))" using assms by force
  then obtain v' where "answer (out (core y)) r = Some v'"
    by (metis answer_def domD dom_map_of_conv_image_fst)
  then show "\<exists>v'. reception y r = Received v'" by (simp add: reception_def)
  show "reception y r = Received v" if "channels_used_once y"
    using that assms by (simp add: reception_def answer_def channels_used_once_def)
qed

lemma dropped_received:
  assumes "(k, r, True) \<in> set (ended y)"
  shows "reception y r \<noteq> Blocked" "channels_used_once y \<Longrightarrow> reception y r = Disconnected"
proof -
  have d: "r \<in> set (dropped y)" using assms by (force simp: dropped_def)
  then show "reception y r \<noteq> Blocked" by (simp add: reception_def split: option.split)
  show "reception y r = Disconnected" if "channels_used_once y"
  proof -
    have "r \<notin> fst ` set (view said (out (core y)))" using that d by (auto simp: channels_used_once_def)
    then have "answer (out (core y)) r = None" by (simp add: answer_def map_of_eq_None_iff)
    with d show ?thesis by (simp add: reception_def)
  qed
qed

section \<open>What the actions say\<close>

lemma said_mem: "a \<in> set acts \<Longrightarrow> x \<in> set (said a) \<Longrightarrow> x \<in> set (view said acts)"
  by (auto simp: view_def)

lemma refused_said:
  assumes "Refused k operation error \<in> set acts"
  shows "\<exists>v. (reply_of operation, v) \<in> set (view said acts) \<and> answers operation v"
proof -
  obtain v where "deliver_error operation error = (reply_of operation, v)" "answers operation v"
    using deliver_error_answers by blast
  with said_mem [OF assms, of "(reply_of operation, v)"] show ?thesis by auto
qed

lemma delivered_said:
  assumes "Delivered k operation' result \<in> set acts"
    and "outcome_fits (k, operation, Some (operation', result))"
  shows "\<exists>v. (reply_of operation, v) \<in> set (view said acts) \<and> answers operation v"
proof -
  obtain v where "deliver operation' result = Some (reply_of operation, v)" "answers operation v"
    using assms(2) deliver_answers [of operation' result operation] by (auto simp: outcome_fits_def)
  with said_mem [OF assms(1), of "(reply_of operation, v)"] show ?thesis by auto
qed

lemma ops_of_cases:
  assumes "operation \<in> set (ops_of k acts)"
  obtains (started) "operation \<in> set (of_key k (view started_job acts))"
  | (refused) error where "Refused k operation error \<in> set acts"
proof -
  from assms obtain a where a: "a \<in> set acts" "operation \<in> set (op_of k a)" by (auto simp: ops_of_def)
  have "a = Started k operation \<or> a = Refused k operation WorkerUnavailable"
    using a(2) by (cases a) (auto split: if_splits)
  then show thesis
  proof
    assume "a = Started k operation"
    with a(1) show thesis by (intro started) (force simp: in_set_of_key view_def)
  qed (use a(1) refused in blast)
qed

lemma refused_closed_cases:
  assumes "operation \<in> set (of_key k (view refused_closed acts))"
  shows "Refused k operation StoreClosed \<in> set acts"
proof -
  obtain a where "a \<in> set acts" "(k, operation) \<in> set (refused_closed a)"
    using assms by (auto simp: in_set_of_key view_def)
  moreover from this(2) have "a = Refused k operation StoreClosed" by (cases a) (auto split: if_splits)
  ultimately show ?thesis by simp
qed

text \<open>The history of the ended jobs is that of the log.\<close>

lemma ended_log:
  "store_reachable job sweep order maximum (store_new start s) z \<Longrightarrow>
     ended (engine z) = map (\<lambda>(k, operation, outcome). (k, reply_of operation, outcome = None)) (jobs_log z)"
proof (induction rule: store_reachable.induct)
  case (store_further z z')
  from store_further.hyps(2) store_further.IH show ?case
    by cases (auto simp: job_done_def)
qed (simp add: store_new_def system_new_def)

section \<open>No call is left blocked\<close>

lemma operation_answered:
  assumes "hash_order order" "platform U staged target OS W opened C B cfg P job sweep" "regular_store P s" "0 < maximum"
    and "store_reachable job sweep order maximum (store_new (started maximum spawns panics) s) z"
    and rest: "channel (engine z) = []" "running (engine z) = []" "upkeep (engine z) = []"
    and "(k, operation) \<in> set (sent (engine z))"
  shows "(\<exists>v. (reply_of operation, v) \<in> set (view said (out (core (engine z)))) \<and> answers operation v)
    \<or> (k, reply_of operation, True) \<in> set (ended (engine z))"
proof -
  let ?acts = "out (core (engine z))"
  note backend = platform_backend [OF assms(2)]
  note linear = blob_backend.linearization [OF backend assms(1,3,5)]
  have "of_key k (sent (engine z)) = ops_of k ?acts @ of_key k (view refused_closed ?acts)"
    using waiting(2) [OF assms(1) blob_backend.store_reachable_engine [OF backend assms(5)] assms(4)] rest by simp
  then consider "operation \<in> set (ops_of k ?acts)" | "operation \<in> set (of_key k (view refused_closed ?acts))"
    using assms(9) by (auto simp: in_set_of_key [symmetric])
  then show ?thesis
  proof cases
    case 1
    then show ?thesis
    proof (cases rule: ops_of_cases)
      case started
      with linear(2) [of k] rest(2) have "operation \<in> set (of_key k (log_operations (jobs_log z)))" by simp
      then obtain outcome where log: "(k, operation, outcome) \<in> set (jobs_log z)"
        by (auto simp: in_set_of_key log_operations_def)
      show ?thesis
      proof (cases outcome)
        case None
        with log ended_log [OF assms(5)] show ?thesis by force
      next
        case (Some x)
        obtain operation' result where x: "x = (operation', result)" by fastforce
        have "(k, operation', result) \<in> set (view log_result (jobs_log z))"
          using log Some x by (force simp: view_def)
        then have "(operation', result) \<in> set (of_key k (view log_result (jobs_log z)))" by (simp add: in_set_of_key)
        with linear(4) [of k] rest(1) have "Delivered k operation' result \<in> set ?acts"
          by (simp add: in_set_of_key delivered_result_mem)
        moreover have "outcome_fits (k, operation, Some (operation', result))"
          using blob_backend.store_reachable_fits [OF backend assms(5)] log Some x by (auto simp: list_all_iff)
        ultimately show ?thesis using delivered_said by blast
      qed
    qed (use refused_said in blast)
  next
    case 2
    with refused_closed_cases refused_said show ?thesis by blast
  qed
qed

text \<open>C30. Every call is answered. When no event is in the channel and no job at a worker, as it comes about in
  boundedly many steps once no more calls are made, every operation that was ever sent has been answered
  on its reply channel with a value of its type, or its job panicked and has dropped the channel. So no
  client is blocked: the wait of each of these calls returns, with the value of the channel, or with
  \<open>EngineFailed\<close> when it was dropped; as every call has a channel of its own, that value is the answer to
  the call.\<close>

theorem every_call_is_answered:
  assumes "hash_order order" "platform U staged target OS W opened C B cfg P job sweep" "regular_store P s" "0 < maximum"
    and "store_reachable job sweep order maximum (store_new (started maximum spawns panics) s) z"
    and "channel (engine z) = []" "running (engine z) = []" "upkeep (engine z) = []"
    and "(k, operation) \<in> set (sent (engine z))"
  shows "((\<exists>v. (reply_of operation, v) \<in> set (view said (out (core (engine z)))) \<and> answers operation v)
       \<or> (k, reply_of operation, True) \<in> set (ended (engine z)))
    \<and> reception (engine z) (reply_of operation) \<noteq> Blocked
    \<and> wait_until (pending_new (Replies (reply_of operation))) l (reception (engine z)) get j
        = Some (Some (case reception (engine z) (reply_of operation) of
            Received v \<Rightarrow> or_else (get v) (Err EngineFailed) | _ \<Rightarrow> Err EngineFailed, j))
    \<and> (channels_used_once (engine z) \<longrightarrow>
        (case reception (engine z) (reply_of operation) of
           Received v \<Rightarrow> answers operation v
         | Disconnected \<Rightarrow> (k, reply_of operation, True) \<in> set (ended (engine z))
         | Blocked \<Rightarrow> False))"
proof -
  note a = operation_answered [OF assms]
  then have "reception (engine z) (reply_of operation) \<noteq> Blocked"
    using said_received(1) dropped_received(1) by fastforce
  moreover from this have "wait_until (pending_new (Replies (reply_of operation))) l (reception (engine z)) get j
        = Some (Some (case reception (engine z) (reply_of operation) of
            Received v \<Rightarrow> or_else (get v) (Err EngineFailed) | _ \<Rightarrow> Err EngineFailed, j))"
    by (cases "reception (engine z) (reply_of operation)")
       (simp_all add: wait_until_def pending_new_def or_else_def)
  moreover have "case reception (engine z) (reply_of operation) of
           Received v \<Rightarrow> answers operation v
         | Disconnected \<Rightarrow> (k, reply_of operation, True) \<in> set (ended (engine z))
         | Blocked \<Rightarrow> False" if "channels_used_once (engine z)"
    using a said_received(2) [OF _ that] dropped_received(2) [OF _ that] by auto
  ultimately show ?thesis using a by blast
qed

lemma every_call_is_answered_witness:
  "\<exists>z. sent (engine z) = [(zero_key, ClearOp 0)] \<and> store_reachable golden_job golden_sweep rotating_order 2 golden_start z
     \<and> reception (engine z) 0 = Received (UnitReply (Ok ()))
     \<and> wait_until (pending_new (Replies 0)) Open (reception (engine z)) as_unit (coordinator_join_new False)
         = Some (Some (Ok (), coordinator_join_new False))"
proof -
  have l: "length zero_key = 32" by (simp add: zero_key_def)
  have m: "0 < (2 :: nat)" by simp
  obtain z where z: "store_reachable golden_job golden_sweep rotating_order 2 golden_start z" "at_rest z"
    "out (core (engine z)) = [Started zero_key (ClearOp 0), Delivered zero_key (ClearOp 0) (ClearResult (Ok ()))]"
    "sent (engine z) = [(zero_key, ClearOp 0)]"
    using blob_backend.call_served [OF platform_backend [OF golden_platform] rotating.hash_order_axioms
        new_at_rest [of 2 zero_fs] m l, where now = 0 and operation = "ClearOp 0"] golden_clear
    by (fastforce simp: store_new_def system_new_def started_def sched_new_def)
  have r: "reception (engine z) 0 = Received (UnitReply (Ok ()))" by (simp add: reception_def answer_def z(3))
  have "channel (engine z) = []" "running (engine z) = []" "upkeep (engine z) = []"
    using z(2) by (simp_all add: at_rest_def)
  from every_call_is_answered [OF rotating.hash_order_axioms golden_platform zero_regular m z(1) this,
      where k = zero_key and operation = "ClearOp 0" and l = Open and get = as_unit and j = "coordinator_join_new False"]
  show ?thesis using z(1,4) r by (auto simp: or_else_def)
qed

end
