(* ===== verification/Variants.thy ===== *)
theory Variants
  imports Facades
begin

text \<open>
  The crate in its other configurations: with the benchmark instrumentation (\<open>bench_instrumentation\<close> in
  \<open>src/lib.rs\<close>, the constructors with an event sender, the sending of an event), and on a platform that is
  neither Unix nor Windows, where every call is refused.
\<close>

section \<open>Benchmark instrumentation\<close>

datatype benchmark_event =
    FlushAccepted
  | SaveStreamInputStarved
  | LoadStreamOutputBackpressured

definition ENVELOPE_OVERHEAD :: nat where "ENVELOPE_OVERHEAD = HEADER_LEN + CHECKSUM_LEN"
definition STREAM_CHUNK_BYTES :: nat where "STREAM_CHUNK_BYTES = STREAM_CHUNK_SIZE"

definition bench_encode :: "crc32c_lib \<Rightarrow> blob_format_identity \<Rightarrow> bytes \<Rightarrow> u64 \<Rightarrow> bytes store_result" where
  "bench_encode C format payload maximum = encode_envelope C format payload maximum"

definition bench_decode :: "crc32c_lib \<Rightarrow> blob_format_identity \<Rightarrow> reader \<Rightarrow> u64 \<Rightarrow> bytes store_result \<times> reader" where
  "bench_decode C format reader maximum = decode_reader C format reader maximum"

text \<open>The configuration with its event sender; the boolean says whether the receiver is still there, and a
  send to one that is not is ignored.\<close>

record instrumented_config = store_config +
  cfg_benchmark_events :: "bool option"

definition emit_benchmark_event :: "instrumented_config \<Rightarrow> benchmark_event \<Rightarrow> benchmark_event list \<Rightarrow> benchmark_event list" where
  "emit_benchmark_event config event received =
     (case cfg_benchmark_events config of
        None \<Rightarrow> received
      | Some listening \<Rightarrow> if listening then received @ [event] else received)"

definition with_benchmark_events :: "store_config \<Rightarrow> bool \<Rightarrow> instrumented_config" where
  "with_benchmark_events cfg events = store_config.extend cfg \<lparr>cfg_benchmark_events = Some events\<rparr>"

definition engine_open_with_benchmark_events ::
  "io_error option \<Rightarrow> bool list \<Rightarrow> bool list \<Rightarrow> path \<Rightarrow> string \<Rightarrow> atomic_blob_store_options \<Rightarrow> bool \<Rightarrow> fs
     \<Rightarrow> (instrumented_config \<times> sched) store_result \<times> fs" where
  "engine_open_with_benchmark_events spawned spawns panics root namespace options events s =
     (case validate_namespace namespace of
        Err error \<Rightarrow> (Err error, s)
      | Ok component \<Rightarrow>
          (case validate_maximum (opt_max_blob_size options) of
             Err error \<Rightarrow> (Err error, s)
           | Ok _ \<Rightarrow>
               (case initialize_platform root component (opt_format options) (opt_max_blob_size options)
                       (opt_max_concurrent_operations options) s of
                  (Err error, s) \<Rightarrow> (Err error, s)
                | (Ok cfg, s) \<Rightarrow>
                    (let config = with_benchmark_events cfg events
                     in (map_ok (\<lambda>(_, coordinator). (config, coordinator))
                           (from_config spawned spawns panics (store_config.truncate config)), s)))))"

definition blocking_open_with_benchmark_events where
  "blocking_open_with_benchmark_events = engine_open_with_benchmark_events"

definition tokio_open_with_benchmark_events ::
  "io_error option \<Rightarrow> io_error option \<Rightarrow> bool list \<Rightarrow> bool list \<Rightarrow> path \<Rightarrow> string \<Rightarrow> atomic_blob_store_options \<Rightarrow> bool \<Rightarrow> fs
     \<Rightarrow> (instrumented_config \<times> sched) store_result \<times> fs" where
  "tokio_open_with_benchmark_events initializer spawned spawns panics root namespace options events s =
     (case initializer of
        Some source \<Rightarrow> (io_err StartInitialization source, s)
      | None \<Rightarrow> engine_open_with_benchmark_events spawned spawns panics root namespace options events s)"

lemma truncate_with_events [simp]: "store_config.truncate (with_benchmark_events cfg events) = cfg"
  by (simp add: with_benchmark_events_def store_config.defs)

text \<open>The instrumented constructors repeat the ordinary ones: the same store is opened, with the same effect
  on the disk.\<close>

lemma instrumented_open_agrees:
  "engine_open_with_benchmark_events spawned spawns panics root namespace options events s
     = (case engine_open spawned spawns panics root namespace options s of
          (opened, s) \<Rightarrow> (map_ok (\<lambda>(cfg, coordinator). (with_benchmark_events cfg events, coordinator)) opened, s))"
  by (auto simp: engine_open_with_benchmark_events_def engine_open_def from_config_def map_ok_def io_err_def Let_def
      split: sum.split prod.split option.split)

lemma instrumented_tokio_agrees:
  "tokio_open_with_benchmark_events initializer spawned spawns panics root namespace options events s
     = (case tokio_open initializer spawned spawns panics root namespace options s of
          (opened, s) \<Rightarrow> (map_ok (\<lambda>(cfg, coordinator). (with_benchmark_events cfg events, coordinator)) opened, s))"
  by (simp add: tokio_open_with_benchmark_events_def tokio_open_def instrumented_open_agrees io_err_def split: option.split)

section \<open>Platforms that are not supported\<close>

text \<open>\<open>OS\<close> is \<open>std::env::consts::OS\<close>. No store can be opened there, and the methods of a handle would refuse.\<close>

definition unsupported_future :: "string \<Rightarrow> 'a pending_result" where
  "unsupported_future OS = resolved (Err (UnsupportedPlatform OS))"

definition unsupported_closed_pending :: "unit store_result \<Rightarrow> unit pending_result" where
  "unsupported_closed_pending result = resolved result"

definition unsupported_open :: "string \<Rightarrow> string \<Rightarrow> atomic_blob_store_options \<Rightarrow> (store_config \<times> sched) store_result" where
  "unsupported_open OS namespace options =
     (case validate_namespace namespace of
        Err error \<Rightarrow> Err error
      | Ok _ \<Rightarrow>
          (case validate_maximum (opt_max_blob_size options) of
             Err error \<Rightarrow> Err error
           | Ok _ \<Rightarrow> Err (UnsupportedPlatform OS)))"

lemma unsupported_never_opens: "\<exists>e. unsupported_open OS namespace options = Err e"
  by (simp add: unsupported_open_def split: sum.split)

lemma unsupported_future_refuses: "wait (unsupported_future OS) state received j = Some (Err (UnsupportedPlatform OS), j)"
  by (simp add: unsupported_future_def wait_def resolved_def pending_new_def or_else_def)

end
