(* ===== verification/Spec2Isabelle.thy ===== *)
theory Spec2Isabelle
  imports SystemProgress Barrier FacadeProps WinOpen Durability Lifecycle Answers Variants
begin

text \<open>
  A verification development for the Rust crate \<open>atomic-blob-store\<close>: a store of byte strings under byte
  string keys, one file per key in a namespace directory, with a coordinator thread, a pool of worker
  threads and two facades. The paths below are under \<open>src/src\<close>.

  How the program works. A facade (\<open>blocking.rs\<close>, \<open>tokio.rs\<close>) calls the engine handle
  (\<open>engine/mod.rs\<close>), which hashes the key (\<open>path.rs\<close>) and sends an event to the coordinator while it holds
  the lifecycle lock; it returns a pending result, which waits on a reply channel. The coordinator
  (\<open>engine/scheduler.rs\<close>) keeps a queue per key and gives jobs to the worker pool (\<open>engine/workers.rs\<close>), one
  per key at a time and a bounded number altogether; flush, cleanup and close are barriers. A worker runs
  the operation (\<open>engine/operation.rs\<close>) on the file system (\<open>filesystem/mod.rs\<close>), in the envelope format of
  \<open>format.rs\<close>, and sends the completion back to the coordinator, which delivers the result.

  Values and envelopes.
    \<open>Prelude\<close>: machine words, results as sums, checked arithmetic, big-endian conversions.
    \<open>Config\<close> (\<open>config.rs\<close>), \<open>Errors\<close> (\<open>error.rs\<close>), \<open>Hexadecimal\<close>, \<open>Paths\<close> (\<open>path.rs\<close> and \<open>std::path\<close> on Unix).
    \<open>Crc32c\<close> and \<open>Readers\<close>: the checksum crate as a locale, interpreted on the Castagnoli polynomial; readers
    with a script of short reads and failures, and \<open>read_exact\<close> over them.
    \<open>Envelope\<close>, \<open>EnvelopeFormat\<close>, \<open>EnvelopeProps\<close> (\<open>format.rs\<close>): encoder and both readers; the parser of
    \<open>FORMAT.md\<close> as their specification; round trip, refinement, rejection of everything but encodings,
    precise errors for cut and extended files.
    \<open>Streaming\<close>: the messages of a streaming save and \<open>write_stream_envelope\<close> on any writer.

  Files on Unix.
    \<open>FileSystem\<close>: a file system as a log of entry updates over the entries it started with, so that an
    interruption is a suffix of the log and a power loss keeps what a directory synchronization followed;
    \<open>quiet\<close> and \<open>installs\<close> say that an observer of some paths sees no update or exactly one.
    \<open>UnixApi\<close>: \<open>atomic-write-file\<close>, \<open>rustix\<close> and \<open>getrandom\<close> as a record of parameters with their documented
    behaviour as a locale, interpreted on a temporary file and a rename.
    \<open>BlobFiles\<close> (\<open>filesystem/mod.rs\<close>, the loading half of \<open>format.rs\<close>): one definition per function.
    \<open>SaveProps\<close>, \<open>LoadProps\<close>, \<open>BlobProps\<close>: old or new at every interruption, what loads return and when they
    report an absent blob, validation before the first streamed byte, clearing, inspecting, quarantining,
    opening a namespace.

  Operations (\<open>engine/operation.rs\<close>).
    \<open>Operations\<close>: the operations, the kinds of their results, the job of a worker on Unix, and the delivery.
    \<open>Contents\<close>: the abstract store, a map from key digests to payloads, and what an operation with a result
    may do to it. The locale \<open>blob_backend\<close> is the contract of a platform's jobs: each changes the map as its
    result says, a panic changes nothing, and the maintenance spares the map. In it any sequence of jobs
    refines the map.
    \<open>OperationProps\<close> and \<open>WinOperations\<close>: the jobs on Unix and on Windows satisfy the contract.

  Files on Windows.
    \<open>WinPaths\<close>: \<open>wide_path\<close>, \<open>is_owned_temporary_filename\<close> and \<open>std::path\<close> on a drive.
    \<open>WinApi\<close>: the Win32 calls as a record of parameters and a locale, interpreted on the entries directly. The
    laws about codes that mean ``not found'' are for regular files and for moves within one directory; a
    deletion takes the name away at once.
    \<open>WinFiles\<close>: the \<open>cfg(windows)\<close> half of \<open>filesystem/mod.rs\<close>, one definition per function.
    \<open>WinProps\<close>, \<open>WinCleanup\<close>, \<open>WinQuarantine\<close>, \<open>WinOpen\<close>: atomic saves, clearing, the cleanup of stale staging
    files, quarantining, the file time a clear writes, and opening a namespace.

  The engine.
    \<open>Scheduler\<close>: the state of the coordinator (\<open>sched\<close>), the handling of an event, closing down, the pool. What
    the coordinator does to the outside is the list \<open>out\<close> of its actions.
    \<open>SchedulerInv\<close>, \<open>SchedulerSteps\<close>: its invariant \<open>wf_sched\<close> and, for each event, how operations move between
    channel, queues, workers and clients (\<open>accounted\<close>), for every iteration order of the hash map.
    \<open>Engine\<close> (\<open>engine/mod.rs\<close>): the methods of the handle, pending results, joining, opening.
    \<open>System\<close>: the composition, as a step relation of clients, coordinator and workers over a shared channel;
    \<open>SystemInv\<close> has the invariant of its reachable states. \<open>SystemProps\<close>: order per key, exclusion and the
    bound on running jobs, drained stops, answers of close, work conservation. \<open>Barrier\<close>: flush as a barrier
    between what was sent before it and behind it, along a run from its call to its answer.
    \<open>SystemProgress\<close>: without new calls the store comes to rest after boundedly many steps.
    \<open>EngineProps\<close>: what the calls send and how their waits end, repeated closing, opening, preparing workers.

  The facades.
    \<open>Facades\<close> (\<open>blocking.rs\<close>, \<open>tokio.rs\<close>): the loop of a save from a reader, the loop of a load into a writer, the
    methods that wait and the future of the Tokio facade. \<open>FacadeProps\<close>: a streamed save stores the whole
    rest of its reader or nothing; a load hands over bytes of the validated payload only, and all of it when
    nothing fails.
    \<open>Variants\<close>: the benchmark module of \<open>lib.rs\<close> and the instrumented constructors, which open the same store;
    the refusals on platforms that are neither Unix nor Windows.

  The store as a whole.
    \<open>Store\<close>: the engine and the disk in one state. Its steps are those of \<open>System\<close>, where the end of a job and
    of the maintenance runs their closures (\<open>worker_job\<close>, \<open>maintenance_job\<close>, from \<open>dispatch_if_idle\<close> and
    \<open>dispatch_maintenance\<close>) on the disk and records the job in a log. \<open>StoreProps\<close>, inside \<open>blob_backend\<close>: the
    log is a sequential history of the map that ends in the contents of the disk, it respects the order of
    sending per key, and its results are those the clients receive.
    \<open>EndToEnd\<close>: the same for both platforms as theorems, what a load returns after a write, the types of
    the replies, and that the coordinator never panics on the results of the jobs. \<open>Answers\<close>: what a client
    meets on its reply channel, where a wait can block, and that at rest no call is left without an answer.
    \<open>Sequential\<close> and \<open>Client\<close>: a store at rest with one client. A blocking call comes to what the function of
    the file system behind it does, a flush is answered, a cleanup runs the platform's, a close stops the
    store. \<open>Lifecycle\<close>: the program of \<open>consumer-tests/src/lib.rs\<close> (open, save, load, close) returns what was
    saved, and so does a second process that opens the same namespace.

  Crashes.
    \<open>Interruption\<close>: the locale \<open>crash_backend\<close> extends the contract of the jobs to the middle of a job: cut off
    anywhere it leaves the old payload of its key or the one it was to leave. Both platforms satisfy it.
    \<open>Restart\<close>: a crash of the composed store cuts off its running jobs (\<open>cut_off\<close>); the disk is that of the
    logged jobs but for the keys of running changes, and the next run loads what the last acknowledged
    write of the first one left, or what a change that was cut off was to leave.
    \<open>Durability\<close>: the locale \<open>durable_backend\<close> adds what the calls of the repository itself synchronize on Unix;
    of the commit inside \<open>atomic-write-file\<close> nothing is assumed. A power loss leaves of each key a whole value
    it had, and none from before the last clear of a payload or quarantine that succeeded. The last section
    shows a gap: a clear that is retried after a failed synchronization reports success without one.

  Bounds and termination. Loops over decreasing lengths and queues are total functions. The loops that draw
  random identifiers may run forever and are partial functions into \<open>option\<close>; that they return when the
  source does not repeat itself, or draws a free name, is proved. The fuel of \<open>resolve\<close> is the limit of the
  kernel on symbolic links, and running out of it is the error the kernel gives. How many sends a channel
  accepts, which spawns fail, which jobs panic, which calls fail and how much a read returns are arguments
  or scripts that range over every behaviour.

  Not modelled. The stage hooks and constructors of the test configuration and the places where benchmark
  events are emitted; the derived and hand-written \<open>Debug\<close> texts and the
  \<open>Display\<close> texts of \<open>AtomicBlobStoreError\<close>. Poisoned locks do not occur in the
  model, and a poll that is pending only delays a loop. In the composed store the calls of one job on the
  file system are one step, the one in which it ends: the finer interleaving of jobs is left out, because
  jobs that run at the same time have different keys and a job changes no canonical entry but its key's,
  both of which are proved. The crash theorems cut running jobs off one after the other, in any order, for
  the same reason. They are about jobs whose calls end: a job that would draw taken identifiers for ever is
  in no run. On Windows the theorems are about namespaces with an ASCII path on a drive, and no claim is
  made about power loss, which the documentation of the crate excludes.
\<close>

end
